(* ===== verification/Prelude.thy ===== *)
theory Prelude
  imports Main "HOL-Library.Word"
begin

text \<open>
  The vocabulary the component theories share: the widths of the machine integers, the
  result type of operations that can fail, unsigned 64-bit subtraction as \<open>size_t\<close> has it,
  and the generic facts on lists (overwriting a slice, flattening equally long blocks) that
  carry the buffer proofs.
\<close>

section \<open>Machine integers\<close>

type_synonym u8 = "8 word"
type_synonym u16 = "16 word"
type_synonym u32 = "32 word"
type_synonym u64 = "64 word"

text \<open>
  \<open>size_t\<close> values that count bytes held in memory are natural numbers; the subtraction of two
  of them wraps around at 64 bits when it would be negative, and the guards of the code compare
  the wrapped value.
\<close>

definition usub :: "nat \<Rightarrow> nat \<Rightarrow> nat" where
  "usub a b = (if b \<le> a then a - b else a + 2 ^ 64 - b)"

lemma usub_le [simp]: "b \<le> a \<Longrightarrow> usub a b = a - b"
  by (simp add: usub_def)

text \<open>A 64-bit value converted to \<open>int\<close>.\<close>

definition as_int :: "u64 \<Rightarrow> int" where
  "as_int w = sint (ucast w :: u32)"

lemma as_int_small:
  assumes "uint w < 2 ^ 31"
  shows "as_int w = uint w"
proof -
  have "uint w < 2147483648" using assms by simp
  then have "take_bit 32 (uint w) = uint w"
    by (intro take_bit_int_eq_self) simp_all
  moreover have "signed_take_bit 31 (uint w) = uint w"
    by (rule signed_take_bit_int_eq_self) (use assms uint_ge_0 [of w] in linarith)+
  ultimately show ?thesis
    unfolding as_int_def by (simp add: sint_uint unsigned_ucast_eq)
qed

section \<open>Results of operations that can fail\<close>

text \<open>\<open>Inl\<close> is a thrown exception or an undefined step, \<open>Inr\<close> a normal return.\<close>

definition rbind :: "'e + 'a \<Rightarrow> ('a \<Rightarrow> 'e + 'b) \<Rightarrow> 'e + 'b" where
  "rbind m f = (case m of Inl e \<Rightarrow> Inl e | Inr x \<Rightarrow> f x)"

lemma rbind_simps [simp]:
  "rbind (Inl e) f = Inl e"
  "rbind (Inr x) f = f x"
  by (simp_all add: rbind_def)

lemma rbind_eq_Inr: "rbind m f = Inr y \<longleftrightarrow> (\<exists>x. m = Inr x \<and> f x = Inr y)"
  by (cases m) auto

lemma rbind_assoc: "rbind (rbind m f) g = rbind m (\<lambda>x. rbind (f x) g)"
  by (cases m) auto

section \<open>Overwriting a slice of a list\<close>

definition overwrite :: "nat \<Rightarrow> 'a list \<Rightarrow> 'a list \<Rightarrow> 'a list" where
  "overwrite p bs xs = take p xs @ bs @ drop (p + length bs) xs"

lemma overwrite_Nil [simp]: "overwrite p [] xs = xs"
  by (simp add: overwrite_def)

lemma length_overwrite [simp]:
  "p + length bs \<le> length xs \<Longrightarrow> length (overwrite p bs xs) = length xs"
  by (simp add: overwrite_def)

lemma length_overwrite_max:
  "p \<le> length xs \<Longrightarrow> length (overwrite p bs xs) = max (length xs) (p + length bs)"
  by (auto simp: overwrite_def)

lemma overwrite_overwrite_adjacent:
  assumes "p + length as + length bs \<le> length xs"
  shows "overwrite (p + length as) bs (overwrite p as xs) = overwrite p (as @ bs) xs"
  using assms by (simp add: overwrite_def min_absorb1 ac_simps)

lemma overwrite_overwrite_grow:
  "p \<le> length xs \<Longrightarrow>
    overwrite (p + length as) bs (overwrite p as xs) = overwrite p (as @ bs) xs"
  by (simp add: overwrite_def min_absorb2 ac_simps)

lemma overwrite_append_left:
  "p + length bs \<le> length xs \<Longrightarrow> overwrite p bs (xs @ ys) = overwrite p bs xs @ ys"
  by (simp add: overwrite_def)

lemma overwrite_append_right:
  "length xs \<le> p \<Longrightarrow> overwrite p bs (xs @ ys) = xs @ overwrite (p - length xs) bs ys"
  by (simp add: overwrite_def)

lemma take_drop_overwrite [simp]:
  "p \<le> length xs \<Longrightarrow> take (length bs) (drop p (overwrite p bs xs)) = bs"
  by (simp add: overwrite_def)

lemma take_overwrite:
  "p \<le> length xs \<Longrightarrow> n \<le> p \<Longrightarrow> take n (overwrite p bs xs) = take n xs"
  by (simp add: overwrite_def min_absorb2)

lemma take_overwrite_cover:
  assumes "p + length bs \<le> length xs" and "p \<le> n"
  shows "take (max n (p + length bs)) (overwrite p bs xs) = overwrite p bs (take n xs)"
proof (cases "n \<le> p + length bs")
  case True
  then show ?thesis
    using assms by (simp add: overwrite_def max_absorb2 min_absorb1)
next
  case False
  then show ?thesis
    using assms by (simp add: overwrite_def max_absorb1 min_absorb1 min_absorb2 drop_take)
qed

section \<open>Equally long blocks laid end to end\<close>

definition blocks_of :: "nat \<Rightarrow> 'a list list \<Rightarrow> bool" where
  "blocks_of b xss \<longleftrightarrow> (\<forall>xs \<in> set xss. length xs = b)"

lemma blocks_of_simps [simp]:
  "blocks_of b []"
  "blocks_of b (xs # xss) \<longleftrightarrow> length xs = b \<and> blocks_of b xss"
  "blocks_of b (xss @ yss) \<longleftrightarrow> blocks_of b xss \<and> blocks_of b yss"
  by (auto simp: blocks_of_def)

lemma blocks_of_nth: "blocks_of b xss \<Longrightarrow> i < length xss \<Longrightarrow> length (xss ! i) = b"
  by (simp add: blocks_of_def)

lemma blocks_of_update:
  "blocks_of b xss \<Longrightarrow> length xs = b \<Longrightarrow> blocks_of b (xss[i := xs])"
  by (auto simp: blocks_of_def dest: subsetD [OF set_update_subset_insert])

lemma length_concat_blocks: "blocks_of b xss \<Longrightarrow> length (concat xss) = length xss * b"
  by (induction xss) auto

lemma take_concat_blocks:
  "blocks_of b xss \<Longrightarrow> take (i * b) (concat xss) = concat (take i xss)"
proof (induction xss arbitrary: i)
  case (Cons xs xss)
  then show ?case by (cases i) auto
qed simp

lemma drop_concat_blocks:
  "blocks_of b xss \<Longrightarrow> drop (i * b) (concat xss) = concat (drop i xss)"
proof (induction xss arbitrary: i)
  case (Cons xs xss)
  then show ?case by (cases i) auto
qed simp

lemma drop_concat_in_block:
  assumes "blocks_of b xss" and "i < length xss" and "n \<le> b"
  shows "drop (i * b + n) (concat xss) = drop n (xss ! i) @ concat (drop (Suc i) xss)"
proof -
  have "drop (i * b + n) (concat xss) = drop n (concat (drop i xss))"
    using drop_concat_blocks [OF assms(1), of i] by (simp add: add.commute flip: drop_drop)
  also have "drop i xss = xss ! i # drop (Suc i) xss"
    using assms(2) by (simp add: Cons_nth_drop_Suc)
  finally show ?thesis
    using assms by (simp add: blocks_of_nth)
qed

lemma overwrite_concat_block:
  assumes "blocks_of b xss" and "i < length xss" and "n + length bs \<le> b"
  shows "concat (xss[i := overwrite n bs (xss ! i)]) = overwrite (i * b + n) bs (concat xss)"
proof -
  have split: "concat xss = concat (take i xss) @ xss ! i @ concat (drop (Suc i) xss)"
    using assms(2) by (metis concat.simps(2) concat_append id_take_nth_drop)
  have len: "length (concat (take i xss)) = i * b"
    using assms by (subst length_concat_blocks [of b]) (auto simp: blocks_of_def dest: in_set_takeD)
  have blk: "length (xss ! i) = b"
    using assms by (simp add: blocks_of_nth)
  have "concat (xss[i := overwrite n bs (xss ! i)]) =
      concat (take i xss) @ overwrite n bs (xss ! i) @ concat (drop (Suc i) xss)"
    using assms(2) by (simp add: upd_conv_take_nth_drop)
  also have "\<dots> = overwrite (i * b + n) bs (concat xss)"
    using assms len blk by (subst split) (simp add: overwrite_append_right overwrite_append_left)
  finally show ?thesis .
qed

end
