(* ===== verification/Endian.thy ===== *)
theory Endian
  imports Prelude
begin

text \<open>
  \<^verbatim>\<open>src/src/socket/endian.h\<close>: the byte order of the host, \<^verbatim>\<open>byteswap\<close> at 2, 4 and 8 bytes, and the
  conditional swaps. The host's order, which the header fixes by an \<^verbatim>\<open>#if\<close>, is an argument
  \<open>host\<close>, so that every statement covers both branches of the conditional compilation.

  \<open>word_bytes\<close> is the little-endian byte sequence of a word and \<open>bytes_word\<close> reads it
  back; the memory image of a variable on a host is that sequence or its reverse.
\<close>

unbundle bit_operations_syntax

section \<open>Words as byte sequences\<close>

definition word_bytes :: "'a::len word \<Rightarrow> u8 list" where
  "word_bytes w = map (\<lambda>k. ucast (drop_bit (8 * k) w)) [0..<LENGTH('a) div 8]"

primrec bytes_word :: "u8 list \<Rightarrow> 'a::len word" where
  "bytes_word [] = 0"
| "bytes_word (b # bs) = ucast b OR push_bit 8 (bytes_word bs)"

lemma length_word_bytes [simp]: "length (word_bytes (w :: 'a::len word)) = LENGTH('a) div 8"
  by (simp add: word_bytes_def)

lemma bit_word_bytes:
  "k < LENGTH('a) div 8 \<Longrightarrow>
    bit (word_bytes (w :: 'a::len word) ! k) n \<longleftrightarrow> n < 8 \<and> bit w (8 * k + n)"
  by (simp add: word_bytes_def bit_simps)

lemma bit_bytes_word:
  "bit (bytes_word bs :: 'a::len word) n \<longleftrightarrow>
    n < LENGTH('a) \<and> n div 8 < length bs \<and> bit (bs ! (n div 8)) (n mod 8)"
proof (induction bs arbitrary: n)
  case Nil
  then show ?case by simp
next
  case (Cons b bs)
  show ?case
  proof (cases "n < 8")
    case True
    then show ?thesis by (auto simp: bit_simps)
  next
    case False
    have low: "\<not> bit b n"
      using False bit_imp_le_length [of b n] by auto
    obtain m where m: "n = m + 8"
      using False by (metis le_add_diff_inverse2 not_le)
    have "bit (bytes_word (b # bs) :: 'a word) n \<longleftrightarrow>
        n < LENGTH('a) \<and> bit (bytes_word bs :: 'a word) m"
      using low m by (auto simp: bit_simps)
    moreover have "n div 8 = Suc (m div 8)" and "n mod 8 = m mod 8"
      using m by simp_all
    ultimately show ?thesis
      using m by (simp del: bytes_word.simps add: Cons.IH) auto
  qed
qed

lemma bytes_word_bytes:
  assumes "8 dvd LENGTH('a)"
  shows "bytes_word (word_bytes w) = (w :: 'a::len word)"
proof (rule bit_word_eqI)
  fix n assume n: "n < LENGTH('a)"
  then have "n div 8 < LENGTH('a) div 8"
    using assms by (auto elim!: dvdE)
  then show "bit (bytes_word (word_bytes w) :: 'a word) n \<longleftrightarrow> bit w n"
    using n by (simp add: bit_bytes_word bit_word_bytes)
qed

lemma word_bytes_word:
  assumes "8 dvd LENGTH('a)" and "length bs = LENGTH('a) div 8"
  shows "word_bytes (bytes_word bs :: 'a::len word) = bs"
proof (rule nth_equalityI)
  show "length (word_bytes (bytes_word bs :: 'a word)) = length bs"
    using assms by simp
next
  fix k assume "k < length (word_bytes (bytes_word bs :: 'a word))"
  then have k: "k < LENGTH('a) div 8" by simp
  show "word_bytes (bytes_word bs :: 'a word) ! k = bs ! k"
  proof (rule bit_word_eqI)
    fix n assume n: "n < LENGTH(8)"
    have "8 * k + n < LENGTH('a)"
      using k n assms(1) by (auto elim!: dvdE)
    then show "bit (word_bytes (bytes_word bs :: 'a word) ! k) n \<longleftrightarrow> bit (bs ! k) n"
      using k n assms(2) by (simp add: bit_word_bytes bit_bytes_word)
  qed
qed

section \<open>The byte swap\<close>

definition byteswap :: "'a::len word \<Rightarrow> 'a word" where
  "byteswap value = bytes_word (rev (word_bytes value))"

lemma word_bytes_byteswap:
  "8 dvd LENGTH('a) \<Longrightarrow> word_bytes (byteswap w :: 'a::len word) = rev (word_bytes w)"
  by (simp add: byteswap_def word_bytes_word)

lemma byteswap_byteswap:
  "8 dvd LENGTH('a) \<Longrightarrow> byteswap (byteswap w) = (w :: 'a::len word)"
  by (simp add: byteswap_def word_bytes_word bytes_word_bytes)

text \<open>The swap moves bit \<open>n\<close> of byte \<open>k\<close> to bit \<open>n\<close> of the mirrored byte.\<close>

lemma bit_byteswap:
  assumes "8 dvd LENGTH('a)" and "n < LENGTH('a)"
  shows "bit (byteswap w :: 'a::len word) n \<longleftrightarrow> bit w (LENGTH('a) - 8 - 8 * (n div 8) + n mod 8)"
proof -
  obtain m where m: "LENGTH('a) = 8 * m"
    using assms(1) by (auto elim!: dvdE)
  then have k: "n div 8 < m"
    using assms(2) by (simp add: less_mult_imp_div_less mult.commute)
  have "8 * (m - Suc (n div 8)) = LENGTH('a) - 8 - 8 * (n div 8)"
    using m by (simp add: diff_mult_distrib2)
  then show ?thesis
    using assms(2) k m
    by (simp add: byteswap_def bit_bytes_word rev_nth bit_word_bytes)
qed

lemma byteswap_or:
  "8 dvd LENGTH('a) \<Longrightarrow> byteswap (a OR b) = byteswap a OR (byteswap b :: 'a::len word)"
  by (rule bit_word_eqI) (simp add: bit_byteswap bit_simps)

lemma byteswap_and:
  "8 dvd LENGTH('a) \<Longrightarrow> byteswap (a AND b) = byteswap a AND (byteswap b :: 'a::len word)"
  by (rule bit_word_eqI) (simp add: bit_byteswap bit_simps)

lemma byteswap_not:
  assumes "8 dvd LENGTH('a)"
  shows "byteswap (NOT a) = NOT (byteswap a :: 'a::len word)"
proof (rule bit_word_eqI)
  fix n assume n: "n < LENGTH('a)"
  have "LENGTH('a) - 8 - 8 * (n div 8) + n mod 8 < LENGTH('a)"
    using assms n by (auto elim!: dvdE)
  then show "bit (byteswap (NOT a) :: 'a word) n \<longleftrightarrow> bit (NOT (byteswap a) :: 'a word) n"
    using assms n by (simp add: bit_byteswap bit_simps)
qed

section \<open>The host's order\<close>

datatype endian = SYLAR_LITTLE_ENDIAN | SYLAR_BIG_ENDIAN

text \<open>The bytes a variable of the host occupies in memory, lowest address first.\<close>

definition mem_bytes :: "endian \<Rightarrow> 'a::len word \<Rightarrow> u8 list" where
  "mem_bytes host w =
     (case host of SYLAR_LITTLE_ENDIAN \<Rightarrow> word_bytes w | SYLAR_BIG_ENDIAN \<Rightarrow> rev (word_bytes w))"

definition mem_word :: "endian \<Rightarrow> u8 list \<Rightarrow> 'a::len word" where
  "mem_word host bs =
     (case host of SYLAR_LITTLE_ENDIAN \<Rightarrow> bytes_word bs | SYLAR_BIG_ENDIAN \<Rightarrow> bytes_word (rev bs))"

lemma length_mem_bytes [simp]: "length (mem_bytes h (w :: 'a::len word)) = LENGTH('a) div 8"
  by (simp add: mem_bytes_def split: endian.split)

lemma mem_word_bytes [simp]:
  "8 dvd LENGTH('a) \<Longrightarrow> mem_word h (mem_bytes h w) = (w :: 'a::len word)"
  by (simp add: mem_word_def mem_bytes_def bytes_word_bytes split: endian.split)

definition byteswapOnLittleEndian :: "endian \<Rightarrow> 'a::len word \<Rightarrow> 'a word" where
  "byteswapOnLittleEndian host t =
     (case host of SYLAR_BIG_ENDIAN \<Rightarrow> t | SYLAR_LITTLE_ENDIAN \<Rightarrow> byteswap t)"

definition byteswapOnBigEndian :: "endian \<Rightarrow> 'a::len word \<Rightarrow> 'a word" where
  "byteswapOnBigEndian host t =
     (case host of SYLAR_BIG_ENDIAN \<Rightarrow> byteswap t | SYLAR_LITTLE_ENDIAN \<Rightarrow> t)"

text \<open>
  A value swapped exactly when the wanted order differs from the host's has the wanted order in
  memory, whatever the host.
\<close>

lemma mem_bytes_swap_unless:
  "8 dvd LENGTH('a) \<Longrightarrow>
    mem_bytes h (if e \<noteq> h then byteswap w else w :: 'a::len word) = mem_bytes e w"
  by (cases e; cases h) (simp_all add: mem_bytes_def word_bytes_byteswap)

lemma mem_word_swap_unless:
  assumes "8 dvd LENGTH('a)" and "length bs = LENGTH('a) div 8"
  shows "(if e = h then mem_word h bs else byteswap (mem_word h bs)) = (mem_word e bs :: 'a::len word)"
  using assms by (cases e; cases h) (simp_all add: mem_word_def byteswap_def word_bytes_word)

lemma mem_bytes_byteswapOnLittleEndian:
  "8 dvd LENGTH('a) \<Longrightarrow>
    mem_bytes h (byteswapOnLittleEndian h (w :: 'a::len word)) = mem_bytes SYLAR_BIG_ENDIAN w"
  by (cases h) (simp_all add: byteswapOnLittleEndian_def mem_bytes_def word_bytes_byteswap)

lemma byteswapOnLittleEndian_twice:
  "8 dvd LENGTH('a) \<Longrightarrow>
    byteswapOnLittleEndian h (byteswapOnLittleEndian h w) = (w :: 'a::len word)"
  by (cases h) (simp_all add: byteswapOnLittleEndian_def byteswap_byteswap)

lemmas byteswapOnLittleEndian_bitwise =
  byteswap_or byteswap_and byteswap_not

end
