(* ===== verification/ByteArray.thy ===== *)
theory ByteArray
  imports Endian
begin

text \<open>
  \<^verbatim>\<open>ByteArray\<close> of \<^verbatim>\<open>src/src/socket/bytearray.{h,cpp}\<close>: a growing byte buffer kept as a chain of equally
  sized nodes with one cursor. The chain from \<^verbatim>\<open>m_root\<close> along \<^verbatim>\<open>next\<close> is the list \<open>m_nodes\<close>, a
  node is its \<^verbatim>\<open>data\<close> array (whose length is its \<^verbatim>\<open>size\<close>), and the pointer \<^verbatim>\<open>m_cur\<close> is the index
  of a node of the chain or \<open>None\<close> for the null pointer. Exceptions and undefined steps (a
  null pointer dereferenced, a copy outside a node, a division by zero) are values of
  \<open>ba_error\<close>.

  What the platform decides is in \<open>platform\<close>: the byte order, the indeterminate bytes a fresh
  \<^verbatim>\<open>new char[s]\<close> holds (by number of the node in the chain and offset), and the largest length a
  \<^verbatim>\<open>std::string\<close> can be resized to. Allocation itself is taken to succeed. The number of nodes to
  add is the exact quotient rounded up, which the double arithmetic of the code computes for
  sizes up to \<open>2 ^ 53\<close> bytes.
\<close>

section \<open>State\<close>

datatype ba_error =
    Out_of_range      \<comment> \<open>\<^verbatim>\<open>std::out_of_range\<close>\<close>
  | Length_error      \<comment> \<open>\<^verbatim>\<open>std::length_error\<close> of \<^verbatim>\<open>std::string::resize\<close>\<close>
  | Bad_deref         \<comment> \<open>a null \<^verbatim>\<open>Node*\<close> is dereferenced\<close>
  | Bad_memcpy        \<comment> \<open>\<^verbatim>\<open>memcpy\<close> leaves the \<^verbatim>\<open>data\<close> array of a node\<close>
  | Div_by_zero       \<comment> \<open>\<^verbatim>\<open>% m_baseSize\<close> with a base size of 0\<close>
  | Bad_count         \<comment> \<open>a negative count handed to a file stream\<close>

type_synonym node = "u8 list"

record platform =
  host_order :: endian
  fresh_byte :: "nat \<Rightarrow> nat \<Rightarrow> u8"
  string_max :: nat

record bytearray =
  m_baseSize :: nat
  m_position :: nat
  m_capacity :: nat
  m_size :: nat
  m_endian :: endian
  m_nodes :: "node list"
  m_cur :: "nat option"

text \<open>\<^verbatim>\<open>ByteArray::Node::Node(size_t s)\<close>, as the \<open>k\<close>-th node of the chain.\<close>

definition Node :: "platform \<Rightarrow> nat \<Rightarrow> nat \<Rightarrow> node" where
  "Node pf k s = map (fresh_byte pf k) [0..<s]"

definition ByteArray :: "platform \<Rightarrow> nat \<Rightarrow> bytearray" where
  "ByteArray pf base_size =
     \<lparr>m_baseSize = base_size, m_position = 0, m_capacity = base_size, m_size = 0,
      m_endian = SYLAR_BIG_ENDIAN, m_nodes = [Node pf 0 base_size], m_cur = Some 0\<rparr>"

definition getReadSize :: "bytearray \<Rightarrow> nat" where
  "getReadSize ba = usub (m_size ba) (m_position ba)"

definition getCapacity :: "bytearray \<Rightarrow> nat" where
  "getCapacity ba = usub (m_capacity ba) (m_size ba)"

text \<open>Following a pointer: the node \<open>m_cur\<close> points to, and its \<^verbatim>\<open>next\<close>.\<close>

definition deref :: "node list \<Rightarrow> nat option \<Rightarrow> ba_error + nat" where
  "deref ns c = (case c of None \<Rightarrow> Inl Bad_deref
                 | Some i \<Rightarrow> if i < length ns then Inr i else Inl Bad_deref)"

definition next_node :: "node list \<Rightarrow> nat \<Rightarrow> nat option" where
  "next_node ns i = (if Suc i < length ns then Some (Suc i) else None)"

definition cur_size :: "bytearray \<Rightarrow> ba_error + nat" where
  "cur_size ba = rbind (deref (m_nodes ba) (m_cur ba)) (\<lambda>i. Inr (length (m_nodes ba ! i)))"

section \<open>Growing\<close>

text \<open>The \<^verbatim>\<open>for\<close> loop of \<^verbatim>\<open>addCapacity\<close>: \<open>num\<close> fresh nodes after the tail.\<close>

primrec add_nodes :: "platform \<Rightarrow> nat \<Rightarrow> bytearray \<Rightarrow> bytearray" where
  "add_nodes pf 0 ba = ba"
| "add_nodes pf (Suc num) ba =
     add_nodes pf num
       (ba\<lparr>m_nodes := m_nodes ba @ [Node pf (length (m_nodes ba)) (m_baseSize ba)],
           m_capacity := m_capacity ba + m_baseSize ba\<rparr>)"

definition addCapacity :: "platform \<Rightarrow> nat \<Rightarrow> bytearray \<Rightarrow> ba_error + bytearray" where
  "addCapacity pf sz ba =
     (if sz = 0 then Inr ba
      else let cap = getCapacity ba in
        if sz \<le> cap then Inr ba
        else if m_baseSize ba = 0 then Inl Div_by_zero
        else let num = (sz - cap + m_baseSize ba - 1) div m_baseSize ba;
                 first = (if num = 0 then None else Some (length (m_nodes ba)));
                 ba' = add_nodes pf num ba
             in Inr (if cap = 0 then ba'\<lparr>m_cur := first\<rparr> else ba'))"

section \<open>Writing\<close>

text \<open>\<^verbatim>\<open>memcpy(m_cur->data + npos, buf, n)\<close> and \<^verbatim>\<open>memcpy(buf, m_cur->data + npos, n)\<close>.\<close>

definition memcpy_to :: "nat \<Rightarrow> nat \<Rightarrow> u8 list \<Rightarrow> node list \<Rightarrow> ba_error + node list" where
  "memcpy_to i npos bs ns =
     (if npos + length bs \<le> length (ns ! i)
      then Inr (ns[i := overwrite npos bs (ns ! i)]) else Inl Bad_memcpy)"

definition memcpy_from :: "nat \<Rightarrow> nat \<Rightarrow> nat \<Rightarrow> node list \<Rightarrow> ba_error + u8 list" where
  "memcpy_from i npos n ns =
     (if npos + n \<le> length (ns ! i) then Inr (take n (drop npos (ns ! i))) else Inl Bad_memcpy)"

text \<open>
  The \<^verbatim>\<open>while(size > 0)\<close> loop of \<^verbatim>\<open>write\<close>: \<open>bs\<close> is what is left of the source buffer, so its
  length is \<^verbatim>\<open>size\<close> and \<^verbatim>\<open>bpos\<close> is the number of bytes already dropped from it. Every iteration
  but the last moves the cursor one node along the chain.
\<close>

function write_loop :: "nat \<Rightarrow> nat \<Rightarrow> u8 list \<Rightarrow> bytearray \<Rightarrow> ba_error + bytearray" where
  "write_loop npos ncap bs ba =
     (if bs = [] then Inr ba
      else case deref (m_nodes ba) (m_cur ba) of Inl e \<Rightarrow> Inl e | Inr i \<Rightarrow>
        if length bs \<le> ncap then
          rbind (memcpy_to i npos bs (m_nodes ba)) (\<lambda>ns.
          Inr (ba\<lparr>m_nodes := ns,
                  m_cur := (if ncap - length bs = 0 then next_node ns i else m_cur ba),
                  m_position := m_position ba + length bs\<rparr>))
        else
          case memcpy_to i npos (take ncap bs) (m_nodes ba) of Inl e \<Rightarrow> Inl e | Inr ns \<Rightarrow>
          case next_node ns i of None \<Rightarrow> Inl Bad_deref | Some j \<Rightarrow>
            write_loop 0 (length (ns ! j)) (drop ncap bs)
              (ba\<lparr>m_nodes := ns, m_cur := Some j, m_position := m_position ba + ncap\<rparr>))"
  by pat_completeness auto
termination
  by (relation "measure (\<lambda>(npos, ncap, bs, ba).
        case m_cur ba of None \<Rightarrow> 0 | Some i \<Rightarrow> length (m_nodes ba) - i)")
     (auto simp: deref_def next_node_def memcpy_to_def split: option.splits if_splits)

declare write_loop.simps [simp del]

definition write_buf :: "platform \<Rightarrow> u8 list \<Rightarrow> bytearray \<Rightarrow> ba_error + bytearray" where
  "write_buf pf bs ba =
     (if bs = [] then Inr ba
      else rbind (addCapacity pf (length bs) ba) (\<lambda>ba1.
        if m_baseSize ba1 = 0 then Inl Div_by_zero
        else rbind (cur_size ba1) (\<lambda>sz.
          let npos = m_position ba1 mod m_baseSize ba1;
              ncap = usub sz npos
          in rbind (write_loop npos ncap bs ba1) (\<lambda>ba2.
             Inr (if m_size ba2 < m_position ba2 then ba2\<lparr>m_size := m_position ba2\<rparr> else ba2)))))"

section \<open>Reading\<close>

text \<open>
  The copy loop of both \<^verbatim>\<open>read\<close> overloads: it returns the bytes in order and the buffer with the
  moved cursor and position. The second overload runs it on a local cursor and position.
\<close>

function read_loop ::
  "nat \<Rightarrow> nat \<Rightarrow> nat \<Rightarrow> bytearray \<Rightarrow> ba_error + u8 list \<times> bytearray" where
  "read_loop npos ncap sz ba =
     (if sz = 0 then Inr ([], ba)
      else case deref (m_nodes ba) (m_cur ba) of Inl e \<Rightarrow> Inl e | Inr i \<Rightarrow>
        if sz \<le> ncap then
          rbind (memcpy_from i npos sz (m_nodes ba)) (\<lambda>bs.
          Inr (bs, ba\<lparr>m_cur := (if sz = ncap then next_node (m_nodes ba) i else m_cur ba),
                      m_position := m_position ba + sz\<rparr>))
        else
          case memcpy_from i npos ncap (m_nodes ba) of Inl e \<Rightarrow> Inl e | Inr bs \<Rightarrow>
          case next_node (m_nodes ba) i of None \<Rightarrow> Inl Bad_deref | Some j \<Rightarrow>
            rbind (read_loop 0 (length (m_nodes ba ! j)) (sz - ncap)
                     (ba\<lparr>m_cur := Some j, m_position := m_position ba + ncap\<rparr>))
              (\<lambda>(bs', ba'). Inr (bs @ bs', ba')))"
  by pat_completeness auto
termination
  by (relation "measure (\<lambda>(npos, ncap, sz, ba).
        case m_cur ba of None \<Rightarrow> 0 | Some i \<Rightarrow> length (m_nodes ba) - i)")
     (auto simp: deref_def next_node_def split: option.splits if_splits)

declare read_loop.simps [simp del]

definition read_buf :: "nat \<Rightarrow> bytearray \<Rightarrow> ba_error + u8 list \<times> bytearray" where
  "read_buf sz ba =
     (if getReadSize ba < sz then Inl Out_of_range
      else if m_baseSize ba = 0 then Inl Div_by_zero
      else rbind (cur_size ba) (\<lambda>csz.
        let npos = m_position ba mod m_baseSize ba;
            ncap = usub csz npos
        in read_loop npos ncap sz ba))"

text \<open>\<^verbatim>\<open>read(void* buf, size_t size, size_t st) const\<close> starts from \<^verbatim>\<open>m_cur\<close>, whatever \<^verbatim>\<open>st\<close> is.\<close>

definition read_at :: "nat \<Rightarrow> nat \<Rightarrow> bytearray \<Rightarrow> ba_error + u8 list" where
  "read_at sz st ba =
     (if usub (m_size ba) st < sz then Inl Out_of_range
      else if m_baseSize ba = 0 then Inl Div_by_zero
      else rbind (cur_size ba) (\<lambda>csz.
        let npos = st mod m_baseSize ba;
            ncap = usub csz npos
        in rbind (read_loop npos ncap sz (ba\<lparr>m_position := st\<rparr>)) (\<lambda>(bs, _). Inr bs)))"

section \<open>Seeking and clearing\<close>

text \<open>The \<^verbatim>\<open>while(v >= m_cur->size)\<close> walk from the root.\<close>

fun seek_walk :: "nat \<Rightarrow> node list \<Rightarrow> nat \<Rightarrow> ba_error + nat" where
  "seek_walk i [] v = Inl Bad_deref"
| "seek_walk i (n # ns) v =
     (if length n \<le> v then seek_walk (Suc i) ns (v - length n) else Inr i)"

definition setPosition :: "nat \<Rightarrow> bytearray \<Rightarrow> ba_error + bytearray" where
  "setPosition v ba =
     (if m_capacity ba < v then Inl Out_of_range
      else let ba1 = ba\<lparr>m_position := v\<rparr>;
               ba2 = (if m_size ba1 < m_position ba1 then ba1\<lparr>m_size := m_position ba1\<rparr> else ba1)
           in rbind (seek_walk 0 (m_nodes ba2) v) (\<lambda>i. Inr (ba2\<lparr>m_cur := Some i\<rparr>)))"

definition clear :: "bytearray \<Rightarrow> bytearray" where
  "clear ba = ba\<lparr>m_position := 0, m_size := 0, m_capacity := m_baseSize ba,
                 m_nodes := take 1 (m_nodes ba), m_cur := Some 0\<rparr>"

definition isLittleEndian :: "bytearray \<Rightarrow> bool" where
  "isLittleEndian ba \<longleftrightarrow> m_endian ba = SYLAR_LITTLE_ENDIAN"

definition setEndian :: "bool \<Rightarrow> bytearray \<Rightarrow> bytearray" where
  "setEndian flag ba =
     (if flag then ba\<lparr>m_endian := SYLAR_LITTLE_ENDIAN\<rparr> else ba\<lparr>m_endian := SYLAR_BIG_ENDIAN\<rparr>)"

definition toString :: "bytearray \<Rightarrow> ba_error + u8 list" where
  "toString ba =
     (if getReadSize ba = 0 then Inr [] else read_at (getReadSize ba) (m_position ba) ba)"

end
