(* ===== verification/Byte_Stream.thy ===== *)
theory Byte_Stream
  imports Prelude
begin

text \<open>
  The interface the typed accessors of \<^verbatim>\<open>ByteArray\<close> are clients of: a byte sequence with a position,
  a \<open>put\<close> that overwrites at the position, a \<open>get\<close> that advances it, and a \<open>seek\<close>. A state may be
  unable to \<open>put\<close> (\<open>can_put\<close>); every \<open>put\<close> leaves a state that can be put to again.
\<close>

locale byte_stream =
  fixes put :: "u8 list \<Rightarrow> 's \<Rightarrow> 'e + 's"
    and get :: "nat \<Rightarrow> 's \<Rightarrow> 'e + u8 list \<times> 's"
    and seek :: "nat \<Rightarrow> 's \<Rightarrow> 'e + 's"
    and bytes :: "'s \<Rightarrow> u8 list"
    and pos :: "'s \<Rightarrow> nat"
    and inv :: "'s \<Rightarrow> bool"
    and can_put :: "'s \<Rightarrow> bool"
    and eof :: 'e
  assumes pos_le: "inv s \<Longrightarrow> pos s \<le> length (bytes s)"
    and put_spec: "inv s \<Longrightarrow> can_put s \<Longrightarrow>
      \<exists>s'. put bs s = Inr s' \<and> inv s' \<and> can_put s' \<and>
           bytes s' = overwrite (pos s) bs (bytes s) \<and> pos s' = pos s + length bs"
    and get_spec: "inv s \<Longrightarrow> 0 < n \<Longrightarrow> pos s + n \<le> length (bytes s) \<Longrightarrow>
      \<exists>s'. get n s = Inr (take n (drop (pos s) (bytes s)), s') \<and> inv s' \<and>
           bytes s' = bytes s \<and> pos s' = pos s + n"
    and get_eof: "inv s \<Longrightarrow> length (bytes s) < pos s + n \<Longrightarrow> get n s = Inl eof"
    and seek_spec: "inv s \<Longrightarrow> p < length (bytes s) \<Longrightarrow>
      \<exists>s'. seek p s = Inr s' \<and> inv s' \<and> bytes s' = bytes s \<and> pos s' = p"
begin

text \<open>Reading in terms of the unread bytes, \<open>drop (pos s) (bytes s)\<close>.\<close>

lemma get_prefix:
  assumes "inv s" and "drop (pos s) (bytes s) = bs @ rest" and "bs \<noteq> []"
  obtains s' where "get (length bs) s = Inr (bs, s')" and "inv s'" and "bytes s' = bytes s"
    and "pos s' = pos s + length bs" and "drop (pos s') (bytes s') = rest"
proof -
  have "length (drop (pos s) (bytes s)) = length bs + length rest"
    using assms(2) by simp
  then have "pos s + length bs \<le> length (bytes s)" and "0 < length bs"
    using pos_le [OF assms(1)] assms(3) by simp_all
  then obtain s' where s': "get (length bs) s = Inr (take (length bs) (drop (pos s) (bytes s)), s')"
      "inv s'" "bytes s' = bytes s" "pos s' = pos s + length bs"
    using get_spec [OF assms(1)] by blast
  have "drop (pos s') (bytes s') = drop (length bs) (drop (pos s) (bytes s))"
    using s'(3,4) by (simp add: add.commute)
  then have "drop (pos s') (bytes s') = rest"
    using assms(2) by simp
  then show thesis
    using s' assms(2) by (intro that [of s']) simp_all
qed

lemma get_short:
  "inv s \<Longrightarrow> length (drop (pos s) (bytes s)) < n \<Longrightarrow> get n s = Inl eof"
  by (rule get_eof) auto

text \<open>What was put is the unread sequence after seeking back, in front of what it did not cover.\<close>

lemma put_seek:
  assumes "inv s" and "can_put s" and "put bs s = Inr s1" and "seek (pos s) s1 = Inr s2"
    and "bs \<noteq> []"
  shows "inv s2 \<and> pos s2 = pos s \<and>
    drop (pos s2) (bytes s2) = bs @ drop (pos s + length bs) (bytes s)"
proof -
  have s1: "inv s1" "bytes s1 = overwrite (pos s) bs (bytes s)"
    using put_spec [OF assms(1,2), of bs] assms(3) by auto
  have "pos s < length (bytes s1)"
    using assms(5) pos_le [OF assms(1)] by (simp add: s1(2) overwrite_def)
  then have "inv s2" "bytes s2 = bytes s1" "pos s2 = pos s"
    using seek_spec [OF s1(1), of "pos s"] assms(4) by auto
  then show ?thesis
    using s1(2) pos_le [OF assms(1)] by (simp add: overwrite_def)
qed

text \<open>Two puts in a row are one put of the concatenation.\<close>

lemma put_put:
  assumes "inv s" and "can_put s"
  obtains s1 s2 where "put as s = Inr s1" and "put bs s1 = Inr s2" and "inv s2" and "can_put s2"
    and "bytes s2 = overwrite (pos s) (as @ bs) (bytes s)"
    and "pos s2 = pos s + length (as @ bs)"
proof -
  obtain s1 where s1: "put as s = Inr s1" "inv s1" "can_put s1"
      "bytes s1 = overwrite (pos s) as (bytes s)" "pos s1 = pos s + length as"
    using put_spec [OF assms, of as] by blast
  obtain s2 where s2: "put bs s1 = Inr s2" "inv s2" "can_put s2"
      "bytes s2 = overwrite (pos s1) bs (bytes s1)" "pos s2 = pos s1 + length bs"
    using put_spec [OF s1(2,3), of bs] by blast
  have "bytes s2 = overwrite (pos s) (as @ bs) (bytes s)"
    using s1(4,5) s2(4) pos_le [OF assms(1)]
    by (simp add: overwrite_def add.commute add.left_commute)
  then show thesis
    using s1 s2 by (intro that [of s1 s2]) simp_all
qed

end

end
