(* ===== verification/ByteArray_Refine.thy ===== *)
theory ByteArray_Refine
  imports ByteArray Byte_Stream
begin

text \<open>
  What \<^verbatim>\<open>ByteArray\<close> promises: a byte sequence with a position, as an ordinary file has. \<open>wf_ba\<close>
  is the shape of the chain every operation relies on, \<open>abs_ba\<close> the abstract value (the bytes
  below \<^verbatim>\<open>m_size\<close> and the position), and the lemmas show that the copy loops, growing, writing,
  reading and seeking act on the flattened chain as the abstract operations act on the
  sequence, and where the code departs from them.
\<close>

section \<open>Well-formed buffers and their contents\<close>

definition cursor_at :: "nat \<Rightarrow> nat \<Rightarrow> nat \<Rightarrow> nat option" where
  "cursor_at b k p = (if p div b < k then Some (p div b) else None)"

definition wf_ba :: "bytearray \<Rightarrow> bool" where
  "wf_ba ba \<longleftrightarrow> 0 < m_baseSize ba \<and> blocks_of (m_baseSize ba) (m_nodes ba) \<and> m_nodes ba \<noteq> [] \<and>
     m_capacity ba = length (m_nodes ba) * m_baseSize ba \<and>
     m_position ba \<le> m_size ba \<and> m_size ba \<le> m_capacity ba \<and>
     m_cur ba = cursor_at (m_baseSize ba) (length (m_nodes ba)) (m_position ba)"

definition flat :: "bytearray \<Rightarrow> u8 list" where
  "flat ba = concat (m_nodes ba)"

definition contents :: "bytearray \<Rightarrow> u8 list" where
  "contents ba = take (m_size ba) (flat ba)"

definition abs_ba :: "bytearray \<Rightarrow> u8 list \<times> nat" where
  "abs_ba ba = (contents ba, m_position ba)"

lemma wf_ba_flat: "wf_ba ba \<Longrightarrow> length (flat ba) = m_capacity ba"
  by (simp add: wf_ba_def flat_def length_concat_blocks)

lemma length_contents: "wf_ba ba \<Longrightarrow> length (contents ba) = m_size ba"
  using wf_ba_flat [of ba] by (simp add: contents_def wf_ba_def)

lemma cursor_at_Some:
  "0 < b \<Longrightarrow> cursor_at b k p = Some i \<longleftrightarrow> i = p div b \<and> p div b < k"
  by (auto simp: cursor_at_def)

lemma cursor_at_block: "n < b \<Longrightarrow> i < k \<Longrightarrow> cursor_at b k (i * b + n) = Some i"
  by (simp add: cursor_at_def)

lemma cursor_at_end: "0 < b \<Longrightarrow> cursor_at b k (k * b) = None"
  by (simp add: cursor_at_def)

lemma cursor_at_inside: "0 < b \<Longrightarrow> p < k * b \<Longrightarrow> cursor_at b k p = Some (p div b)"
  by (simp add: cursor_at_def less_mult_imp_div_less)

lemma next_node_cursor: "0 < b \<Longrightarrow> next_node ns i = cursor_at b (length ns) (Suc i * b)"
  by (simp add: next_node_def cursor_at_def)

lemma wf_ba_new: "0 < base \<Longrightarrow> wf_ba (ByteArray pf base)"
  by (simp add: wf_ba_def ByteArray_def Node_def cursor_at_def)

lemma abs_ba_new: "abs_ba (ByteArray pf base) = ([], 0)"
  by (simp add: abs_ba_def contents_def ByteArray_def)

text \<open>After a copy inside node \<open>i\<close> the cursor moves on exactly when the node is used up.\<close>

lemma cursor_step:
  assumes "npos < b" and "i < length ns" and "npos + n \<le> b"
  shows "(if b - npos \<le> n then next_node ns i else Some i) = cursor_at b (length ns) (i * b + npos + n)"
proof (cases "npos + n = b")
  case True
  then have "i * b + npos + n = Suc i * b" by simp
  then show ?thesis
    using assms True next_node_cursor [of b ns i] by (auto simp: ac_simps)
next
  case False
  then have "npos + n < b" and "\<not> b - npos \<le> n"
    using assms by auto
  then show ?thesis
    using assms cursor_at_block [of "npos + n" b i "length ns"] by (simp add: add.assoc)
qed

section \<open>The copy loops\<close>

lemma deref_Some: "i < length ns \<Longrightarrow> deref ns (Some i) = Inr i"
  by (simp add: deref_def)

lemma m_cur_same: "m_cur ba = c \<Longrightarrow> ba\<lparr>m_cur := c\<rparr> = ba"
  by (cases ba) simp

text \<open>A cursor inside the chain that has to go past its own node has a next node.\<close>

lemma next_block:
  fixes b :: nat
  assumes "i * b + npos + n \<le> k * b" and "b - npos < n" and "npos < b"
  shows "Suc i < k"
proof -
  have "Suc i * b < k * b"
    using assms by simp
  then show ?thesis
    using mult_less_cancel2 by blast
qed

lemma write_loop_flat:
  assumes "blocks_of b (m_nodes ba)" and "m_cur ba = Some i" and "i < length (m_nodes ba)"
    and "npos < b" and "ncap = b - npos"
    and "i * b + npos + length bs \<le> length (m_nodes ba) * b"
  shows "\<exists>ns. write_loop npos ncap bs ba =
           Inr (ba\<lparr>m_nodes := ns, m_cur := cursor_at b (length ns) (i * b + npos + length bs),
                   m_position := m_position ba + length bs\<rparr>) \<and>
         blocks_of b ns \<and> length ns = length (m_nodes ba) \<and>
         concat ns = overwrite (i * b + npos) bs (concat (m_nodes ba))"
  using assms
proof (induction npos ncap bs ba arbitrary: i rule: write_loop.induct)
  case (1 npos ncap bs ba)
  let ?ns = "m_nodes ba"
  have blk: "length (?ns ! i) = b"
    using "1.prems"(1,3) by (rule blocks_of_nth)
  note unfold = write_loop.simps [of npos ncap bs ba]
  show ?case
  proof (cases "bs = []")
    case True
    then show ?thesis
      using "1.prems"
      by (auto simp: write_loop.simps cursor_at_block m_cur_same intro!: exI [of _ ?ns])
  next
    case nonempty: False
    show ?thesis
    proof (cases "length bs \<le> ncap")
      case True
      let ?ns' = "?ns[i := overwrite npos bs (?ns ! i)]"
      have fits: "npos + length bs \<le> b"
        using True "1.prems"(4,5) by simp
      have cur: "(if ncap - length bs = 0 then next_node ?ns' i else Some i) =
          cursor_at b (length ?ns) (i * b + npos + length bs)"
      proof -
        have "ncap - length bs = 0 \<longleftrightarrow> b - npos \<le> length bs"
          using "1.prems"(5) by auto
        then show ?thesis
          using cursor_step [of npos b i ?ns' "length bs"] "1.prems"(3,4) fits by simp
      qed
      have "write_loop npos ncap bs ba =
          Inr (ba\<lparr>m_nodes := ?ns', m_cur := cursor_at b (length ?ns') (i * b + npos + length bs),
                  m_position := m_position ba + length bs\<rparr>)"
        using nonempty True fits blk cur "1.prems"(2,3)
        by (simp add: unfold deref_Some memcpy_to_def split: if_splits)
      moreover have "blocks_of b ?ns'"
        using "1.prems"(1) fits blk by (simp add: blocks_of_update)
      moreover have "concat ?ns' = overwrite (i * b + npos) bs (concat ?ns)"
        using "1.prems"(1,3) fits by (rule overwrite_concat_block)
      ultimately show ?thesis by (intro exI [of _ ?ns']) simp
    next
      case False
      let ?bs1 = "take ncap bs" and ?bs2 = "drop ncap bs"
      let ?ns' = "?ns[i := overwrite npos ?bs1 (?ns ! i)]"
      let ?ba' = "ba\<lparr>m_nodes := ?ns', m_cur := Some (Suc i), m_position := m_position ba + ncap\<rparr>"
      have len1: "length ?bs1 = ncap" and fits: "npos + ncap = b"
        using False "1.prems"(4,5) by auto
      have i': "Suc i < length ?ns"
        using "1.prems"(6,4,5) False by (intro next_block [of i b npos "length bs"]) auto
      have blks': "blocks_of b ?ns'"
        using "1.prems"(1) fits blk len1 by (simp add: blocks_of_update)
      have flat': "concat ?ns' = overwrite (i * b + npos) ?bs1 (concat ?ns)"
        using "1.prems"(1,3) fits len1 by (intro overwrite_concat_block) auto
      have step: "write_loop npos ncap bs ba = write_loop 0 (length (?ns' ! Suc i)) ?bs2 ?ba'"
        using nonempty False fits blk len1 "1.prems"(2,3) i'
        by (simp add: unfold deref_Some memcpy_to_def next_node_def)
      have "\<exists>ns. write_loop 0 (length (?ns' ! Suc i)) ?bs2 ?ba' =
           Inr (?ba'\<lparr>m_nodes := ns, m_cur := cursor_at b (length ns) (Suc i * b + 0 + length ?bs2),
                   m_position := m_position ?ba' + length ?bs2\<rparr>) \<and>
         blocks_of b ns \<and> length ns = length (m_nodes ?ba') \<and>
         concat ns = overwrite (Suc i * b + 0) ?bs2 (concat (m_nodes ?ba'))"
      proof (rule "1.IH" [of i ?ns' "Suc i"])
        show "memcpy_to i npos ?bs1 ?ns = Inr ?ns'"
          using fits blk len1 by (simp add: memcpy_to_def)
        show "Suc i * b + 0 + length ?bs2 \<le> length (m_nodes ?ba') * b"
          using "1.prems"(6) fits False by simp
      qed (use nonempty False "1.prems" i' blks' in \<open>auto simp: deref_Some next_node_def blocks_of_nth\<close>)
      then obtain ns where ns:
        "write_loop npos ncap bs ba =
           Inr (ba\<lparr>m_nodes := ns, m_cur := cursor_at b (length ns) (i * b + npos + length bs),
                   m_position := m_position ba + length bs\<rparr>)"
        "blocks_of b ns" "length ns = length ?ns"
        "concat ns = overwrite (Suc i * b) ?bs2 (concat ?ns')"
        using step False fits by (auto simp: add.commute add.left_commute)
      have "Suc i * b = i * b + npos + length ?bs1"
        using len1 fits by simp
      then have "concat ns = overwrite (i * b + npos + length ?bs1) ?bs2
              (overwrite (i * b + npos) ?bs1 (concat ?ns))"
        using ns(4) flat' by (simp only:)
      also have "\<dots> = overwrite (i * b + npos) (?bs1 @ ?bs2) (concat ?ns)"
        using "1.prems"(6) "1.prems"(1) len1 False
        by (intro overwrite_overwrite_adjacent) (simp add: length_concat_blocks)
      finally have "concat ns = overwrite (i * b + npos) bs (concat ?ns)"
        by simp
      then show ?thesis
        using ns(1-3) by (intro exI [of _ ns]) simp
    qed
  qed
qed

lemma read_loop_flat:
  assumes "blocks_of b (m_nodes ba)" and "m_cur ba = Some i" and "i < length (m_nodes ba)"
    and "npos < b" and "ncap = b - npos"
    and "i * b + npos + sz \<le> length (m_nodes ba) * b"
  shows "read_loop npos ncap sz ba =
           Inr (take sz (drop (i * b + npos) (concat (m_nodes ba))),
                ba\<lparr>m_cur := cursor_at b (length (m_nodes ba)) (i * b + npos + sz),
                   m_position := m_position ba + sz\<rparr>)"
  using assms
proof (induction npos ncap sz ba arbitrary: i rule: read_loop.induct)
  case (1 npos ncap sz ba)
  let ?ns = "m_nodes ba"
  have blk: "length (?ns ! i) = b"
    using "1.prems"(1,3) by (rule blocks_of_nth)
  have rest: "drop (i * b + npos) (concat ?ns) = drop npos (?ns ! i) @ concat (drop (Suc i) ?ns)"
    using "1.prems"(1,3,4) by (intro drop_concat_in_block) auto
  note unfold = read_loop.simps [of npos ncap sz ba]
  show ?case
  proof (cases "sz = 0")
    case True
    then show ?thesis
      using "1.prems" by (simp add: read_loop.simps cursor_at_block m_cur_same)
  next
    case nonzero: False
    show ?thesis
    proof (cases "sz \<le> ncap")
      case True
      then have fits: "npos + sz \<le> b" using "1.prems"(4,5) by simp
      have cur: "(if sz = ncap then next_node ?ns i else Some i) =
          cursor_at b (length ?ns) (i * b + npos + sz)"
      proof -
        have "sz = ncap \<longleftrightarrow> b - npos \<le> sz"
          using "1.prems"(5) True by auto
        then show ?thesis
          using cursor_step [of npos b i ?ns sz] "1.prems"(3,4) fits by simp
      qed
      show ?thesis
        using nonzero True fits blk cur "1.prems"(2,3) rest
        by (simp add: unfold deref_Some memcpy_from_def split: if_splits)
    next
      case False
      have fits: "npos + ncap = b" using "1.prems"(4,5) by simp
      have i': "Suc i < length ?ns"
        using "1.prems"(6,4,5) False by (intro next_block [of i b npos sz]) auto
      let ?ba' = "ba\<lparr>m_cur := Some (Suc i), m_position := m_position ba + ncap\<rparr>"
      have IH: "read_loop 0 (length (?ns ! Suc i)) (sz - ncap) ?ba' =
           Inr (take (sz - ncap) (drop (Suc i * b + 0) (concat (m_nodes ?ba'))),
                ?ba'\<lparr>m_cur := cursor_at b (length (m_nodes ?ba')) (Suc i * b + 0 + (sz - ncap)),
                   m_position := m_position ?ba' + (sz - ncap)\<rparr>)"
      proof (rule "1.IH" [of i "take ncap (drop npos (?ns ! i))" "Suc i"])
        show "memcpy_from i npos ncap ?ns = Inr (take ncap (drop npos (?ns ! i)))"
          using fits blk by (simp add: memcpy_from_def)
        show "Suc i * b + 0 + (sz - ncap) \<le> length (m_nodes ?ba') * b"
          using "1.prems"(6) fits False by simp
      qed (use nonzero False "1.prems" i' in \<open>auto simp: deref_Some next_node_def blocks_of_nth\<close>)
      have pos: "Suc i * b + 0 + (sz - ncap) = i * b + npos + sz"
        using fits False by simp
      have split: "take sz (drop (i * b + npos) (concat ?ns)) =
          drop npos (?ns ! i) @ take (sz - ncap) (drop (Suc i * b + 0) (concat ?ns))"
      proof -
        have "b - npos = ncap" using fits by simp
        then show ?thesis
          using False blk drop_concat_blocks [OF "1.prems"(1), of "Suc i"] rest by simp
      qed
      show ?thesis
        using nonzero False fits blk "1.prems"(2,3) i' IH [unfolded pos]
        by (simp add: unfold split deref_Some memcpy_from_def next_node_def del: mult_Suc)
    qed
  qed
qed

section \<open>Growing\<close>

definition fresh_nodes :: "platform \<Rightarrow> nat \<Rightarrow> nat \<Rightarrow> nat \<Rightarrow> node list" where
  "fresh_nodes pf k0 b k = map (\<lambda>j. Node pf (k0 + j) b) [0..<k]"

lemma fresh_nodes_simps [simp]:
  "length (fresh_nodes pf k0 b k) = k"
  "blocks_of b (fresh_nodes pf k0 b k)"
  by (simp_all add: fresh_nodes_def blocks_of_def Node_def)

lemma fresh_nodes_Suc: "fresh_nodes pf k0 b (Suc k) = Node pf k0 b # fresh_nodes pf (Suc k0) b k"
  by (simp add: fresh_nodes_def upt_conv_Cons map_Suc_upt [symmetric] del: upt_Suc)

lemma add_nodes_eq:
  "add_nodes pf k ba =
     ba\<lparr>m_nodes := m_nodes ba @ fresh_nodes pf (length (m_nodes ba)) (m_baseSize ba) k,
        m_capacity := m_capacity ba + k * m_baseSize ba\<rparr>"
proof (induction k arbitrary: ba)
  case 0
  then show ?case by (simp add: fresh_nodes_def)
next
  case (Suc k)
  then show ?case by (simp add: fresh_nodes_Suc add.assoc)
qed

text \<open>The number of nodes added is enough for the request, and at least one.\<close>

lemma ceil_div_enough:
  fixes b n :: nat
  assumes "0 < b" and "0 < n"
  shows "n \<le> (n + b - 1) div b * b" and "0 < (n + b - 1) div b"
proof -
  have "n + b - 1 = (n + b - 1) div b * b + (n + b - 1) mod b"
    by simp
  moreover have "(n + b - 1) mod b < b"
    using assms by simp
  ultimately show "n \<le> (n + b - 1) div b * b"
    using assms by linarith
  show "0 < (n + b - 1) div b"
    using assms by (simp add: div_greater_zero_iff)
qed

text \<open>
  \<^verbatim>\<open>write\<close> and \<^verbatim>\<open>getWriteBuffers\<close> keep the cursor in step with the position when the buffer has
  free bytes or the position is at the end of the data; the remaining case, a full buffer
  rewound before its end, is the one the code gets wrong.
\<close>

definition ready :: "bytearray \<Rightarrow> bool" where
  "ready ba \<longleftrightarrow> m_size ba < m_capacity ba \<or> m_position ba = m_size ba"

lemma addCapacity_ready:
  assumes wf: "wf_ba ba" and rdy: "ready ba" and n: "0 < n"
  shows "\<exists>xs. addCapacity pf n ba =
           Inr (ba\<lparr>m_nodes := m_nodes ba @ xs, m_cur := Some (m_position ba div m_baseSize ba),
                   m_capacity := length (m_nodes ba @ xs) * m_baseSize ba\<rparr>) \<and>
         blocks_of (m_baseSize ba) xs \<and>
         m_position ba div m_baseSize ba < length (m_nodes ba @ xs) \<and>
         m_size ba + n \<le> length (m_nodes ba @ xs) * m_baseSize ba"
proof -
  let ?b = "m_baseSize ba" and ?k = "length (m_nodes ba)"
  let ?cap = "m_capacity ba - m_size ba"
  have b: "0 < ?b" and cap: "m_capacity ba = ?k * ?b" and le: "m_size ba \<le> m_capacity ba"
    and pos: "m_position ba \<le> m_size ba"
    and cur: "m_cur ba = cursor_at ?b ?k (m_position ba)"
    using wf by (auto simp: wf_ba_def)
  have free: "getCapacity ba = ?cap"
    using le by (simp add: getCapacity_def)
  show ?thesis
  proof (cases "n \<le> ?cap")
    case True
    then have "m_position ba < ?k * ?b"
      using n pos le cap by simp
    then have "m_position ba div ?b < ?k"
      by (simp add: less_mult_imp_div_less)
    moreover from this have "ba\<lparr>m_cur := Some (m_position ba div ?b), m_capacity := ?k * ?b\<rparr> = ba"
      using cur cap by (cases ba) (simp add: cursor_at_def)
    ultimately show ?thesis
      using True n free le cap by (intro exI [of _ "[]"]) (simp add: addCapacity_def Let_def)
  next
    case False
    define m where "m = (n - ?cap + ?b - 1) div ?b"
    have m: "n - ?cap \<le> m * ?b" "0 < m"
      using ceil_div_enough [OF b, of "n - ?cap"] False by (simp_all add: m_def)
    let ?xs = "fresh_nodes pf ?k ?b m"
    let ?grown = "ba\<lparr>m_nodes := m_nodes ba @ ?xs, m_capacity := (?k + m) * ?b\<rparr>"
    have add: "addCapacity pf n ba =
        Inr (if ?cap = 0 then ?grown\<lparr>m_cur := Some ?k\<rparr> else ?grown)"
      using False n b m(2) cap
      unfolding addCapacity_def Let_def free m_def [symmetric] add_nodes_eq
      by (simp add: add_mult_distrib)
    have full: "?cap = 0 \<Longrightarrow> m_position ba div ?b = ?k"
      using rdy le cap b by (simp add: ready_def)
    have inside: "m_position ba div ?b < ?k" if "?cap \<noteq> 0"
      using pos cap that by (intro less_mult_imp_div_less) simp
    have "addCapacity pf n ba =
        Inr (ba\<lparr>m_nodes := m_nodes ba @ ?xs, m_cur := Some (m_position ba div ?b),
                m_capacity := length (m_nodes ba @ ?xs) * ?b\<rparr>)"
    proof (cases "?cap = 0")
      case True
      then show ?thesis by (simp add: add full)
    next
      case False
      then have "m_cur ba = Some (m_position ba div ?b)"
        using cur inside by (simp add: cursor_at_def)
      then have "?grown = ba\<lparr>m_nodes := m_nodes ba @ ?xs, m_cur := Some (m_position ba div ?b),
                m_capacity := (?k + m) * ?b\<rparr>"
        by (cases ba) simp
      with False show ?thesis by (simp only: add if_False) simp
    qed
    moreover have "m_position ba div ?b < length (m_nodes ba @ ?xs)"
      using full inside m(2) by (cases "?cap = 0") simp_all
    moreover have "m_size ba + n \<le> length (m_nodes ba @ ?xs) * ?b"
      using m(1) cap le False by (simp add: algebra_simps)
    ultimately show ?thesis
      by (intro exI [of _ ?xs]) simp
  qed
qed

section \<open>Writing\<close>

definition spec_write :: "u8 list \<Rightarrow> u8 list \<times> nat \<Rightarrow> u8 list \<times> nat" where
  "spec_write bs = (\<lambda>(d, p). (overwrite p bs d, p + length bs))"

lemma write_buf_ready:
  assumes wf: "wf_ba ba" and rdy: "ready ba"
  shows "\<exists>ba'. write_buf pf bs ba = Inr ba' \<and> wf_ba ba' \<and>
           abs_ba ba' = spec_write bs (abs_ba ba) \<and>
           ready ba' \<and> m_baseSize ba' = m_baseSize ba \<and> m_endian ba' = m_endian ba \<and>
           m_size ba' = max (m_size ba) (m_position ba + length bs)"
proof (cases "bs = []")
  case True
  then show ?thesis
    using wf rdy by (auto simp: write_buf_def spec_write_def abs_ba_def wf_ba_def)
next
  case False
  let ?b = "m_baseSize ba" and ?p = "m_position ba"
  obtain xs where xs: "addCapacity pf (length bs) ba =
           Inr (ba\<lparr>m_nodes := m_nodes ba @ xs, m_cur := Some (?p div ?b),
                   m_capacity := length (m_nodes ba @ xs) * ?b\<rparr>)"
         "blocks_of ?b xs" "?p div ?b < length (m_nodes ba @ xs)"
         "m_size ba + length bs \<le> length (m_nodes ba @ xs) * ?b"
    using addCapacity_ready [OF wf rdy, of "length bs" pf] False by auto
  define ba1 where "ba1 = ba\<lparr>m_nodes := m_nodes ba @ xs, m_cur := Some (?p div ?b),
                   m_capacity := length (m_nodes ba @ xs) * ?b\<rparr>"
  have b: "0 < ?b" and blks: "blocks_of ?b (m_nodes ba1)"
    and ps: "?p \<le> m_size ba" "m_size ba \<le> length (concat (m_nodes ba))"
    using wf xs(2) by (auto simp: wf_ba_def ba1_def length_concat_blocks)
  have pd: "?p div ?b * ?b + ?p mod ?b = ?p"
    by simp
  have fit: "?p + length bs \<le> length (m_nodes ba1) * ?b"
    using ps xs(4) by (simp add: ba1_def)
  have "\<exists>ns. write_loop (?p mod ?b) (?b - ?p mod ?b) bs ba1 =
           Inr (ba1\<lparr>m_nodes := ns,
                   m_cur := cursor_at ?b (length ns) (?p div ?b * ?b + ?p mod ?b + length bs),
                   m_position := m_position ba1 + length bs\<rparr>) \<and>
         blocks_of ?b ns \<and> length ns = length (m_nodes ba1) \<and>
         concat ns = overwrite (?p div ?b * ?b + ?p mod ?b) bs (concat (m_nodes ba1))"
    using b blks xs(3) fit by (intro write_loop_flat) (auto simp: ba1_def)
  then obtain ns where ns: "write_loop (?p mod ?b) (?b - ?p mod ?b) bs ba1 =
           Inr (ba1\<lparr>m_nodes := ns, m_cur := cursor_at ?b (length ns) (?p + length bs),
                   m_position := ?p + length bs\<rparr>)"
         "blocks_of ?b ns" "length ns = length (m_nodes ba1)"
         "concat ns = overwrite ?p bs (concat (m_nodes ba1))"
    unfolding pd by (auto simp: ba1_def)
  let ?sz = "max (m_size ba) (?p + length bs)"
  let ?ba' = "ba1\<lparr>m_nodes := ns, m_cur := cursor_at ?b (length ns) (?p + length bs),
                   m_position := ?p + length bs, m_size := ?sz\<rparr>"
  have "cur_size ba1 = Inr ?b"
    using blks xs(3) by (simp add: cur_size_def deref_def ba1_def blocks_of_nth)
  then have "write_buf pf bs ba = Inr ?ba'"
    using False b ns(1) xs(1)
    by (auto simp: write_buf_def Let_def max_def simp flip: ba1_def) (auto simp: ba1_def)
  moreover have "wf_ba ?ba'"
    using wf b ns(2,3) fit xs(4) by (auto simp: wf_ba_def ba1_def)
  moreover have "abs_ba ?ba' = spec_write bs (abs_ba ba)"
  proof -
    have "take ?sz (overwrite ?p bs (concat (m_nodes ba1))) =
        overwrite ?p bs (take (m_size ba) (concat (m_nodes ba1)))"
      using fit ps blks by (intro take_overwrite_cover) (simp_all add: length_concat_blocks)
    then show ?thesis
      using ns(4) ps by (simp add: abs_ba_def contents_def flat_def spec_write_def ba1_def)
  qed
  moreover have "ready ?ba'"
  proof -
    have "m_capacity ba \<le> m_capacity ?ba'"
      using wf by (simp add: wf_ba_def ba1_def)
    then show ?thesis
      using rdy by (auto simp: ready_def ba1_def max_def)
  qed
  ultimately show ?thesis
    by (intro exI [of _ ?ba']) (simp add: ba1_def)
qed

section \<open>Reading\<close>

definition moved_to :: "nat \<Rightarrow> bytearray \<Rightarrow> bytearray" where
  "moved_to p ba =
     ba\<lparr>m_cur := cursor_at (m_baseSize ba) (length (m_nodes ba)) p, m_position := p\<rparr>"

lemma moved_to_simps [simp]:
  "m_baseSize (moved_to p ba) = m_baseSize ba"
  "m_endian (moved_to p ba) = m_endian ba"
  "m_size (moved_to p ba) = m_size ba"
  "m_capacity (moved_to p ba) = m_capacity ba"
  "m_nodes (moved_to p ba) = m_nodes ba"
  "m_position (moved_to p ba) = p"
  "contents (moved_to p ba) = contents ba"
  by (simp_all add: moved_to_def contents_def flat_def)

lemma wf_moved_to: "wf_ba ba \<Longrightarrow> p \<le> m_size ba \<Longrightarrow> wf_ba (moved_to p ba)"
  by (simp add: wf_ba_def moved_to_def)

lemma wf_cur_size:
  assumes "wf_ba ba"
  shows "cur_size ba = (if m_position ba = m_capacity ba then Inl Bad_deref else Inr (m_baseSize ba))"
proof (cases "m_position ba = m_capacity ba")
  case True
  then show ?thesis
    using assms by (simp add: wf_ba_def cur_size_def deref_def cursor_at_end)
next
  case False
  then have "m_position ba < length (m_nodes ba) * m_baseSize ba"
    using assms by (simp add: wf_ba_def)
  then have i: "m_position ba div m_baseSize ba < length (m_nodes ba)"
    by (simp add: less_mult_imp_div_less)
  then have "m_cur ba = Some (m_position ba div m_baseSize ba)"
    using assms by (simp add: wf_ba_def cursor_at_def)
  moreover have "length (m_nodes ba ! (m_position ba div m_baseSize ba)) = m_baseSize ba"
    using assms i by (simp add: wf_ba_def blocks_of_nth)
  ultimately show ?thesis
    using False i by (simp add: cur_size_def deref_def)
qed

text \<open>The copy loop run from the cursor's own position, anywhere before the end of the chain.\<close>

lemma read_loop_from_cursor:
  assumes wf: "wf_ba ba" and room: "m_position ba < m_capacity ba"
    and fit: "m_position ba + sz \<le> m_size ba"
  shows "read_loop (m_position ba mod m_baseSize ba)
           (m_baseSize ba - m_position ba mod m_baseSize ba) sz ba =
         Inr (take sz (drop (m_position ba) (contents ba)), moved_to (m_position ba + sz) ba)"
proof -
  let ?b = "m_baseSize ba" and ?p = "m_position ba"
  have pd: "?p div ?b * ?b + ?p mod ?b = ?p" by simp
  have b: "0 < ?b" and blks: "blocks_of ?b (m_nodes ba)"
    and i: "?p div ?b < length (m_nodes ba)"
    and bound: "?p + sz \<le> length (m_nodes ba) * ?b"
    using wf room fit by (auto simp: wf_ba_def less_mult_imp_div_less)
  have "read_loop (?p mod ?b) (?b - ?p mod ?b) sz ba =
           Inr (take sz (drop (?p div ?b * ?b + ?p mod ?b) (concat (m_nodes ba))),
                ba\<lparr>m_cur := cursor_at ?b (length (m_nodes ba)) (?p div ?b * ?b + ?p mod ?b + sz),
                   m_position := ?p + sz\<rparr>)"
    using wf b blks i bound
    by (intro read_loop_flat) (auto simp: wf_ba_def cursor_at_def)
  moreover have "take sz (drop ?p (concat (m_nodes ba))) = take sz (drop ?p (contents ba))"
    using fit by (simp add: contents_def flat_def take_drop min_absorb1)
  ultimately show ?thesis
    unfolding pd by (simp add: moved_to_def)
qed

lemma read_buf_eq:
  assumes "wf_ba ba"
  shows "read_buf sz ba =
    (if m_size ba < m_position ba + sz then Inl Out_of_range
     else if m_position ba = m_capacity ba then Inl Bad_deref
     else Inr (take sz (drop (m_position ba) (contents ba)), moved_to (m_position ba + sz) ba))"
proof -
  have le: "m_position ba \<le> m_size ba" "m_size ba \<le> m_capacity ba" and b: "0 < m_baseSize ba"
    using assms by (auto simp: wf_ba_def)
  have "getReadSize ba < sz \<longleftrightarrow> m_size ba < m_position ba + sz"
    using le by (auto simp: getReadSize_def)
  then show ?thesis
    using assms le b read_loop_from_cursor [OF assms, of sz]
    by (auto simp: read_buf_def wf_cur_size Let_def)
qed

text \<open>
  \<^verbatim>\<open>read(buf, size, st)\<close> agrees with the contents when \<^verbatim>\<open>st\<close> lies in the node of the cursor.
\<close>

lemma read_at_eq:
  assumes wf: "wf_ba ba" and room: "m_position ba < m_capacity ba"
    and st: "st div m_baseSize ba = m_position ba div m_baseSize ba" and fit: "st + sz \<le> m_size ba"
  shows "read_at sz st ba = Inr (take sz (drop st (contents ba)))"
proof -
  let ?ba = "ba\<lparr>m_position := st\<rparr>"
  have b: "0 < m_baseSize ba" and k: "m_position ba div m_baseSize ba < length (m_nodes ba)"
    using wf room by (auto simp: wf_ba_def less_mult_imp_div_less)
  have "m_position ?ba < m_capacity ?ba"
  proof -
    have "st < Suc (st div m_baseSize ba) * m_baseSize ba"
      using b by (metis dividend_less_times_div mult.commute mult_Suc_right)
    also have "\<dots> \<le> length (m_nodes ba) * m_baseSize ba"
      using k st by (intro mult_le_mono1) simp
    finally show ?thesis
      using wf by (simp add: wf_ba_def)
  qed
  moreover have "wf_ba ?ba"
    using wf st fit by (auto simp: wf_ba_def cursor_at_def)
  ultimately have "read_loop (st mod m_baseSize ba) (m_baseSize ba - st mod m_baseSize ba) sz ?ba =
      Inr (take sz (drop st (contents ba)), moved_to (st + sz) ?ba)"
    using read_loop_from_cursor [of ?ba sz] fit by (simp add: contents_def flat_def)
  moreover have "sz \<le> usub (m_size ba) st"
    using fit by simp
  ultimately show ?thesis
    using wf b room by (simp add: read_at_def wf_cur_size Let_def)
qed

lemma toString_eq:
  assumes "wf_ba ba"
  shows "toString ba = Inr (drop (m_position ba) (contents ba))"
proof -
  have le: "m_position ba \<le> m_size ba" "m_size ba \<le> m_capacity ba"
    using assms by (auto simp: wf_ba_def)
  show ?thesis
  proof (cases "m_position ba = m_size ba")
    case True
    then show ?thesis
      using length_contents [OF assms] by (simp add: toString_def getReadSize_def)
  next
    case False
    then have "read_at (m_size ba - m_position ba) (m_position ba) ba =
        Inr (take (m_size ba - m_position ba) (drop (m_position ba) (contents ba)))"
      using assms le by (intro read_at_eq) auto
    then show ?thesis
      using False le length_contents [OF assms] by (simp add: toString_def getReadSize_def)
  qed
qed

section \<open>Seeking and clearing\<close>

lemma seek_walk_eq:
  "0 < b \<Longrightarrow> blocks_of b ns \<Longrightarrow>
    seek_walk i ns v = (if v < length ns * b then Inr (i + v div b) else Inl Bad_deref)"
proof (induction ns arbitrary: i v)
  case Nil
  then show ?case by simp
next
  case (Cons n ns)
  then show ?case
    by (auto simp: le_div_geq not_le div_less)
qed

lemma setPosition_eq:
  assumes "wf_ba ba"
  shows "setPosition v ba =
    (if m_capacity ba < v then Inl Out_of_range
     else if v = m_capacity ba then Inl Bad_deref
     else Inr (moved_to v (ba\<lparr>m_size := max (m_size ba) v\<rparr>)))"
proof -
  let ?ba = "ba\<lparr>m_position := v, m_size := max (m_size ba) v\<rparr>"
  have b: "0 < m_baseSize ba" "blocks_of (m_baseSize ba) (m_nodes ba)"
      "m_capacity ba = length (m_nodes ba) * m_baseSize ba"
    using assms by (auto simp: wf_ba_def)
  have upd: "(if m_size (ba\<lparr>m_position := v\<rparr>) < m_position (ba\<lparr>m_position := v\<rparr>)
         then ba\<lparr>m_position := v, m_size := m_position (ba\<lparr>m_position := v\<rparr>)\<rparr>
         else ba\<lparr>m_position := v\<rparr>) = ?ba"
    by (cases ba) (simp add: max_def)
  have walk: "seek_walk 0 (m_nodes ba) v =
      (if v < m_capacity ba then Inr (v div m_baseSize ba) else Inl Bad_deref)"
    using seek_walk_eq [OF b(1,2), of 0 v] b(3) by simp
  have "moved_to v (ba\<lparr>m_size := max (m_size ba) v\<rparr>) = ?ba\<lparr>m_cur := Some (v div m_baseSize ba)\<rparr>"
    if "v < m_capacity ba"
    using that b by (cases ba) (simp add: moved_to_def cursor_at_inside)
  then show ?thesis
    unfolding setPosition_def Let_def upd by (auto simp: walk)
qed

lemma wf_setPosition:
  assumes wf: "wf_ba ba" and set: "setPosition v ba = Inr ba'"
  shows "wf_ba ba' \<and> m_position ba' = v \<and> m_size ba' = max (m_size ba) v \<and>
         flat ba' = flat ba \<and> m_capacity ba' = m_capacity ba \<and> m_endian ba' = m_endian ba"
proof -
  have ba': "ba' = moved_to v (ba\<lparr>m_size := max (m_size ba) v\<rparr>)" and v: "v < m_capacity ba"
    using set by (auto simp: setPosition_eq [OF wf] split: if_splits)
  have "wf_ba ba'"
    using wf v by (auto simp: ba' wf_ba_def moved_to_def)
  then show ?thesis
    by (simp add: ba' flat_def)
qed

lemma wf_clear: "wf_ba ba \<Longrightarrow> wf_ba (clear ba) \<and> abs_ba (clear ba) = ([], 0) \<and>
    m_baseSize (clear ba) = m_baseSize ba \<and> m_capacity (clear ba) = m_baseSize ba"
  by (cases "m_nodes ba")
     (auto simp: wf_ba_def clear_def cursor_at_def abs_ba_def contents_def)

section \<open>The stream contract\<close>

interpretation ba: byte_stream "write_buf pf" read_buf setPosition contents m_position wf_ba ready
    Out_of_range for pf
proof unfold_locales
  fix s n p bs
  assume wf: "wf_ba s"
  have len: "length (contents s) = m_size s" and le: "m_position s \<le> m_size s" "m_size s \<le> m_capacity s"
    using wf by (auto simp: length_contents wf_ba_def)
  show "m_position s \<le> length (contents s)"
    using len le by simp
  show "ready s \<Longrightarrow> \<exists>s'. write_buf pf bs s = Inr s' \<and> wf_ba s' \<and> ready s' \<and>
      contents s' = overwrite (m_position s) bs (contents s) \<and>
      m_position s' = m_position s + length bs"
    using write_buf_ready [OF wf, of pf bs] by (auto simp: abs_ba_def spec_write_def)
  show "\<exists>s'. read_buf n s = Inr (take n (drop (m_position s) (contents s)), s') \<and> wf_ba s' \<and>
      contents s' = contents s \<and> m_position s' = m_position s + n"
    if "0 < n" and "m_position s + n \<le> length (contents s)"
    using that wf len le by (auto simp: read_buf_eq wf_moved_to)
  show "read_buf n s = Inl Out_of_range" if "length (contents s) < m_position s + n"
    using that len by (simp add: read_buf_eq [OF wf])
  show "\<exists>s'. setPosition p s = Inr s' \<and> wf_ba s' \<and> contents s' = contents s \<and> m_position s' = p"
    if p: "p < length (contents s)"
  proof -
    obtain s' where s': "setPosition p s = Inr s'"
      using p len le by (auto simp: setPosition_eq [OF wf])
    have "max (m_size s) p = m_size s"
      using p len by simp
    then have "contents s' = contents s"
      using wf_setPosition [OF wf s'] by (simp add: contents_def)
    then show ?thesis
      using s' wf_setPosition [OF wf s'] by blast
  qed
qed

end
