(* ===== verification/ByteArray_Codec.thy ===== *)
theory ByteArray_Codec
  imports ByteArray_Refine
begin

text \<open>
  The typed accessors of \<^verbatim>\<open>ByteArray\<close> (\<^verbatim>\<open>bytearray.cpp\<close> lines 48-306): fixed-width integers in the
  buffer's byte order, ZigZag, base-128 varints, floats as their bit patterns, and strings with a
  fixed-width or varint length prefix. A signed integer is the word of its two's complement
  representation; the signed arithmetic of \<^verbatim>\<open>EncodeZigzag\<close> wraps around as the compiled code does.
\<close>

unbundle bit_operations_syntax

section \<open>ZigZag\<close>

definition EncodeZigzag32 :: "u32 \<Rightarrow> u32" where
  "EncodeZigzag32 v = (if v <s 0 then (- v) * 2 - 1 else v * 2)"

definition EncodeZigzag64 :: "u64 \<Rightarrow> u64" where
  "EncodeZigzag64 v = (if v <s 0 then (- v) * 2 - 1 else v * 2)"

definition DecodeZigzag32 :: "u32 \<Rightarrow> u32" where
  "DecodeZigzag32 v = drop_bit 1 v XOR - (v AND 1)"

definition DecodeZigzag64 :: "u64 \<Rightarrow> u64" where
  "DecodeZigzag64 v = drop_bit 1 v XOR - (v AND 1)"

section \<open>Fixed-width integers\<close>

text \<open>\<^verbatim>\<open>write(&value, sizeof(value))\<close> after the swap, and \<^verbatim>\<open>readTemplate(type)\<close>.\<close>

definition write_fixed :: "platform \<Rightarrow> 'a::len word \<Rightarrow> bytearray \<Rightarrow> ba_error + bytearray" where
  "write_fixed pf value ba =
     (let value = (if m_endian ba \<noteq> host_order pf then byteswap value else value)
      in write_buf pf (mem_bytes (host_order pf) value) ba)"

definition readTemplate :: "platform \<Rightarrow> bytearray \<Rightarrow> ba_error + 'a::len word \<times> bytearray" where
  "readTemplate pf ba =
     rbind (read_buf (LENGTH('a) div 8) ba) (\<lambda>(bs, ba').
       let v = mem_word (host_order pf) bs
       in Inr (if m_endian ba' = host_order pf then v else byteswap v, ba'))"

definition writeFint8 :: "platform \<Rightarrow> u8 \<Rightarrow> bytearray \<Rightarrow> ba_error + bytearray" where
  "writeFint8 pf value ba = write_buf pf (mem_bytes (host_order pf) value) ba"

definition writeFuint8 :: "platform \<Rightarrow> u8 \<Rightarrow> bytearray \<Rightarrow> ba_error + bytearray" where
  "writeFuint8 pf value ba = write_buf pf (mem_bytes (host_order pf) value) ba"

definition writeFint16 :: "platform \<Rightarrow> u16 \<Rightarrow> bytearray \<Rightarrow> ba_error + bytearray" where
  "writeFint16 pf value ba = write_fixed pf value ba"

definition writeFuint16 :: "platform \<Rightarrow> u16 \<Rightarrow> bytearray \<Rightarrow> ba_error + bytearray" where
  "writeFuint16 pf value ba = write_fixed pf value ba"

definition writeFint32 :: "platform \<Rightarrow> u32 \<Rightarrow> bytearray \<Rightarrow> ba_error + bytearray" where
  "writeFint32 pf value ba = write_fixed pf value ba"

definition writeFuint32 :: "platform \<Rightarrow> u32 \<Rightarrow> bytearray \<Rightarrow> ba_error + bytearray" where
  "writeFuint32 pf value ba = write_fixed pf value ba"

definition writeFint64 :: "platform \<Rightarrow> u64 \<Rightarrow> bytearray \<Rightarrow> ba_error + bytearray" where
  "writeFint64 pf value ba = write_fixed pf value ba"

definition writeFuint64 :: "platform \<Rightarrow> u64 \<Rightarrow> bytearray \<Rightarrow> ba_error + bytearray" where
  "writeFuint64 pf value ba = write_fixed pf value ba"

definition readFint8 :: "platform \<Rightarrow> bytearray \<Rightarrow> ba_error + u8 \<times> bytearray" where
  "readFint8 pf ba = rbind (read_buf 1 ba) (\<lambda>(bs, ba'). Inr (mem_word (host_order pf) bs, ba'))"

definition readFuint8 :: "platform \<Rightarrow> bytearray \<Rightarrow> ba_error + u8 \<times> bytearray" where
  "readFuint8 pf ba = rbind (read_buf 1 ba) (\<lambda>(bs, ba'). Inr (mem_word (host_order pf) bs, ba'))"

definition readFint16 :: "platform \<Rightarrow> bytearray \<Rightarrow> ba_error + u16 \<times> bytearray" where
  "readFint16 pf ba = readTemplate pf ba"

definition readFuint16 :: "platform \<Rightarrow> bytearray \<Rightarrow> ba_error + u16 \<times> bytearray" where
  "readFuint16 pf ba = readTemplate pf ba"

definition readFint32 :: "platform \<Rightarrow> bytearray \<Rightarrow> ba_error + u32 \<times> bytearray" where
  "readFint32 pf ba = readTemplate pf ba"

definition readFuint32 :: "platform \<Rightarrow> bytearray \<Rightarrow> ba_error + u32 \<times> bytearray" where
  "readFuint32 pf ba = readTemplate pf ba"

definition readFint64 :: "platform \<Rightarrow> bytearray \<Rightarrow> ba_error + u64 \<times> bytearray" where
  "readFint64 pf ba = readTemplate pf ba"

definition readFuint64 :: "platform \<Rightarrow> bytearray \<Rightarrow> ba_error + u64 \<times> bytearray" where
  "readFuint64 pf ba = readTemplate pf ba"

section \<open>Varints\<close>

text \<open>
  The bytes \<^verbatim>\<open>data[0..i)\<close> the encoding loops collect. The loops stop as soon as the value fits in
  seven bits, and nothing is stored for that last group.
\<close>

function varint32 :: "u32 \<Rightarrow> u8 list" where
  "varint32 value =
     (if 0x80 \<le> value then (ucast (value AND 0x7f) OR 0x80) # varint32 (drop_bit 7 value) else [])"
  by pat_completeness auto
termination
  by (relation "measure unat") (auto simp: word_le_nat_alt drop_bit_eq_div unat_div_distrib)

function varint64 :: "u64 \<Rightarrow> u8 list" where
  "varint64 value =
     (if 0x80 \<le> value then (ucast (value AND 0x7f) OR 0x80) # varint64 (drop_bit 7 value) else [])"
  by pat_completeness auto
termination
  by (relation "measure unat") (auto simp: word_le_nat_alt drop_bit_eq_div unat_div_distrib)

declare varint32.simps [simp del] varint64.simps [simp del]

definition writeUint32 :: "platform \<Rightarrow> u32 \<Rightarrow> bytearray \<Rightarrow> ba_error + bytearray" where
  "writeUint32 pf value ba = write_buf pf (varint32 value) ba"

definition writeInt32 :: "platform \<Rightarrow> u32 \<Rightarrow> bytearray \<Rightarrow> ba_error + bytearray" where
  "writeInt32 pf value ba = writeUint32 pf (EncodeZigzag32 value) ba"

definition writeUint64 :: "platform \<Rightarrow> u64 \<Rightarrow> bytearray \<Rightarrow> ba_error + bytearray" where
  "writeUint64 pf value ba = write_buf pf (varint64 value) ba"

text \<open>\<^verbatim>\<open>writeInt64\<close> hands its 64-bit ZigZag value to \<^verbatim>\<open>writeUint32\<close>, which takes 32 bits of it.\<close>

definition writeInt64 :: "platform \<Rightarrow> u64 \<Rightarrow> bytearray \<Rightarrow> ba_error + bytearray" where
  "writeInt64 pf value ba = writeUint32 pf (ucast (EncodeZigzag64 value)) ba"

function readUint32_loop ::
  "platform \<Rightarrow> nat \<Rightarrow> u32 \<Rightarrow> bytearray \<Rightarrow> ba_error + u32 \<times> bytearray" where
  "readUint32_loop pf i res ba =
     (if i < 32 then
        case readFuint8 pf ba of Inl e \<Rightarrow> Inl e | Inr (t, ba') \<Rightarrow>
          if t < 0x80 then Inr (res OR push_bit i (ucast t), ba')
          else readUint32_loop pf (i + 7) (res OR push_bit i (ucast t AND 0x7f)) ba'
      else Inr (res, ba))"
  by pat_completeness auto
termination
  by (relation "measure (\<lambda>(pf, i, res, ba). 32 - i)") auto

function readUint64_loop ::
  "platform \<Rightarrow> nat \<Rightarrow> u64 \<Rightarrow> bytearray \<Rightarrow> ba_error + u64 \<times> bytearray" where
  "readUint64_loop pf i res ba =
     (if i < 64 then
        case readFuint8 pf ba of Inl e \<Rightarrow> Inl e | Inr (t, ba') \<Rightarrow>
          if t < 0x80 then Inr (res OR push_bit i (ucast t), ba')
          else readUint64_loop pf (i + 7) (res OR push_bit i (ucast t AND 0x7f)) ba'
      else Inr (res, ba))"
  by pat_completeness auto
termination
  by (relation "measure (\<lambda>(pf, i, res, ba). 64 - i)") auto

declare readUint32_loop.simps [simp del] readUint64_loop.simps [simp del]

text \<open>All four readers return \<^verbatim>\<open>int32_t\<close>.\<close>

definition readUint32 :: "platform \<Rightarrow> bytearray \<Rightarrow> ba_error + u32 \<times> bytearray" where
  "readUint32 pf ba = readUint32_loop pf 0 0 ba"

definition readInt32 :: "platform \<Rightarrow> bytearray \<Rightarrow> ba_error + u32 \<times> bytearray" where
  "readInt32 pf ba = rbind (readUint32 pf ba) (\<lambda>(v, ba'). Inr (DecodeZigzag32 v, ba'))"

definition readUint64 :: "platform \<Rightarrow> bytearray \<Rightarrow> ba_error + u32 \<times> bytearray" where
  "readUint64 pf ba = rbind (readUint64_loop pf 0 0 ba) (\<lambda>(v, ba'). Inr (ucast v, ba'))"

definition readInt64 :: "platform \<Rightarrow> bytearray \<Rightarrow> ba_error + u32 \<times> bytearray" where
  "readInt64 pf ba =
     rbind (readUint64 pf ba) (\<lambda>(v, ba'). Inr (ucast (DecodeZigzag64 (scast v)), ba'))"

section \<open>Floating point\<close>

text \<open>A \<^verbatim>\<open>float\<close> or \<^verbatim>\<open>double\<close> is its bit pattern, which is what the code copies.\<close>

definition writeFloat :: "platform \<Rightarrow> u32 \<Rightarrow> bytearray \<Rightarrow> ba_error + bytearray" where
  "writeFloat pf bits ba = writeFuint32 pf bits ba"

definition writeDouble :: "platform \<Rightarrow> u64 \<Rightarrow> bytearray \<Rightarrow> ba_error + bytearray" where
  "writeDouble pf bits ba = writeFuint64 pf bits ba"

definition readFloat :: "platform \<Rightarrow> bytearray \<Rightarrow> ba_error + u32 \<times> bytearray" where
  "readFloat pf ba = readFuint32 pf ba"

text \<open>
  \<^verbatim>\<open>readDouble\<close> copies \<^verbatim>\<open>sizeof(v)\<close>, eight bytes, into a local variable declared \<^verbatim>\<open>float\<close>, of four.
\<close>

definition copy_object :: "nat \<Rightarrow> u8 list \<Rightarrow> ba_error + u8 list" where
  "copy_object dest_size bs = (if length bs \<le> dest_size then Inr bs else Inl Bad_memcpy)"

definition readDouble :: "platform \<Rightarrow> bytearray \<Rightarrow> ba_error + u64 \<times> bytearray" where
  "readDouble pf ba =
     rbind (readFuint64 pf ba) (\<lambda>(v, ba').
       rbind (copy_object 4 (mem_bytes (host_order pf) v)) (\<lambda>bs.
         Inr (mem_word (host_order pf) bs, ba')))"

section \<open>Strings\<close>

definition writeStringF16 :: "platform \<Rightarrow> u8 list \<Rightarrow> bytearray \<Rightarrow> ba_error + bytearray" where
  "writeStringF16 pf value ba =
     rbind (writeFuint16 pf (of_nat (length value)) ba) (\<lambda>ba'. write_buf pf value ba')"

definition writeStringF32 :: "platform \<Rightarrow> u8 list \<Rightarrow> bytearray \<Rightarrow> ba_error + bytearray" where
  "writeStringF32 pf value ba =
     rbind (writeFuint32 pf (of_nat (length value)) ba) (\<lambda>ba'. write_buf pf value ba')"

definition writeStringF64 :: "platform \<Rightarrow> u8 list \<Rightarrow> bytearray \<Rightarrow> ba_error + bytearray" where
  "writeStringF64 pf value ba =
     rbind (writeFuint64 pf (of_nat (length value)) ba) (\<lambda>ba'. write_buf pf value ba')"

definition writeStringVint :: "platform \<Rightarrow> u8 list \<Rightarrow> bytearray \<Rightarrow> ba_error + bytearray" where
  "writeStringVint pf value ba =
     rbind (writeUint64 pf (of_nat (length value)) ba) (\<lambda>ba'. write_buf pf value ba')"

definition writeString :: "platform \<Rightarrow> u8 list \<Rightarrow> bytearray \<Rightarrow> ba_error + bytearray" where
  "writeString pf value ba = write_buf pf value ba"

text \<open>\<^verbatim>\<open>buff.resize(len); read(&buff[0], len); return buff;\<close>, the common tail of the readers.\<close>

definition read_string_tail :: "platform \<Rightarrow> nat \<Rightarrow> bytearray \<Rightarrow> ba_error + u8 list \<times> bytearray" where
  "read_string_tail pf len ba =
     (if string_max pf < len then Inl Length_error else read_buf len ba)"

definition readStringF16 :: "platform \<Rightarrow> bytearray \<Rightarrow> ba_error + u8 list \<times> bytearray" where
  "readStringF16 pf ba =
     rbind (readFuint16 pf ba) (\<lambda>(len, ba'). read_string_tail pf (unat len) ba')"

definition readStringF32 :: "platform \<Rightarrow> bytearray \<Rightarrow> ba_error + u8 list \<times> bytearray" where
  "readStringF32 pf ba =
     rbind (readFuint32 pf ba) (\<lambda>(len, ba'). read_string_tail pf (unat len) ba')"

definition readStringF64 :: "platform \<Rightarrow> bytearray \<Rightarrow> ba_error + u8 list \<times> bytearray" where
  "readStringF64 pf ba =
     rbind (readFuint64 pf ba) (\<lambda>(len, ba'). read_string_tail pf (unat len) ba')"

text \<open>\<^verbatim>\<open>uint64_t len = readUint64()\<close> widens the signed 32-bit result.\<close>

definition readStringVint :: "platform \<Rightarrow> bytearray \<Rightarrow> ba_error + u8 list \<times> bytearray" where
  "readStringVint pf ba =
     rbind (readUint64 pf ba) (\<lambda>(len, ba').
       read_string_tail pf (unat (scast len :: u64)) ba')"

end
