(* ===== verification/ByteArray_CodecFacts.thy ===== *)
theory ByteArray_CodecFacts
  imports ByteArray_Codec
begin

text \<open>
  What the typed accessors promise: ZigZag is inverted, a fixed-width integer is laid out in the
  buffer's byte order on every host and read back by every host, the varint decoder inverts the
  base-128 encoding \<open>leb128\<close>, and the varint encoder produces that encoding without its last byte.
\<close>

unbundle bit_operations_syntax

section \<open>ZigZag\<close>

lemma bit_drop_push:
  "Suc n < LENGTH('a) \<Longrightarrow> bit (drop_bit 1 (push_bit 1 (v :: 'a::len word))) n = bit v n"
  "Suc n < LENGTH('a) \<Longrightarrow> bit (NOT (drop_bit 1 (NOT (push_bit 1 v)))) n = bit v n"
proof -
  assume n: "Suc n < LENGTH('a)"
  then have "possible_bit TYPE('a word) (Suc n)" "possible_bit TYPE('a word) n"
    by (simp_all add: possible_bit_word)
  moreover have "bit (push_bit 1 v) (Suc n) = bit v n"
    using n by (subst bit_push_bit_iff) simp
  ultimately show "bit (drop_bit 1 (push_bit 1 v)) n = bit v n"
      and "bit (NOT (drop_bit 1 (NOT (push_bit 1 v)))) n = bit v n"
    by (simp_all only: bit_drop_bit_eq bit_not_iff comp_apply plus_1_eq_Suc) simp
qed

lemma zigzag_word:
  fixes v :: "'a::len word"
  shows "drop_bit 1 ((if v <s 0 then (- v) * 2 - 1 else v * 2)) XOR
     - ((if v <s 0 then (- v) * 2 - 1 else v * 2) AND 1) = v"
proof -
  have sign: "v <s 0 \<longleftrightarrow> bit v (LENGTH('a) - 1)"
    by (simp add: word_sless_alt bit_last_iff)
  have dbl: "v * 2 = push_bit 1 v"
    by (simp add: push_bit_eq_mult mult.commute)
  have neg: "(- v) * 2 - 1 = NOT (push_bit 1 v)"
    by (simp add: not_eq_complement push_bit_eq_mult algebra_simps)
  show ?thesis
  proof (cases "v <s 0")
    case True
    have "NOT (push_bit 1 v) AND 1 = 1"
      by (simp add: and_one_eq mod_2_eq_odd)
    then have "drop_bit 1 (NOT (push_bit 1 v)) XOR - (NOT (push_bit 1 v) AND 1) =
        NOT (drop_bit 1 (NOT (push_bit 1 v)))"
      by simp
    also have "\<dots> = v"
    proof (rule bit_word_eqI)
      fix n assume n: "n < LENGTH('a)"
      show "bit (NOT (drop_bit 1 (NOT (push_bit 1 v)))) n = bit v n"
      proof (cases "Suc n < LENGTH('a)")
        case True
        then show ?thesis
          by (rule bit_drop_push)
      next
        case False
        then have "n = LENGTH('a) - 1" using n by simp
        then show ?thesis using n True sign by (simp add: bit_simps)
      qed
    qed
    finally show ?thesis using True neg by simp
  next
    case False
    have "push_bit 1 v AND 1 = 0"
      by (simp add: and_one_eq mod_2_eq_odd)
    moreover have "drop_bit 1 (push_bit 1 v) = v"
    proof (rule bit_word_eqI)
      fix n assume n: "n < LENGTH('a)"
      show "bit (drop_bit 1 (push_bit 1 v)) n = bit v n"
      proof (cases "Suc n < LENGTH('a)")
        case True
        then show ?thesis by (rule bit_drop_push)
      next
        case next_out: False
        then have top: "n = LENGTH('a) - 1" using n by simp
        have "\<not> bit (push_bit 1 v) (Suc n)"
          using next_out bit_imp_le_length by blast
        then have "\<not> bit (drop_bit 1 (push_bit 1 v)) n"
          by (simp only: bit_drop_bit_eq comp_apply plus_1_eq_Suc simp_thms)
        moreover have "\<not> bit v n"
          using False sign top by blast
        ultimately show ?thesis by blast
      qed
    qed
    ultimately show ?thesis using False by (simp only: dbl if_False) simp
  qed
qed

section \<open>Fixed-width integers\<close>

lemma byte_width_pos: "8 dvd LENGTH('a::len) \<Longrightarrow> 0 < LENGTH('a) div 8"
  using len_gt_0 [where 'a='a] by (metis dvd_div_eq_0_iff gr0I less_irrefl)

lemma mem_bytes_not_Nil: "8 dvd LENGTH('a) \<Longrightarrow> mem_bytes h (v :: 'a::len word) \<noteq> []"
  using byte_width_pos [where 'a='a] length_mem_bytes [of h v] by (metis length_0_conv less_irrefl)

lemma write_fixed_eq:
  "8 dvd LENGTH('a) \<Longrightarrow>
    write_fixed pf (v :: 'a::len word) ba = write_buf pf (mem_bytes (m_endian ba) v) ba"
  by (simp add: write_fixed_def Let_def mem_bytes_swap_unless)

lemma read_buf_endian: "wf_ba ba \<Longrightarrow> read_buf n ba = Inr (bs, ba') \<Longrightarrow> m_endian ba' = m_endian ba"
  by (auto simp: read_buf_eq split: if_splits)

lemma readTemplate_prefix:
  assumes "wf_ba ba" and "8 dvd LENGTH('a)"
    and "drop (m_position ba) (contents ba) = mem_bytes (m_endian ba) (v :: 'a::len word) @ rest"
  obtains ba' where "readTemplate pf ba = Inr (v, ba')" and "wf_ba ba'"
    and "contents ba' = contents ba" and "m_position ba' = m_position ba + LENGTH('a) div 8"
    and "drop (m_position ba') (contents ba') = rest"
proof -
  have len: "length (mem_bytes (m_endian ba) v) = LENGTH('a) div 8" by simp
  have "0 < LENGTH('a) div 8"
    using assms(2) by (rule byte_width_pos)
  then have "mem_bytes (m_endian ba) v \<noteq> []"
    using length_mem_bytes [of "m_endian ba" v] by (auto simp del: length_mem_bytes)
  then obtain ba' where ba': "read_buf (LENGTH('a) div 8) ba = Inr (mem_bytes (m_endian ba) v, ba')"
      "wf_ba ba'" "contents ba' = contents ba" "m_position ba' = m_position ba + LENGTH('a) div 8"
      "drop (m_position ba') (contents ba') = rest"
    using ba.get_prefix [OF assms(1,3) mem_bytes_not_Nil [OF assms(2)]] unfolding len by blast
  have "m_endian ba' = m_endian ba"
    using read_buf_endian [OF assms(1) ba'(1)] .
  then have "readTemplate pf ba = Inr (v, ba')"
    using ba'(1) assms(2) mem_word_swap_unless [where 'a='a, OF assms(2) len, of "m_endian ba" "host_order pf"]
    by (simp add: readTemplate_def)
  with ba' show thesis by (intro that)
qed

text \<open>Write, seek back, read: the value comes back, on whatever hosts the two sides run.\<close>

lemma fixed_roundtrip:
  assumes wf: "wf_ba ba" and rdy: "ready ba" and dv: "8 dvd LENGTH('a)"
  shows "\<exists>ba1 ba2 ba3. write_fixed pf (v :: 'a::len word) ba = Inr ba1 \<and>
           setPosition (m_position ba) ba1 = Inr ba2 \<and> readTemplate pf' ba2 = Inr (v, ba3) \<and>
           m_position ba3 = m_position ba + LENGTH('a) div 8"
proof -
  let ?bs = "mem_bytes (m_endian ba) v"
  have pos: "0 < length ?bs"
    using byte_width_pos [OF dv] by simp
  obtain ba1 where ba1: "write_buf pf ?bs ba = Inr ba1" "wf_ba ba1" "m_endian ba1 = m_endian ba"
      "m_size ba1 = max (m_size ba) (m_position ba + length ?bs)"
    using write_buf_ready [OF wf rdy, of pf ?bs] by auto
  have "m_position ba < m_size ba1" and "m_size ba1 \<le> m_capacity ba1"
    using pos ba1(2,4) by (auto simp: wf_ba_def)
  then obtain ba2 where ba2: "setPosition (m_position ba) ba1 = Inr ba2"
    by (auto simp: setPosition_eq [OF ba1(2)])
  have "wf_ba ba2 \<and> m_position ba2 = m_position ba \<and>
      drop (m_position ba2) (contents ba2) = ?bs @ drop (m_position ba + length ?bs) (contents ba)"
    by (rule ba.put_seek [OF wf rdy ba1(1) ba2 mem_bytes_not_Nil [OF dv]])
  moreover have "m_endian ba2 = m_endian ba"
    using wf_setPosition [OF ba1(2) ba2] ba1(3) by simp
  ultimately obtain ba3 where "readTemplate pf' ba2 = Inr (v, ba3)"
      "m_position ba3 = m_position ba + LENGTH('a) div 8"
    using readTemplate_prefix [OF _ dv, of ba2 v] by metis
  then show ?thesis
    using ba1(1) ba2 dv by (auto simp: write_fixed_eq)
qed

section \<open>The base-128 encoding\<close>

function leb128 :: "nat \<Rightarrow> u8 list" where
  "leb128 n = (if n < 128 then [of_nat n] else of_nat (128 + n mod 128) # leb128 (n div 128))"
  by pat_completeness auto
termination
  by (relation "measure id") auto

declare leb128.simps [simp del]

lemma leb128_small: "n < 128 \<Longrightarrow> leb128 n = [of_nat n]"
  by (simp add: leb128.simps)

lemma leb128_big: "128 \<le> n \<Longrightarrow> leb128 n = of_nat (128 + n mod 128) # leb128 (n div 128)"
  by (simp add: leb128.simps [of n])

lemma leb128_not_Nil [simp]: "leb128 n \<noteq> []"
  by (simp add: leb128.simps [of n])

lemma length_leb128: "n < 128 ^ k \<Longrightarrow> 0 < k \<Longrightarrow> length (leb128 n) \<le> k"
proof (induction n arbitrary: k rule: leb128.induct)
  case (1 n)
  show ?case
  proof (cases "n < 128")
    case True
    then show ?thesis using 1(3) by (simp add: leb128_small)
  next
    case False
    obtain k' where k': "k = Suc k'"
      using 1(3) by (cases k) auto
    moreover have "0 < k'"
      using 1(2) False k' by (cases k') auto
    ultimately have k: "k = Suc k'" "0 < k'" by auto
    then have "n div 128 < 128 ^ k'"
      using 1(2) by (simp add: less_mult_imp_div_less mult.commute)
    then show ?thesis
      using 1(1) [OF False] k False by (simp add: leb128_big)
  qed
qed

text \<open>One group of seven bits with the continuation bit.\<close>

lemma or_push_bit_of_nat:
  "m < 2 ^ i \<Longrightarrow> of_nat m OR push_bit i (of_nat x) = (of_nat (m + x * 2 ^ i) :: 'a::len word)"
proof -
  assume m: "m < 2 ^ i"
  have "take_bit i m = m"
    using m by (simp add: take_bit_nat_eq_self)
  then have "bit m n \<Longrightarrow> n < i" for n
    by (metis bit_take_bit_iff)
  then have "m AND push_bit i x = 0"
    by (intro bit_eqI) (auto simp: bit_simps dest: leD)
  then have "m OR push_bit i x = m + x * 2 ^ i"
    by (simp add: push_bit_eq_mult flip: disjunctive_add_eq_or)
  moreover have "of_nat m OR push_bit i (of_nat x) = (of_nat (m OR push_bit i x) :: 'a word)"
    by (simp only: of_nat_or_eq of_nat_push_bit)
  ultimately show ?thesis
    by (simp only:)
qed

lemma continuation_byte:
  "(ucast ((v :: 'a::len word) AND 0x7f) OR 0x80 :: u8) = of_nat (128 + unat v mod 128)"
proof -
  have "v AND 0x7f = take_bit 7 v"
    by (simp add: take_bit_eq_mask mask_eq_exp_minus_1)
  moreover have "unat (take_bit 7 v) = unat v mod 128"
    using unsigned_take_bit_eq [of 7 v] by (simp only: take_bit_eq_mod) simp
  ultimately have low: "ucast (v AND 0x7f) = (of_nat (unat v mod 128) :: u8)"
    by (metis of_nat_unat)
  have "of_nat (unat v mod 128) OR push_bit 7 (of_nat 1 :: u8) = of_nat (unat v mod 128 + 1 * 2 ^ 7)"
    by (rule or_push_bit_of_nat) simp
  moreover have "push_bit 7 (of_nat 1 :: u8) = 0x80"
    by simp
  ultimately have "of_nat (unat v mod 128) OR (0x80 :: u8) = of_nat (unat v mod 128 + 1 * 2 ^ 7)"
    by (simp only:)
  then show ?thesis
    unfolding low by (simp add: add.commute)
qed

section \<open>The encoders\<close>

text \<open>The encoder produces the base-128 encoding without its last byte.\<close>

lemma unat_drop_bit_7: "unat (drop_bit 7 (v :: 'a::len word)) = unat v div 128"
proof -
  have "unat (drop_bit 7 v) = drop_bit 7 (unat v)"
    by (simp only: unsigned_drop_bit_eq) (simp add: take_bit_nat_eq_self)
  then show ?thesis
    by (simp only: drop_bit_eq_div) simp
qed

lemma ge_0x80: "8 \<le> LENGTH('a) \<Longrightarrow> 0x80 \<le> (v :: 'a::len word) \<longleftrightarrow> 128 \<le> unat v"
proof -
  assume "8 \<le> LENGTH('a)"
  then have "(2::nat) ^ 8 \<le> 2 ^ LENGTH('a)"
    by (rule power_increasing) simp
  then show ?thesis
    by (simp add: word_le_nat_alt unsigned_numeral take_bit_nat_eq_self)
qed

lemma varint32_eq: "varint32 v = butlast (leb128 (unat v))"
proof (induction v rule: varint32.induct)
  case (1 v)
  show ?case
  proof (cases "0x80 \<le> v")
    case True
    then have "128 \<le> unat v" by (simp add: ge_0x80)
    then show ?thesis
      using 1 [OF True] True
      by (simp add: varint32.simps [of v] leb128_big continuation_byte unat_drop_bit_7)
  next
    case False
    then show ?thesis
      by (simp add: ge_0x80 varint32.simps [of v] leb128_small)
  qed
qed

lemma varint64_eq: "varint64 v = butlast (leb128 (unat v))"
proof (induction v rule: varint64.induct)
  case (1 v)
  show ?case
  proof (cases "0x80 \<le> v")
    case True
    then have "128 \<le> unat v" by (simp add: ge_0x80)
    then show ?thesis
      using 1 [OF True] True
      by (simp add: varint64.simps [of v] leb128_big continuation_byte unat_drop_bit_7)
  next
    case False
    then show ?thesis
      by (simp add: ge_0x80 varint64.simps [of v] leb128_small)
  qed
qed

text \<open>The stack arrays \<^verbatim>\<open>uint8_t data[5]\<close> and \<^verbatim>\<open>data[10]\<close> are large enough.\<close>

lemma varint_in_stack_array: "length (varint32 v) \<le> 4" "length (varint64 w) \<le> 9"
proof -
  have "unat v < 128 ^ 5" and "unat w < 128 ^ 10"
    using unsigned_less [where 'a=nat, of v] unsigned_less [where 'a=nat, of w] by simp_all
  then have "length (leb128 (unat v)) \<le> 5" and "length (leb128 (unat w)) \<le> 10"
    by (auto intro: length_leb128)
  then show "length (varint32 v) \<le> 4" "length (varint64 w) \<le> 9"
    by (simp_all add: varint32_eq varint64_eq)
qed

lemma varint_continues: "b \<in> set (butlast (leb128 n)) \<Longrightarrow> 0x80 \<le> b"
proof (induction n rule: leb128.induct)
  case (1 n)
  show ?case
  proof (cases "n < 128")
    case True
    then show ?thesis using 1(2) by (simp add: leb128_small)
  next
    case False
    then have "b = of_nat (128 + n mod 128) \<or> b \<in> set (butlast (leb128 (n div 128)))"
      using 1(2) by (simp add: leb128_big)
    moreover have "0x80 \<le> (of_nat (128 + n mod 128) :: u8)"
      by (simp only: word_le_nat_alt unat_of_nat) (simp add: mod_less)
    ultimately show ?thesis
      using 1(1) [OF False] by auto
  qed
qed

section \<open>The decoders\<close>

lemma readFuint8_prefix:
  assumes "wf_ba ba" and "drop (m_position ba) (contents ba) = b # rest"
  obtains ba' where "readFuint8 pf ba = Inr (b, ba')" and "wf_ba ba'"
    and "contents ba' = contents ba" and "m_position ba' = Suc (m_position ba)"
    and "drop (m_position ba') (contents ba') = rest"
proof -
  have "mem_word h [b] = b" for h
    using mem_word_bytes [where 'a=8, of h b]
    by (cases h) (simp_all add: mem_word_def bytes_word_def)
  moreover obtain ba' where "read_buf (length [b]) ba = Inr ([b], ba')" "wf_ba ba'"
      "contents ba' = contents ba" "m_position ba' = m_position ba + length [b]"
      "drop (m_position ba') (contents ba') = rest"
    using ba.get_prefix [OF assms(1), of "[b]" rest] assms(2) by auto
  ultimately show thesis
    using that by (simp add: readFuint8_def)
qed

lemma readFuint8_eof:
  assumes "wf_ba ba" and "m_position ba = m_size ba"
  shows "readFuint8 pf ba = Inl Out_of_range"
  using assms by (simp add: readFuint8_def read_buf_eq)

text \<open>Both decoding loops are one loop on words of their width.\<close>

function varint_loop ::
  "platform \<Rightarrow> nat \<Rightarrow> 'a::len word \<Rightarrow> bytearray \<Rightarrow> ba_error + 'a word \<times> bytearray" where
  "varint_loop pf i res ba =
     (if i < LENGTH('a) then
        case readFuint8 pf ba of Inl e \<Rightarrow> Inl e | Inr (t, ba') \<Rightarrow>
          if t < 0x80 then Inr (res OR push_bit i (ucast t), ba')
          else varint_loop pf (i + 7) (res OR push_bit i (ucast t AND 0x7f)) ba'
      else Inr (res, ba))"
  by pat_completeness auto
termination
  by (relation "measure (\<lambda>(pf, i, res :: 'a word, ba). LENGTH('a) - i)") auto

declare varint_loop.simps [simp del]

lemma readUint32_loop_eq: "readUint32_loop pf i res ba = varint_loop pf i res ba"
proof (induction pf i res ba rule: readUint32_loop.induct)
  case (1 pf i res ba)
  then show ?case
    by (subst readUint32_loop.simps, subst varint_loop.simps) (auto split: sum.split prod.split)
qed

lemma readUint64_loop_eq: "readUint64_loop pf i res ba = varint_loop pf i res ba"
proof (induction pf i res ba rule: readUint64_loop.induct)
  case (1 pf i res ba)
  then show ?case
    by (subst readUint64_loop.simps, subst varint_loop.simps) (auto split: sum.split prod.split)
qed

lemma mask_7: "mask 7 = (0x7f :: 'a::len word)"
  by (simp add: mask_eq_exp_minus_1)

lemma varint_loop_leb128:
  assumes "wf_ba ba" and "drop (m_position ba) (contents ba) = leb128 n @ rest"
    and "m < 2 ^ i" and "m + n * 2 ^ i < 2 ^ LENGTH('a)" and "i < LENGTH('a)" and "8 \<le> LENGTH('a)"
  shows "\<exists>ba'. varint_loop pf i (of_nat m :: 'a::len word) ba = Inr (of_nat (m + n * 2 ^ i), ba') \<and>
           wf_ba ba' \<and> contents ba' = contents ba \<and>
           m_position ba' = m_position ba + length (leb128 n) \<and>
           drop (m_position ba') (contents ba') = rest"
  using assms
proof (induction n arbitrary: i m ba rule: leb128.induct)
  case (1 n)
  note wf = 1(2) and data = 1(3) and m = 1(4) and fit = 1(5) and i = 1(6) and w = 1(7)
  show ?case
  proof (cases "n < 128")
    case True
    have un: "unat (of_nat n :: u8) = n"
      using True by (simp add: unat_of_nat)
    have t: "(of_nat n :: u8) < 0x80"
      using True un by (simp add: word_less_nat_alt)
    have tn: "ucast (of_nat n :: u8) = (of_nat n :: 'a word)"
      using un by (metis of_nat_unat)
    have "drop (m_position ba) (contents ba) = of_nat n # rest"
      using data True by (simp add: leb128_small)
    then obtain ba' where "readFuint8 pf ba = Inr (of_nat n, ba')" "wf_ba ba'"
        "contents ba' = contents ba" "m_position ba' = Suc (m_position ba)"
        "drop (m_position ba') (contents ba') = rest"
      using readFuint8_prefix [OF wf] by blast
    then show ?thesis
      using i m t tn True
      by (intro exI [of _ ba']) (simp add: varint_loop.simps [of pf i] or_push_bit_of_nat leb128_small)
  next
    case False
    let ?t = "of_nat (128 + n mod 128) :: u8"
    let ?m = "m + n mod 128 * 2 ^ i"
    have split: "n = n mod 128 + n div 128 * 128" by simp
    have ut: "unat ?t = 128 + n mod 128"
      by (simp only: unat_of_nat) simp
    then have big: "\<not> ?t < 0x80"
      by (simp add: word_less_nat_alt)
    have low: "ucast ?t AND 0x7f = (of_nat (n mod 128) :: 'a word)"
    proof -
      have "ucast ?t = (of_nat (128 + n mod 128) :: 'a word)"
        using ut by (metis of_nat_unat)
      moreover have "of_nat (128 + n mod 128) AND (0x7f :: 'a word) =
          take_bit 7 (of_nat (128 + n mod 128))"
        by (simp only: take_bit_eq_mask mask_7)
      moreover have "take_bit 7 (of_nat (128 + n mod 128)) = (of_nat (take_bit 7 (128 + n mod 128)) :: 'a word)"
        by (simp only: of_nat_take_bit)
      moreover have "take_bit 7 (128 + n mod 128) = n mod 128"
        by (simp add: take_bit_eq_mod)
      ultimately show ?thesis by (simp only:)
    qed
    have "drop (m_position ba) (contents ba) = ?t # leb128 (n div 128) @ rest"
      using data False by (simp add: leb128_big)
    then obtain ba1 where ba1: "readFuint8 pf ba = Inr (?t, ba1)" "wf_ba ba1"
        "contents ba1 = contents ba" "m_position ba1 = Suc (m_position ba)"
        "drop (m_position ba1) (contents ba1) = leb128 (n div 128) @ rest"
      using readFuint8_prefix [OF wf] by blast
    have sum: "?m + n div 128 * 2 ^ (i + 7) = m + n * 2 ^ i"
    proof -
      have "n * 2 ^ i = n mod 128 * 2 ^ i + n div 128 * 128 * 2 ^ i"
        using split by (metis distrib_right)
      then show ?thesis by (simp add: power_add)
    qed
    have small: "?m < 2 ^ (i + 7)"
    proof -
      have "n mod 128 * 2 ^ i \<le> 127 * 2 ^ i" by (intro mult_right_mono) (simp_all add: less_Suc_eq_le [symmetric])
      then have "?m < 128 * 2 ^ i" using m by linarith
      then show ?thesis by (simp add: power_add mult.commute)
    qed
    have "(2::nat) ^ (i + 7) < 2 ^ LENGTH('a)"
    proof -
      have "(2::nat) ^ (i + 7) \<le> n * 2 ^ i" using False by (simp add: power_add)
      then show ?thesis using fit by linarith
    qed
    then have i7: "i + 7 < LENGTH('a)"
      by (simp only: power_strict_increasing_iff)
    obtain ba' where ba': "varint_loop pf (i + 7) (of_nat ?m) ba1 = Inr (of_nat (m + n * 2 ^ i) :: 'a word, ba')"
        "wf_ba ba'" "contents ba' = contents ba1"
        "m_position ba' = m_position ba1 + length (leb128 (n div 128))"
        "drop (m_position ba') (contents ba') = rest"
      using 1(1) [OF False ba1(2,5) small _ i7 w] fit unfolding sum by blast
    have "varint_loop pf i (of_nat m :: 'a word) ba = varint_loop pf (i + 7) (of_nat ?m) ba1"
      using i ba1(1) big low m
      by (simp only: varint_loop.simps [of pf i] if_True if_False sum.case prod.case or_push_bit_of_nat)
    then show ?thesis
      using ba' ba1 False by (intro exI [of _ ba']) (simp add: leb128_big)
  qed
qed

text \<open>An encoding with its last byte missing at the end of the buffer is read past the end.\<close>

lemma varint_loop_unterminated:
  assumes "wf_ba ba" and "drop (m_position ba) (contents ba) = bs"
    and "\<forall>b \<in> set bs. 0x80 \<le> b" and "i + 7 * length bs < LENGTH('a)"
  shows "varint_loop pf i (res :: 'a::len word) ba = Inl Out_of_range"
  using assms
proof (induction bs arbitrary: i res ba)
  case Nil
  then have "m_position ba = m_size ba"
    using length_contents [OF Nil(1)] by (auto simp: wf_ba_def)
  then show ?case
    using Nil by (simp add: varint_loop.simps readFuint8_eof)
next
  case (Cons b bs)
  obtain ba' where ba': "readFuint8 pf ba = Inr (b, ba')" "wf_ba ba'"
      "drop (m_position ba') (contents ba') = bs"
    using readFuint8_prefix [OF Cons(2,3)] by blast
  have "\<not> b < 0x80"
    using Cons(4) by (simp add: not_less)
  then show ?case
    using Cons.IH [OF ba'(2,3)] Cons(4,5) ba'(1) by (simp add: varint_loop.simps [of pf i])
qed

lemma readUint32_leb128:
  assumes "wf_ba ba" and "drop (m_position ba) (contents ba) = leb128 n @ rest" and "n < 2 ^ 32"
  shows "\<exists>ba'. readUint32 pf ba = Inr (of_nat n, ba') \<and> wf_ba ba' \<and> contents ba' = contents ba \<and>
           m_position ba' = m_position ba + length (leb128 n)"
  using varint_loop_leb128 [where 'a=32, OF assms(1,2), of 0 0 pf] assms(3)
  by (auto simp: readUint32_def readUint32_loop_eq)

lemma readUint64_leb128:
  assumes "wf_ba ba" and "drop (m_position ba) (contents ba) = leb128 n @ rest" and "n < 2 ^ 64"
  shows "\<exists>ba'. readUint64 pf ba = Inr (of_nat n, ba') \<and> wf_ba ba' \<and> contents ba' = contents ba \<and>
           m_position ba' = m_position ba + length (leb128 n)"
proof -
  obtain ba' where "varint_loop pf 0 (of_nat 0 :: u64) ba = Inr (of_nat n, ba')" "wf_ba ba'"
      "contents ba' = contents ba" "m_position ba' = m_position ba + length (leb128 n)"
    using varint_loop_leb128 [where 'a=64, OF assms(1,2), of 0 0 pf] assms(3) by auto
  moreover have "ucast (of_nat n :: u64) = (of_nat n :: u32)"
    using assms(3) by (simp add: unsigned_of_nat take_bit_nat_eq_self)
  ultimately show ?thesis
    by (intro exI [of _ ba']) (simp add: readUint64_def readUint64_loop_eq)
qed

text \<open>After a write at the end and a seek back, what was written is what is left to read.\<close>

lemma append_seek:
  assumes wf: "wf_ba ba" and "m_position ba = m_size ba"
    and wr: "write_buf pf bs ba = Inr ba1" and st: "setPosition (m_position ba) ba1 = Inr ba2"
  shows "wf_ba ba2 \<and> m_position ba2 = m_position ba \<and> drop (m_position ba2) (contents ba2) = bs"
proof (cases "bs = []")
  case True
  then have "ba1 = ba" using wr by (simp add: write_buf_def)
  then show ?thesis
    using wf_setPosition [OF wf] st assms(2) length_contents True by auto
next
  case False
  have "ready ba" using assms(2) by (simp add: ready_def)
  then show ?thesis
    using ba.put_seek [OF wf _ wr st False] assms(2) length_contents [OF wf] by auto
qed

end
