(* ===== verification/ByteArray_IO.thy ===== *)
theory ByteArray_IO
  imports ByteArray_Refine
begin

text \<open>
  The bulk interfaces of \<^verbatim>\<open>ByteArray\<close>: the \<^verbatim>\<open>iovec\<close> lists handed to \<^verbatim>\<open>readv\<close> and \<^verbatim>\<open>writev\<close>, the
  file transfers and the hexadecimal dump. An \<^verbatim>\<open>iovec\<close> is a node of the chain, an offset in its
  \<^verbatim>\<open>data\<close> and a length; what a gathering write sends is \<open>gather\<close>. A file is its bytes; whether it
  can be opened is an argument.
\<close>

section \<open>Scatter and gather lists\<close>

record iovec =
  iov_node :: nat
  iov_off :: nat
  iov_len :: nat

text \<open>The \<^verbatim>\<open>while(len > 0)\<close> loop the three functions share.\<close>

function iov_loop ::
  "node list \<Rightarrow> nat option \<Rightarrow> nat \<Rightarrow> nat \<Rightarrow> nat \<Rightarrow> ba_error + iovec list" where
  "iov_loop ns cur npos ncap len =
     (if len = 0 then Inr []
      else case deref ns cur of Inl e \<Rightarrow> Inl e | Inr i \<Rightarrow>
        if len \<le> ncap then Inr [\<lparr>iov_node = i, iov_off = npos, iov_len = len\<rparr>]
        else case next_node ns i of None \<Rightarrow> Inl Bad_deref | Some j \<Rightarrow>
          rbind (iov_loop ns (Some j) 0 (length (ns ! j)) (len - ncap)) (\<lambda>vs.
            Inr (\<lparr>iov_node = i, iov_off = npos, iov_len = ncap\<rparr> # vs)))"
  by pat_completeness auto
termination
  by (relation "measure (\<lambda>(ns, cur, npos, ncap, len).
        case cur of None \<Rightarrow> 0 | Some i \<Rightarrow> length ns - i)")
     (auto simp: deref_def next_node_def split: option.splits if_splits)

declare iov_loop.simps [simp del]

definition getReadBuffers :: "nat \<Rightarrow> bytearray \<Rightarrow> ba_error + nat \<times> iovec list" where
  "getReadBuffers len ba =
     (let len = (if getReadSize ba < len then getReadSize ba else len)
      in if len = 0 then Inr (0, [])
         else if m_baseSize ba = 0 then Inl Div_by_zero
         else rbind (cur_size ba) (\<lambda>csz.
           let npos = m_position ba mod m_baseSize ba;
               ncap = usub csz npos
           in rbind (iov_loop (m_nodes ba) (m_cur ba) npos ncap len) (\<lambda>vs. Inr (len, vs))))"

text \<open>The overload with a start position walks there from the root.\<close>

primrec walk :: "node list \<Rightarrow> nat \<Rightarrow> nat option \<Rightarrow> ba_error + nat option" where
  "walk ns 0 cur = Inr cur"
| "walk ns (Suc count) cur = rbind (deref ns cur) (\<lambda>i. walk ns count (next_node ns i))"

definition getReadBuffers_at :: "nat \<Rightarrow> nat \<Rightarrow> bytearray \<Rightarrow> ba_error + nat \<times> iovec list" where
  "getReadBuffers_at len position ba =
     (let len = (if getReadSize ba < len then getReadSize ba else len)
      in if len = 0 then Inr (0, [])
         else if m_baseSize ba = 0 then Inl Div_by_zero
         else let npos = position mod m_baseSize ba;
                  count = position div m_baseSize ba
           in rbind (walk (m_nodes ba) count (Some 0)) (\<lambda>cur.
              rbind (deref (m_nodes ba) cur) (\<lambda>i.
                let ncap = usub (length (m_nodes ba ! i)) npos
                in rbind (iov_loop (m_nodes ba) cur npos ncap len) (\<lambda>vs. Inr (len, vs)))))"

definition getWriteBuffers ::
  "platform \<Rightarrow> nat \<Rightarrow> bytearray \<Rightarrow> ba_error + nat \<times> iovec list \<times> bytearray" where
  "getWriteBuffers pf len ba =
     (if len = 0 then Inr (0, [], ba)
      else rbind (addCapacity pf len ba) (\<lambda>ba1.
        if m_baseSize ba1 = 0 then Inl Div_by_zero
        else rbind (cur_size ba1) (\<lambda>csz.
          let npos = m_position ba1 mod m_baseSize ba1;
              ncap = usub csz npos
          in rbind (iov_loop (m_nodes ba1) (m_cur ba1) npos ncap len) (\<lambda>vs. Inr (len, vs, ba1)))))"

section \<open>Files\<close>

text \<open>
  The loop of \<^verbatim>\<open>writeToFile\<close>; the count given to \<^verbatim>\<open>ofstream::write\<close> is signed, and a negative one
  is \<open>Bad_count\<close>.
\<close>

function write_file_loop ::
  "node list \<Rightarrow> nat \<Rightarrow> nat option \<Rightarrow> nat \<Rightarrow> nat \<Rightarrow> ba_error + u8 list" where
  "write_file_loop ns base cur pos read_size =
     (if read_size = 0 then Inr []
      else let diff = pos mod base;
               chunk = (if base < read_size then base else read_size)
           in case deref ns cur of Inl e \<Rightarrow> Inl e | Inr i \<Rightarrow>
              if chunk < diff then Inl Bad_count
              else case memcpy_from i diff (chunk - diff) ns of Inl e \<Rightarrow> Inl e | Inr bs \<Rightarrow>
                rbind (write_file_loop ns base (next_node ns i)
                         (pos + (chunk - diff)) (read_size - (chunk - diff)))
                  (\<lambda>bs'. Inr (bs @ bs')))"
  by pat_completeness auto
termination
  by (relation "measure (\<lambda>(ns, base, cur, pos, read_size).
        case cur of None \<Rightarrow> 0 | Some i \<Rightarrow> length ns - i)")
     (auto simp: deref_def next_node_def split: option.splits if_splits)

declare write_file_loop.simps [simp del]

text \<open>The result is the value returned and what the file holds afterwards.\<close>

definition writeToFile :: "bool \<Rightarrow> bytearray \<Rightarrow> ba_error + bool \<times> u8 list" where
  "writeToFile opened ba =
     (if \<not> opened then Inr (False, [])
      else if m_baseSize ba = 0 \<and> getReadSize ba \<noteq> 0 then Inl Div_by_zero
      else rbind (write_file_loop (m_nodes ba) (m_baseSize ba) (m_cur ba) (m_position ba) (getReadSize ba))
             (\<lambda>bs. Inr (True, bs)))"

text \<open>
  \<^verbatim>\<open>while(!ifs.eof())\<close>: a read of \<open>b\<close> bytes sets the end-of-file flag exactly when fewer than \<open>b\<close> bytes
  are left. With a base size of 0 it never does, and the loop does not end (\<open>None\<close>).
\<close>

partial_function (option) read_file_loop ::
  "platform \<Rightarrow> u8 list \<Rightarrow> bytearray \<Rightarrow> (ba_error + bytearray) option" where
  "read_file_loop pf file ba =
     (case write_buf pf (take (m_baseSize ba) file) ba of Inl e \<Rightarrow> Some (Inl e)
      | Inr ba' \<Rightarrow> if length file < m_baseSize ba then Some (Inr ba')
                  else read_file_loop pf (drop (m_baseSize ba) file) ba')"

definition readFromFile ::
  "platform \<Rightarrow> u8 list option \<Rightarrow> bytearray \<Rightarrow> (ba_error + bool \<times> bytearray) option" where
  "readFromFile pf file ba =
     (case file of None \<Rightarrow> Some (Inr (False, ba))
      | Some bs \<Rightarrow> Option.bind (read_file_loop pf bs ba) (\<lambda>r. Some (rbind r (\<lambda>ba'. Inr (True, ba')))))"

section \<open>Hexadecimal dump\<close>

definition hex_digit :: "nat \<Rightarrow> char" where
  "hex_digit n = (if n < 10 then char_of (48 + n) else char_of (87 + n))"

definition hex_byte :: "u8 \<Rightarrow> string" where
  "hex_byte b = [hex_digit (unat b div 16), hex_digit (unat b mod 16), CHR '' '']"

primrec hex_loop :: "nat \<Rightarrow> u8 list \<Rightarrow> string" where
  "hex_loop i [] = []"
| "hex_loop i (b # bs) =
     (if 0 < i \<and> i mod 32 = 0 then [CHR 0x0A] else []) @ hex_byte b @ hex_loop (Suc i) bs"

definition toHexString :: "bytearray \<Rightarrow> ba_error + string" where
  "toHexString ba = rbind (toString ba) (\<lambda>str. Inr (hex_loop 0 str))"

section \<open>What a gather list denotes\<close>

definition gather :: "node list \<Rightarrow> iovec list \<Rightarrow> u8 list" where
  "gather ns vs = concat (map (\<lambda>v. take (iov_len v) (drop (iov_off v) (ns ! iov_node v))) vs)"

definition iov_valid :: "node list \<Rightarrow> iovec \<Rightarrow> bool" where
  "iov_valid ns v \<longleftrightarrow> iov_node v < length ns \<and> 0 < iov_len v \<and>
     iov_off v + iov_len v \<le> length (ns ! iov_node v)"

lemma iov_loop_gather:
  assumes "blocks_of b ns" and "cur = Some i" and "i < length ns"
    and "npos < b" and "ncap = b - npos" and "i * b + npos + len \<le> length ns * b"
  shows "\<exists>vs. iov_loop ns cur npos ncap len = Inr vs \<and>
           gather ns vs = take len (drop (i * b + npos) (concat ns)) \<and>
           sum_list (map iov_len vs) = len \<and> (\<forall>v \<in> set vs. iov_valid ns v)"
  using assms
proof (induction ns cur npos ncap len arbitrary: i rule: iov_loop.induct)
  case (1 ns cur npos ncap len)
  have blk: "length (ns ! i) = b"
    using 1(2,4) by (simp add: blocks_of_nth)
  have at: "drop (i * b + npos) (concat ns) = drop npos (ns ! i) @ concat (drop (Suc i) ns)"
    using 1(2,4,5) by (intro drop_concat_in_block) auto
  have der: "deref ns cur = Inr i"
    using 1(3,4) by (simp add: deref_Some)
  show ?case
  proof (cases "len \<le> ncap")
    case True
    let ?vs = "if len = 0 then [] else [\<lparr>iov_node = i, iov_off = npos, iov_len = len\<rparr>]"
    have "iov_loop ns cur npos ncap len = Inr ?vs"
      using True der by (simp add: iov_loop.simps [of ns cur npos ncap len])
    moreover have "gather ns ?vs = take len (drop (i * b + npos) (concat ns))"
      using True 1(5,6) at blk by (simp add: gather_def)
    ultimately show ?thesis
      using True 1(4,5,6) blk by (intro exI [of _ ?vs]) (auto simp: iov_valid_def)
  next
    case False
    have nx: "Suc i < length ns"
      using False 1(5,6,7) by (intro next_block [of i b npos len]) auto
    then have nn: "next_node ns i = Some (Suc i)"
      by (simp add: next_node_def)
    have blk': "length (ns ! Suc i) = b"
      using 1(2) nx by (simp add: blocks_of_nth)
    have "\<exists>vs. iov_loop ns (Some (Suc i)) 0 (length (ns ! Suc i)) (len - ncap) = Inr vs \<and>
           gather ns vs = take (len - ncap) (drop (Suc i * b + 0) (concat ns)) \<and>
           sum_list (map iov_len vs) = len - ncap \<and> (\<forall>v \<in> set vs. iov_valid ns v)"
      using 1(2,5,6,7) False nx blk' by (intro 1(1) [OF _ der _ nn]) auto
    then obtain vs where vs: "iov_loop ns (Some (Suc i)) 0 (length (ns ! Suc i)) (len - ncap) = Inr vs"
        "gather ns vs = take (len - ncap) (concat (drop (Suc i) ns))"
        "sum_list (map iov_len vs) = len - ncap" "\<forall>v \<in> set vs. iov_valid ns v"
      using drop_concat_blocks [OF 1(2), of "Suc i"] by auto
    let ?v = "\<lparr>iov_node = i, iov_off = npos, iov_len = ncap\<rparr>"
    have "iov_loop ns cur npos ncap len = Inr (?v # vs)"
      using False der nn vs(1) by (simp add: iov_loop.simps [of ns cur npos ncap len])
    moreover have "gather ns (?v # vs) = take len (drop (i * b + npos) (concat ns))"
      using vs(2) at blk 1(5,6) False by (simp add: gather_def)
    ultimately show ?thesis
      using vs(3,4) False 1(4,5,6) blk by (intro exI [of _ "?v # vs"]) (auto simp: iov_valid_def)
  qed
qed

lemma getReadBuffers_eq:
  assumes wf: "wf_ba ba"
  shows "\<exists>vs. getReadBuffers len ba = Inr (min len (m_size ba - m_position ba), vs) \<and>
           gather (m_nodes ba) vs = take len (drop (m_position ba) (contents ba)) \<and>
           sum_list (map iov_len vs) = min len (m_size ba - m_position ba) \<and>
           (\<forall>v \<in> set vs. iov_valid (m_nodes ba) v)"
proof -
  let ?b = "m_baseSize ba" and ?p = "m_position ba"
  let ?len = "min len (m_size ba - ?p)"
  have le: "?p \<le> m_size ba" "m_size ba \<le> m_capacity ba" and b: "0 < ?b"
    and cap: "m_capacity ba = length (m_nodes ba) * ?b" and blks: "blocks_of ?b (m_nodes ba)"
    using wf by (auto simp: wf_ba_def)
  have clamp: "(if getReadSize ba < len then getReadSize ba else len) = ?len"
    using le by (simp add: getReadSize_def)
  show ?thesis
  proof (cases "?len = 0")
    case True
    have empty: "take len (drop ?p (contents ba)) = []"
      using True length_contents [OF wf] by auto
    show ?thesis
      by (intro exI [of _ "[]"], unfold getReadBuffers_def Let_def clamp True empty)
         (simp add: gather_def)
  next
    case False
    then have room: "?p < m_capacity ba" using le by linarith
    then have i: "?p div ?b < length (m_nodes ba)"
      using cap by (simp add: less_mult_imp_div_less)
    have cur: "m_cur ba = Some (?p div ?b)"
      using wf i by (simp add: wf_ba_def cursor_at_def)
    have pd: "?p div ?b * ?b + ?p mod ?b = ?p" by simp
    have "?p + ?len \<le> length (m_nodes ba) * ?b"
      using le cap by linarith
    then obtain vs where vs: "iov_loop (m_nodes ba) (m_cur ba) (?p mod ?b) (?b - ?p mod ?b) ?len = Inr vs"
        "gather (m_nodes ba) vs = take ?len (drop ?p (concat (m_nodes ba)))"
        "sum_list (map iov_len vs) = ?len" "\<forall>v \<in> set vs. iov_valid (m_nodes ba) v"
      using iov_loop_gather [OF blks cur i _ refl, of "?p mod ?b" ?len] b by (auto simp: pd)
    have "cur_size ba = Inr ?b"
      using wf_cur_size [OF wf] room by simp
    then have "getReadBuffers len ba = Inr (?len, vs)"
      using b False vs(1) by (simp only: getReadBuffers_def Let_def clamp) simp
    moreover have "take ?len (drop ?p (concat (m_nodes ba))) = take len (drop ?p (contents ba))"
      by (simp add: contents_def flat_def drop_take min.commute)
    ultimately show ?thesis
      using vs(2-4) by (intro exI [of _ vs]) simp
  qed
qed

section \<open>The file transfers\<close>

lemma write_file_aligned:
  assumes "blocks_of b ns" and "0 < b" and "pos mod b = 0"
    and "cur = cursor_at b (length ns) pos" and "pos + n \<le> length ns * b"
  shows "write_file_loop ns b cur pos n = Inr (take n (drop pos (concat ns)))"
  using assms
proof (induction ns b cur pos n rule: write_file_loop.induct)
  case (1 ns b cur pos n)
  show ?case
  proof (cases "n = 0")
    case True
    then show ?thesis by (simp add: write_file_loop.simps)
  next
    case False
    let ?i = "pos div b" and ?c = "if b < n then b else n"
    have p: "pos = ?i * b" using 1(4) by auto
    have "pos < length ns * b" using 1(6) False by simp
    then have i: "?i < length ns" by (simp add: less_mult_imp_div_less)
    then have der: "deref ns cur = Inr ?i"
      using 1(5) by (simp add: cursor_at_def deref_Some)
    have blk: "length (ns ! ?i) = b" using 1(2) i by (simp add: blocks_of_nth)
    have cp: "memcpy_from ?i 0 ?c ns = Inr (take ?c (ns ! ?i))"
      using blk by (simp add: memcpy_from_def)
    have at: "drop pos (concat ns) = ns ! ?i @ concat (drop (Suc ?i) ns)"
      using drop_concat_in_block [OF 1(2) i, of 0] p by simp
    have step: "write_file_loop ns b cur pos n =
        rbind (write_file_loop ns b (next_node ns ?i) (pos + ?c) (n - ?c)) (\<lambda>bs'. Inr (take ?c (ns ! ?i) @ bs'))"
      using False 1(4) der cp by (simp add: write_file_loop.simps [of ns b cur pos n] Let_def del: if_split)
    have rest: "write_file_loop ns b (next_node ns ?i) (pos + ?c) (n - ?c) =
        Inr (take (n - ?c) (drop (pos + ?c) (concat ns)))"
    proof (cases "b < n")
      case True
      have "pos + b = Suc ?i * b" using p by simp
      then have "next_node ns ?i = cursor_at b (length ns) (pos + b)"
        using next_node_cursor [OF 1(3), of ns ?i] by (simp only:)
      moreover have "(pos + b) mod b = 0" using 1(4) by simp
      ultimately have "write_file_loop ns b (next_node ns ?i) (pos + (b - 0)) (n - (b - 0)) =
          Inr (take (n - (b - 0)) (drop (pos + (b - 0)) (concat ns)))"
        using 1(1) [OF False _ _ der, of 0 b "take b (ns ! ?i)"] 1(2-6) cp True by simp
      then show ?thesis using True by simp
    next
      case False
      then show ?thesis by (simp add: write_file_loop.simps)
    qed
    show ?thesis
      unfolding step rest at using blk by (simp add: p [symmetric])
        (auto simp: at drop_drop [symmetric] add.commute simp del: drop_drop)
  qed
qed

text \<open>
  A dump is right when the position is at the start of a node, or a whole node's worth of data
  is left; otherwise it fails: the length written is that of the chunk less the offset, so the
  second chunk starts at an offset greater than its length.
\<close>

lemma write_file_null:
  "0 < n \<Longrightarrow> write_file_loop ns b None pos n = Inl Bad_deref"
  by (simp add: write_file_loop.simps deref_def Let_def)

lemma write_file_zero_count:
  assumes "blocks_of b ns" and "pos mod b = n" and "0 < n" and "n \<le> b"
  shows "\<exists>e. write_file_loop ns b cur pos n = Inl e"
  using assms
proof (induction ns b cur pos n rule: write_file_loop.induct)
  case (1 ns b cur pos n)
  show ?case
  proof (cases "deref ns cur")
    case (Inl e)
    then show ?thesis
      using 1(4) by (simp add: write_file_loop.simps [of ns b cur pos n] Let_def)
  next
    case (Inr i)
    then have "length (ns ! i) = b"
      using 1(2) by (auto simp: deref_def blocks_of_nth split: option.splits if_splits)
    then have cp: "memcpy_from i n 0 ns = Inr []"
      using 1(5) by (simp add: memcpy_from_def)
    then have "write_file_loop ns b cur pos n =
        rbind (write_file_loop ns b (next_node ns i) pos n) (\<lambda>bs'. Inr bs')"
      using 1(3,4,5) Inr by (simp add: write_file_loop.simps [of ns b cur pos n] Let_def)
    moreover have "\<exists>e. write_file_loop ns b (next_node ns i) pos n = Inl e"
      using 1(1) [OF _ refl refl Inr, of "[]"] 1(2-5) cp by simp
    ultimately show ?thesis by auto
  qed
qed

lemma write_file_error:
  assumes blks: "blocks_of b ns" and "0 < n" and "n < b" and "pos mod b \<noteq> 0"
  shows "\<exists>e. write_file_loop ns b cur pos n = Inl e"
proof (cases "deref ns cur")
  case (Inl e)
  then show ?thesis
    using assms by (simp add: write_file_loop.simps [of ns b cur pos n] Let_def)
next
  case (Inr i)
  let ?d = "pos mod b"
  have blk: "length (ns ! i) = b"
    using blks Inr by (auto simp: deref_def blocks_of_nth split: option.splits if_splits)
  show ?thesis
  proof (cases "n < ?d")
    case True
    then show ?thesis
      using assms Inr by (simp add: write_file_loop.simps [of ns b cur pos n] Let_def)
  next
    case False
    have cp: "memcpy_from i ?d (n - ?d) ns = Inr (take (n - ?d) (drop ?d (ns ! i)))"
      using blk False assms(3) by (simp add: memcpy_from_def)
    define q where "q = pos + (n - ?d)"
    have mod: "q mod b = n"
      unfolding q_def using False assms(3) by (metis le_add_diff_inverse linorder_not_less mod_add_left_eq mod_less)
    have "\<exists>e. write_file_loop ns b (next_node ns i) q ?d = Inl e"
    proof (cases "n = ?d")
      case True
      then show ?thesis
        using write_file_zero_count [OF blks mod] assms(2,3) by simp
    next
      case ne: False
      then have "?d < n" using False by simp
      then show ?thesis
        using assms mod
        by (cases "deref ns (next_node ns i)")
           (simp_all add: write_file_loop.simps [of ns b "next_node ns i" q] Let_def)
    qed
    moreover have "write_file_loop ns b cur pos n = rbind (write_file_loop ns b (next_node ns i) q ?d)
        (\<lambda>bs'. Inr (take (n - ?d) (drop ?d (ns ! i)) @ bs'))"
      using False assms(2,3) Inr cp by (simp add: write_file_loop.simps [of ns b cur pos n] Let_def q_def)
    ultimately show ?thesis by auto
  qed
qed

lemma write_file_first_block:
  assumes blks: "blocks_of b ns" and b: "0 < b" and "b \<le> n" and "pos + n \<le> length ns * b"
    and cur: "cur = cursor_at b (length ns) pos"
  shows "write_file_loop ns b cur pos n = Inr (take n (drop pos (concat ns)))"
proof -
  let ?i = "pos div b" and ?d = "pos mod b"
  have pd: "?i * b + ?d = pos" by simp
  have d: "?d < b" using b by simp
  have "pos < length ns * b" using assms(2-4) by linarith
  then have i: "?i < length ns" by (simp add: less_mult_imp_div_less)
  then have der: "deref ns cur = Inr ?i"
    using cur by (simp add: cursor_at_def deref_Some)
  have blk: "length (ns ! ?i) = b" using blks i by (simp add: blocks_of_nth)
  have chunk: "(if b < n then b else n) = b" using assms(3) by simp
  have cp: "memcpy_from ?i ?d (b - ?d) ns = Inr (drop ?d (ns ! ?i))"
    using blk d by (simp add: memcpy_from_def)
  define q m where "q = pos + (b - ?d)" and "m = n - (b - ?d)"
  have "pos + (b - ?d) = b + ?i * b"
    using pd d by linarith
  then have q: "q = Suc ?i * b" "q + m = pos + n"
    using assms(3) by (simp_all add: q_def m_def)
  have "write_file_loop ns b (next_node ns ?i) q m = Inr (take m (drop q (concat ns)))"
    using next_node_cursor [OF b, of ns ?i] q assms(4) b
    by (intro write_file_aligned [OF blks]) auto
  moreover have "write_file_loop ns b cur pos n =
      rbind (write_file_loop ns b (next_node ns ?i) q m) (\<lambda>bs'. Inr (drop ?d (ns ! ?i) @ bs'))"
    using assms(2,3) der cp d
    by (simp add: write_file_loop.simps [of ns b cur pos n] Let_def chunk q_def m_def)
  moreover have "take n (drop pos (concat ns)) = drop ?d (ns ! ?i) @ take m (drop q (concat ns))"
  proof -
    have "drop pos (concat ns) = drop ?d (ns ! ?i) @ concat (drop (Suc ?i) ns)"
      using drop_concat_in_block [OF blks i, of ?d] d unfolding pd by simp
    moreover have "drop q (concat ns) = concat (drop (Suc ?i) ns)"
      unfolding q(1) by (rule drop_concat_blocks [OF blks])
    ultimately show ?thesis
      using blk d assms(3) by (simp add: m_def)
  qed
  ultimately show ?thesis by simp
qed

lemma writeToFile_eq:
  assumes wf: "wf_ba ba"
  shows "(m_position ba mod m_baseSize ba = 0 \<or> m_position ba = m_size ba \<or>
            m_baseSize ba \<le> m_size ba - m_position ba) \<Longrightarrow>
          writeToFile True ba = Inr (True, drop (m_position ba) (contents ba))"
    and "\<not> (m_position ba mod m_baseSize ba = 0 \<or> m_position ba = m_size ba \<or>
            m_baseSize ba \<le> m_size ba - m_position ba) \<Longrightarrow>
          \<exists>e. writeToFile True ba = Inl e"
proof -
  let ?b = "m_baseSize ba" and ?p = "m_position ba" and ?ns = "m_nodes ba"
  have le: "?p \<le> m_size ba" "m_size ba \<le> length ?ns * ?b" and b: "0 < ?b"
    and blks: "blocks_of ?b ?ns" and cur: "m_cur ba = cursor_at ?b (length ?ns) ?p"
    using wf by (auto simp: wf_ba_def)
  let ?n = "m_size ba - ?p"
  have sz: "getReadSize ba = ?n" using le by (simp add: getReadSize_def)
  have data: "take ?n (drop ?p (concat ?ns)) = drop ?p (contents ba)"
    by (simp add: contents_def flat_def drop_take)
  { assume ok: "?p mod ?b = 0 \<or> ?p = m_size ba \<or> ?b \<le> ?n"
    have "write_file_loop ?ns ?b (m_cur ba) ?p ?n = Inr (take ?n (drop ?p (concat ?ns)))"
    proof (cases "?p = m_size ba")
      case True
      then show ?thesis by (simp add: write_file_loop.simps)
    next
      case False
      then show ?thesis
        using ok write_file_aligned [OF blks b _ cur, of ?n]
          write_file_first_block [OF blks b _ _ cur, of ?n] le by auto
    qed
    then show "writeToFile True ba = Inr (True, drop ?p (contents ba))"
      using b by (simp add: writeToFile_def sz data) }
  { assume "\<not> (?p mod ?b = 0 \<or> ?p = m_size ba \<or> ?b \<le> ?n)"
    then have "\<exists>e. write_file_loop ?ns ?b (m_cur ba) ?p ?n = Inl e"
      using le by (intro write_file_error [OF blks]) auto
    then show "\<exists>e. writeToFile True ba = Inl e"
      using b by (auto simp: writeToFile_def sz) }
qed

text \<open>Loading a file writes all its bytes at the position.\<close>

lemma read_file_loop_appends:
  assumes "wf_ba ba" and "ready ba"
  shows "\<exists>ba'. read_file_loop pf bs ba = Some (Inr ba') \<and> wf_ba ba' \<and> ready ba' \<and>
           abs_ba ba' = spec_write bs (abs_ba ba)"
  using assms
proof (induction "length bs" arbitrary: bs ba rule: less_induct)
  case less
  let ?b = "m_baseSize ba"
  have b: "0 < ?b" using less(2) by (simp add: wf_ba_def)
  obtain ba1 where ba1: "write_buf pf (take ?b bs) ba = Inr ba1" "wf_ba ba1" "ready ba1"
      "abs_ba ba1 = spec_write (take ?b bs) (abs_ba ba)" "m_baseSize ba1 = ?b"
    using write_buf_ready [OF less(2,3), of pf "take ?b bs"] by blast
  show ?case
  proof (cases "length bs < ?b")
    case True
    then show ?thesis
      using ba1 by (intro exI [of _ ba1]) (simp add: read_file_loop.simps [of pf bs])
  next
    case False
    obtain ba' where ba': "read_file_loop pf (drop ?b bs) ba1 = Some (Inr ba')" "wf_ba ba'"
        "ready ba'" "abs_ba ba' = spec_write (drop ?b bs) (abs_ba ba1)"
    proof -
      have "length (drop ?b bs) < length bs"
        using False b by simp
      then show thesis
        using less(1) [of "drop ?b bs" ba1] ba1(2,3) that by blast
    qed
    have "spec_write (drop ?b bs) (abs_ba ba1) = spec_write bs (abs_ba ba)"
    proof -
      have "m_position ba \<le> length (contents ba)"
        using less(2) by (simp add: wf_ba_def length_contents)
      then show ?thesis
        using overwrite_overwrite_grow [of "m_position ba" "contents ba" "take ?b bs" "drop ?b bs"]
        unfolding ba1(4) by (simp add: abs_ba_def spec_write_def)
    qed
    then show ?thesis
      using ba' ba1(1) False by (intro exI [of _ ba']) (simp add: read_file_loop.simps [of pf bs ba])
  qed
qed

section \<open>Receiving\<close>

text \<open>
  The regions handed to \<^verbatim>\<open>readv\<close> are, in order, the \<open>len\<close> bytes from the position on; the data and
  the position do not change, so what was received becomes data with the following
  \<^verbatim>\<open>setPosition\<close>.
\<close>

lemma getWriteBuffers_ready:
  assumes wf: "wf_ba ba" and rdy: "ready ba" and n: "0 < len"
  shows "\<exists>vs ba'. getWriteBuffers pf len ba = Inr (len, vs, ba') \<and> wf_ba ba' \<and>
           abs_ba ba' = abs_ba ba \<and> m_size ba + len \<le> m_capacity ba' \<and>
           gather (m_nodes ba') vs = take len (drop (m_position ba) (flat ba')) \<and>
           sum_list (map iov_len vs) = len \<and> (\<forall>v \<in> set vs. iov_valid (m_nodes ba') v)"
proof -
  let ?b = "m_baseSize ba" and ?p = "m_position ba"
  obtain xs where xs: "addCapacity pf len ba =
           Inr (ba\<lparr>m_nodes := m_nodes ba @ xs, m_cur := Some (?p div ?b),
                   m_capacity := length (m_nodes ba @ xs) * ?b\<rparr>)"
         "blocks_of ?b xs" "?p div ?b < length (m_nodes ba @ xs)"
         "m_size ba + len \<le> length (m_nodes ba @ xs) * ?b"
    using addCapacity_ready [OF wf rdy n, of pf] by auto
  define ns where "ns = m_nodes ba @ xs"
  define ba1 where "ba1 = ba\<lparr>m_nodes := ns, m_cur := Some (?p div ?b), m_capacity := length ns * ?b\<rparr>"
  have b: "0 < ?b" and blks: "blocks_of ?b ns" and ps: "?p \<le> m_size ba"
    and sz: "m_size ba \<le> length (concat (m_nodes ba))"
    using wf xs(2) by (auto simp: wf_ba_def ns_def length_concat_blocks)
  have add: "addCapacity pf len ba = Inr ba1"
    using xs(1) by (simp add: ba1_def ns_def)
  have cur: "m_cur ba1 = Some (?p div ?b)" "m_nodes ba1 = ns" "m_position ba1 = ?p" "m_baseSize ba1 = ?b"
    by (simp_all add: ba1_def)
  have i: "?p div ?b < length ns"
    using xs(3) by (simp add: ns_def)
  have pd: "?p div ?b * ?b + ?p mod ?b = ?p" by simp
  have "?p + len \<le> length ns * ?b"
    using ps xs(4) by (simp add: ns_def)
  then obtain vs where vs: "iov_loop ns (Some (?p div ?b)) (?p mod ?b) (?b - ?p mod ?b) len = Inr vs"
      "gather ns vs = take len (drop ?p (concat ns))"
      "sum_list (map iov_len vs) = len" "\<forall>v \<in> set vs. iov_valid ns v"
    using iov_loop_gather [OF blks refl i _ refl, of "?p mod ?b" len] b by (auto simp: pd)
  have "cur_size ba1 = Inr ?b"
    using blks i by (simp add: cur_size_def deref_def cur blocks_of_nth)
  then have "getWriteBuffers pf len ba = Inr (len, vs, ba1)"
    using n b vs(1) by (simp add: getWriteBuffers_def add cur Let_def)
  moreover have "wf_ba ba1"
    using wf b blks i xs(4) by (auto simp: wf_ba_def ba1_def ns_def cursor_at_def)
  moreover have "abs_ba ba1 = abs_ba ba"
    using sz by (simp add: abs_ba_def contents_def flat_def ba1_def ns_def)
  moreover have "m_size ba + len \<le> m_capacity ba1"
    using xs(4) by (simp add: ba1_def ns_def)
  ultimately show ?thesis
    using vs(2-4) by (intro exI [of _ vs] exI [of _ ba1]) (simp add: flat_def cur)
qed

end
