(* ===== verification/ByteArray_Properties.thy ===== *)
theory ByteArray_Properties
  imports ByteArray_CodecFacts ByteArray_IO
begin

text \<open>
  The properties of \<^verbatim>\<open>ByteArray\<close>. The abstract buffer is a pair of the bytes stored and the
  position (\<open>abs_ba\<close>); \<open>wf_ba\<close> is the invariant of the node chain and its cursor, and \<open>ready\<close>
  excludes the one situation in which growing the chain misplaces the cursor: a full buffer
  whose position was moved back before the end.
\<close>

text \<open>A concrete host, for the witnesses.\<close>

definition a_host :: platform where
  "a_host = \<lparr>host_order = SYLAR_LITTLE_ENDIAN, fresh_byte = (\<lambda>_ _. 0), string_max = 100\<rparr>"

lemma wf_ready_new: "0 < b \<Longrightarrow> wf_ba (ByteArray pf b)" "ready (ByteArray pf b)"
  by (simp_all add: wf_ba_new) (simp add: ready_def ByteArray_def)

section \<open>The lost write\<close>

lemma addCapacity_full:
  assumes wf: "wf_ba ba" and full: "m_size ba = m_capacity ba" and n: "0 < n"
  shows "addCapacity pf n ba =
           Inr (ba\<lparr>m_nodes := m_nodes ba @
                      fresh_nodes pf (length (m_nodes ba)) (m_baseSize ba) ((n + m_baseSize ba - 1) div m_baseSize ba),
                   m_cur := Some (length (m_nodes ba)),
                   m_capacity := (length (m_nodes ba) + (n + m_baseSize ba - 1) div m_baseSize ba) * m_baseSize ba\<rparr>)"
proof -
  have b: "0 < m_baseSize ba" and cap: "m_capacity ba = length (m_nodes ba) * m_baseSize ba"
    using wf by (auto simp: wf_ba_def)
  have "getCapacity ba = 0"
    using full by (simp add: getCapacity_def)
  moreover have "(n + m_baseSize ba - 1) div m_baseSize ba \<noteq> 0"
    using ceil_div_enough(2) [OF b n] by simp
  ultimately show ?thesis
    using n b cap by (simp add: addCapacity_def Let_def add_nodes_eq add_mult_distrib)
qed

lemma full_rewound_write:
  assumes wf: "wf_ba ba" and full: "m_size ba = m_capacity ba" and rew: "m_position ba < m_size ba"
    and bs: "bs \<noteq> []"
    and fits: "m_position ba mod m_baseSize ba + length bs
      \<le> (length bs + m_baseSize ba - 1) div m_baseSize ba * m_baseSize ba"
  shows "\<exists>ba'. write_buf pf bs ba = Inr ba' \<and> m_position ba' = m_position ba + length bs \<and>
           take (m_size ba) (contents ba') = contents ba \<and> \<not> wf_ba ba'"
proof -
  let ?b = "m_baseSize ba" and ?p = "m_position ba" and ?n = "length bs" and ?k = "length (m_nodes ba)"
  define m where "m = (?n + ?b - 1) div ?b"
  define ns where "ns = m_nodes ba @ fresh_nodes pf ?k ?b m"
  define ba1 where "ba1 = ba\<lparr>m_nodes := ns, m_cur := Some ?k, m_capacity := (?k + m) * ?b\<rparr>"
  have b: "0 < ?b" and cap: "m_capacity ba = ?k * ?b" and blks0: "blocks_of ?b (m_nodes ba)"
    using wf by (auto simp: wf_ba_def)
  have n: "0 < ?n" using bs by simp
  have m: "0 < m" "?p mod ?b + ?n \<le> m * ?b"
    using ceil_div_enough(2) [OF b n] fits by (simp_all add: m_def)
  have len: "length ns = ?k + m" by (simp add: ns_def)
  have blks: "blocks_of ?b ns" using blks0 by (simp add: ns_def)
  have add: "addCapacity pf ?n ba = Inr ba1"
    unfolding addCapacity_full [OF wf full n] m_def [symmetric] ns_def [symmetric] ba1_def ..
  have fields: "m_nodes ba1 = ns" "m_cur ba1 = Some ?k" "m_position ba1 = ?p" "m_baseSize ba1 = ?b"
      "m_size ba1 = m_size ba"
    by (simp_all add: ba1_def)
  have "\<exists>ns'. write_loop (?p mod ?b) (?b - ?p mod ?b) bs ba1 =
           Inr (ba1\<lparr>m_nodes := ns', m_cur := cursor_at ?b (length ns') (?k * ?b + ?p mod ?b + ?n),
                   m_position := m_position ba1 + ?n\<rparr>) \<and>
         blocks_of ?b ns' \<and> length ns' = length (m_nodes ba1) \<and>
         concat ns' = overwrite (?k * ?b + ?p mod ?b) bs (concat (m_nodes ba1))"
    using b m blks len by (intro write_loop_flat) (auto simp: fields algebra_simps)
  then obtain ns' where ns': "write_loop (?p mod ?b) (?b - ?p mod ?b) bs ba1 =
           Inr (ba1\<lparr>m_nodes := ns', m_cur := cursor_at ?b (length ns') (?k * ?b + ?p mod ?b + ?n),
                   m_position := ?p + ?n\<rparr>)"
      "length ns' = ?k + m" "concat ns' = overwrite (?k * ?b + ?p mod ?b) bs (concat ns)"
    unfolding fields len by blast
  let ?ba' = "ba1\<lparr>m_nodes := ns', m_cur := cursor_at ?b (length ns') (?k * ?b + ?p mod ?b + ?n),
                   m_position := ?p + ?n, m_size := max (m_size ba) (?p + ?n)\<rparr>"
  have "cur_size ba1 = Inr ?b"
    using blks m(1) by (simp add: cur_size_def deref_def fields len blocks_of_nth)
  then have "write_buf pf bs ba = Inr ?ba'"
    using bs b ns'(1) by (simp add: write_buf_def add fields Let_def max_def)
  moreover have "take (m_size ba) (contents ?ba') = contents ba"
  proof -
    have "?k * ?b \<le> length (concat ns)"
      using length_concat_blocks [OF blks] len by simp
    moreover have "take (?k * ?b) (concat ns) = concat (m_nodes ba)"
      using length_concat_blocks [OF blks0] by (simp add: ns_def)
    moreover have "?k * ?b + ?p mod ?b \<le> length (concat ns)"
      using length_concat_blocks [OF blks] len m(2) by (simp add: add_mult_distrib)
    ultimately have "take (?k * ?b) (concat ns') = concat (m_nodes ba)"
      by (simp add: ns'(3) take_overwrite)
    then show ?thesis
      using full cap length_concat_blocks [OF blks0]
      by (simp add: contents_def flat_def min_absorb1)
  qed
  moreover have "\<not> wf_ba ?ba'"
  proof
    assume "wf_ba ?ba'"
    then have "cursor_at ?b (?k + m) (?k * ?b + ?p mod ?b + ?n) = cursor_at ?b (?k + m) (?p + ?n)"
      using ns'(2) by (simp add: wf_ba_def fields)
    moreover have lt: "?p + ?n < (?k + m) * ?b"
      using rew full cap m(2) by (simp add: add_mult_distrib)
    moreover have "(?p + ?n) div ?b < (?k * ?b + ?p mod ?b + ?n) div ?b"
    proof -
      have "?p div ?b < ?k"
        using rew full cap by (simp add: less_mult_imp_div_less)
      then have "Suc (?p div ?b) * ?b \<le> ?k * ?b"
        by (intro mult_le_mono1) simp
      then have "?b + ?p div ?b * ?b \<le> ?k * ?b" by simp
      then have "?p + ?n + ?b \<le> ?k * ?b + ?p mod ?b + ?n"
        using div_mult_mod_eq [of ?p ?b] by linarith
      then have "(?p + ?n + ?b) div ?b \<le> (?k * ?b + ?p mod ?b + ?n) div ?b"
        by (rule div_le_mono)
      moreover have "(?p + ?n + ?b) div ?b = Suc ((?p + ?n) div ?b)"
        using b by (simp add: div_add_self2)
      ultimately show ?thesis by linarith
    qed
    ultimately show False
      using b by (auto simp: cursor_at_def less_mult_imp_div_less split: if_splits)
  qed
  ultimately show ?thesis
    by (intro exI [of _ ?ba']) simp
qed

section \<open>Properties\<close>

text \<open>C1. A write to a buffer that has free bytes, or stands at its end, always succeeds: the bytes
  replace those at the position or extend the data, the position moves past them, and the
  invariant of the node chain holds again. This is the abstract \<open>spec_write\<close> on the pair of the
  stored bytes and the position, so that the chunked copy refines one list operation.\<close>

theorem write_refines_spec:
  assumes "wf_ba ba" and "ready ba"
  shows "\<exists>ba'. write_buf pf bs ba = Inr ba' \<and> wf_ba ba' \<and> ready ba' \<and>
           abs_ba ba' = spec_write bs (abs_ba ba)"
  using write_buf_ready [OF assms] by blast

theorem write_refines_spec_witness:
  "\<exists>ba'. write_buf a_host [1, 2, 3] (ByteArray a_host 2) = Inr ba' \<and> wf_ba ba' \<and> ready ba' \<and>
     abs_ba ba' = ([1, 2, 3], 3)"
  using write_refines_spec [of "ByteArray a_host 2" a_host "[1, 2, 3]"]
  by (simp add: wf_ready_new abs_ba_new spec_write_def overwrite_def numeral_3_eq_3)

text \<open>C22. Bytes written at any position of a ready buffer and read back from that position after a
  seek are the bytes written, wherever the node boundaries fall.\<close>

theorem write_seek_read:
  assumes "wf_ba ba" and "ready ba" and "bs \<noteq> []"
  shows "\<exists>ba1 ba2 ba3. write_buf pf bs ba = Inr ba1 \<and> setPosition (m_position ba) ba1 = Inr ba2 \<and>
           read_buf (length bs) ba2 = Inr (bs, ba3) \<and>
           contents ba3 = overwrite (m_position ba) bs (contents ba) \<and>
           m_position ba3 = m_position ba + length bs"
proof -
  obtain ba1 where ba1: "write_buf pf bs ba = Inr ba1" "wf_ba ba1" "ready ba1"
      "abs_ba ba1 = spec_write bs (abs_ba ba)" "m_size ba1 = max (m_size ba) (m_position ba + length bs)"
    using write_buf_ready [OF assms(1,2), of pf bs] by blast
  have lt: "m_position ba < m_size ba1" "m_size ba1 \<le> m_capacity ba1"
    using ba1(2,5) assms(3) by (auto simp: wf_ba_def less_max_iff_disj)
  then obtain ba2 where ba2: "setPosition (m_position ba) ba1 = Inr ba2"
    by (auto simp: setPosition_eq [OF ba1(2)])
  have s2: "wf_ba ba2" "drop (m_position ba2) (contents ba2) = bs @ drop (m_position ba + length bs) (contents ba)"
      "m_position ba2 = m_position ba"
    using ba.put_seek [OF assms(1,2) ba1(1) ba2 assms(3)] by auto
  have "contents ba2 = contents ba1"
    using wf_setPosition [OF ba1(2) ba2] lt by (auto simp: contents_def max_absorb1)
  moreover obtain ba3 where "read_buf (length bs) ba2 = Inr (bs, ba3)" "contents ba3 = contents ba2"
      "m_position ba3 = m_position ba2 + length bs"
    using ba.get_prefix [OF s2(1,2) assms(3)] by blast
  ultimately show ?thesis
    using ba1(1,4) ba2 s2(3) by (auto simp: abs_ba_def spec_write_def)
qed

theorem write_seek_read_witness:
  "\<exists>ba1 ba2 ba3. write_buf a_host [1, 2, 3] (ByteArray a_host 2) = Inr ba1 \<and>
     setPosition 0 ba1 = Inr ba2 \<and> read_buf 3 ba2 = Inr ([1, 2, 3], ba3)"
  using write_seek_read [of "ByteArray a_host 2" "[1, 2, 3]" a_host]
  by (simp add: wf_ready_new) (auto simp: ByteArray_def numeral_3_eq_3)

text \<open>C23. What a read does, completely: too many bytes asked for throw \<^verbatim>\<open>std::out_of_range\<close>; at the
  end of a full buffer the null cursor is dereferenced, even for a read of no bytes; in every
  other case the bytes at the position are returned and only the cursor moves.\<close>

theorem read_outcome:
  assumes "wf_ba ba"
  shows "read_buf sz ba =
    (if m_size ba < m_position ba + sz then Inl Out_of_range
     else if m_position ba = m_capacity ba then Inl Bad_deref
     else Inr (take sz (drop (m_position ba) (contents ba)), moved_to (m_position ba + sz) ba))"
  by (rule read_buf_eq [OF assms])

theorem read_outcome_witness:
  "read_buf 1 (ByteArray a_host 2) = Inl Out_of_range"
  using read_outcome [of "ByteArray a_host 2" 1]
  by (simp add: wf_ready_new) (simp add: ByteArray_def)

text \<open>A seek beyond the capacity throws; a seek to the capacity itself, which the guard lets
  through, walks off the chain; every other seek succeeds, extends the size when it has to, and
  leaves the cursor on the node of the new position.\<close>

theorem setPosition_outcome:
  assumes "wf_ba ba"
  shows "(m_capacity ba < v \<longrightarrow> setPosition v ba = Inl Out_of_range) \<and>
         (v = m_capacity ba \<longrightarrow> setPosition v ba = Inl Bad_deref) \<and>
         (v < m_capacity ba \<longrightarrow> (\<exists>ba'. setPosition v ba = Inr ba' \<and> wf_ba ba' \<and> m_position ba' = v \<and>
            m_size ba' = max (m_size ba) v \<and> flat ba' = flat ba))"
proof (intro conjI impI)
  assume "v < m_capacity ba"
  then obtain ba' where "setPosition v ba = Inr ba'"
    by (simp add: setPosition_eq [OF assms])
  then show "\<exists>ba'. setPosition v ba = Inr ba' \<and> wf_ba ba' \<and> m_position ba' = v \<and>
      m_size ba' = max (m_size ba) v \<and> flat ba' = flat ba"
    using wf_setPosition [OF assms] by blast
qed (simp_all add: setPosition_eq [OF assms])

theorem setPosition_outcome_witness:
  "setPosition 2 (ByteArray a_host 2) = Inl Bad_deref"
  using setPosition_outcome [of "ByteArray a_host 2" 2]
  by (simp add: wf_ready_new) (simp add: ByteArray_def)

text \<open>When a full buffer is rewound and written, the write reports success, but the bytes go
  to the nodes just added instead of the position: what a later read sees there is the old data,
  and the cursor no longer agrees with the position.\<close>

theorem rewound_write_lost:
  assumes "wf_ba ba" and "m_size ba = m_capacity ba" and "m_position ba < m_size ba" and "bs \<noteq> []"
    and "m_position ba mod m_baseSize ba + length bs
      \<le> (length bs + m_baseSize ba - 1) div m_baseSize ba * m_baseSize ba"
  shows "\<exists>ba'. write_buf pf bs ba = Inr ba' \<and> m_position ba' = m_position ba + length bs \<and>
           take (m_size ba) (contents ba') = contents ba \<and> \<not> wf_ba ba'"
  by (rule full_rewound_write [OF assms])

definition rewound_buffer :: bytearray where
  "rewound_buffer =
     \<lparr>m_baseSize = 2, m_position = 0, m_capacity = 2, m_size = 2, m_endian = SYLAR_BIG_ENDIAN,
      m_nodes = [[1, 2]], m_cur = Some 0\<rparr>"

theorem rewound_write_lost_witness:
  "\<exists>ba'. write_buf a_host [7] rewound_buffer = Inr ba' \<and> m_position ba' = 1 \<and>
     take 2 (contents ba') = [1, 2] \<and> \<not> wf_ba ba'"
  using rewound_write_lost [of rewound_buffer "[7]" a_host]
  by (simp add: rewound_buffer_def wf_ba_def cursor_at_def contents_def flat_def)

text \<open>A fixed-width integer written at the end or inside a ready buffer, on a host of either
  byte order, is read back as the same integer on a host of either byte order; the accessors of
  16, 32 and 64 bits agree in this.\<close>

theorem fixed_width_roundtrip:
  assumes "wf_ba ba" and "ready ba"
  shows "(\<exists>ba1 ba2 ba3. writeFuint16 pf v16 ba = Inr ba1 \<and> setPosition (m_position ba) ba1 = Inr ba2 \<and>
            readFuint16 pf' ba2 = Inr (v16, ba3) \<and> m_position ba3 = m_position ba + 2) \<and>
         (\<exists>ba1 ba2 ba3. writeFuint32 pf v32 ba = Inr ba1 \<and> setPosition (m_position ba) ba1 = Inr ba2 \<and>
            readFuint32 pf' ba2 = Inr (v32, ba3) \<and> m_position ba3 = m_position ba + 4) \<and>
         (\<exists>ba1 ba2 ba3. writeFuint64 pf v64 ba = Inr ba1 \<and> setPosition (m_position ba) ba1 = Inr ba2 \<and>
            readFuint64 pf' ba2 = Inr (v64, ba3) \<and> m_position ba3 = m_position ba + 8)"
  using fixed_roundtrip [where 'a=16, OF assms] fixed_roundtrip [where 'a=32, OF assms]
    fixed_roundtrip [where 'a=64, OF assms]
  by (simp add: writeFuint16_def readFuint16_def writeFuint32_def readFuint32_def
      writeFuint64_def readFuint64_def)

theorem fixed_width_roundtrip_witness:
  "\<exists>ba1 ba2 ba3. writeFuint16 a_host 0x1234 (ByteArray a_host 1) = Inr ba1 \<and>
     setPosition 0 ba1 = Inr ba2 \<and>
     readFuint16 (a_host\<lparr>host_order := SYLAR_BIG_ENDIAN\<rparr>) ba2 = Inr (0x1234, ba3)"
proof -
  have "m_position (ByteArray a_host 1) = 0" by (simp add: ByteArray_def)
  then show ?thesis
    using fixed_width_roundtrip [of "ByteArray a_host 1" a_host "0x1234"
        "a_host\<lparr>host_order := SYLAR_BIG_ENDIAN\<rparr>" 0 0]
    by (simp add: wf_ready_new) blast
qed

text \<open>ZigZag decoding inverts ZigZag encoding on all 32-bit and all 64-bit integers, the most
  negative ones, whose encoding overflows, included.\<close>

theorem zigzag_roundtrip:
  "DecodeZigzag32 (EncodeZigzag32 v) = v \<and> DecodeZigzag64 (EncodeZigzag64 w) = w"
  unfolding DecodeZigzag32_def EncodeZigzag32_def DecodeZigzag64_def EncodeZigzag64_def
  by (intro conjI zigzag_word)

text \<open>C38. The varint readers decode the base-128 encoding of every 32-bit value, across node
  boundaries, consuming exactly its bytes; \<^verbatim>\<open>readUint64\<close> decodes every 64-bit encoding but
  returns only the low 32 bits of the value.\<close>

theorem varint_readers_decode:
  assumes "wf_ba ba" and "drop (m_position ba) (contents ba) = leb128 n @ rest"
  shows "(n < 2 ^ 32 \<longrightarrow> (\<exists>ba'. readUint32 pf ba = Inr (of_nat n, ba') \<and>
            m_position ba' = m_position ba + length (leb128 n))) \<and>
         (n < 2 ^ 64 \<longrightarrow> (\<exists>ba'. readUint64 pf ba = Inr (of_nat n, ba') \<and>
            m_position ba' = m_position ba + length (leb128 n)))"
  using readUint32_leb128 [OF assms, of pf] readUint64_leb128 [OF assms, of pf] by blast

definition varint_buffer :: bytearray where
  "varint_buffer =
     \<lparr>m_baseSize = 2, m_position = 1, m_capacity = 4, m_size = 4, m_endian = SYLAR_BIG_ENDIAN,
      m_nodes = [[0, 0xAC], [0x02, 9]], m_cur = Some 0\<rparr>"

theorem varint_readers_decode_witness:
  "\<exists>ba'. readUint32 a_host varint_buffer = Inr (300, ba') \<and> m_position ba' = 3"
proof -
  have "leb128 300 = [0xAC, 0x02]"
    by (simp add: leb128_big leb128_small)
  then show ?thesis
    using varint_readers_decode [of varint_buffer 300 "[9]" a_host]
    by (simp add: varint_buffer_def wf_ba_def cursor_at_def contents_def flat_def numeral_3_eq_3)
qed

text \<open>The varint writers leave out the last group of the encoding, so that a value appended with
  \<^verbatim>\<open>writeUint32\<close> or \<^verbatim>\<open>writeUint64\<close> can never be read back: after the seek, the matching reader runs
  past the end of the data and throws.\<close>

theorem varint_writers_truncate:
  assumes "wf_ba ba" and "m_position ba = m_size ba"
  shows "(writeUint32 pf v ba = Inr ba1 \<and> setPosition (m_position ba) ba1 = Inr ba2 \<longrightarrow>
            drop (m_position ba) (contents ba2) = butlast (leb128 (unat v)) \<and>
            readUint32 pf ba2 = Inl Out_of_range) \<and>
         (writeUint64 pf w ba = Inr ba1 \<and> setPosition (m_position ba) ba1 = Inr ba2 \<longrightarrow>
            drop (m_position ba) (contents ba2) = butlast (leb128 (unat w)) \<and>
            readUint64 pf ba2 = Inl Out_of_range)"
proof (intro conjI impI)
  assume w: "writeUint32 pf v ba = Inr ba1 \<and> setPosition (m_position ba) ba1 = Inr ba2"
  then have s: "wf_ba ba2" "m_position ba2 = m_position ba"
      "drop (m_position ba2) (contents ba2) = varint32 v"
    using append_seek [OF assms, of pf "varint32 v" ba1 ba2] by (auto simp: writeUint32_def)
  show "drop (m_position ba) (contents ba2) = butlast (leb128 (unat v))"
    using s by (simp add: varint32_eq)
  show "readUint32 pf ba2 = Inl Out_of_range"
    using varint_loop_unterminated [where 'a=32, OF s(1,3), of 0] varint_continues
      varint_in_stack_array(1) [of v]
    by (auto simp: readUint32_def readUint32_loop_eq varint32_eq)
next
  assume w: "writeUint64 pf w ba = Inr ba1 \<and> setPosition (m_position ba) ba1 = Inr ba2"
  then have s: "wf_ba ba2" "m_position ba2 = m_position ba"
      "drop (m_position ba2) (contents ba2) = varint64 w"
    using append_seek [OF assms, of pf "varint64 w" ba1 ba2] by (auto simp: writeUint64_def)
  show "drop (m_position ba) (contents ba2) = butlast (leb128 (unat w))"
    using s by (simp add: varint64_eq)
  show "readUint64 pf ba2 = Inl Out_of_range"
    using varint_loop_unterminated [where 'a=64, OF s(1,3), of 0] varint_continues
      varint_in_stack_array(2) [of w]
    by (auto simp: readUint64_def readUint64_loop_eq varint64_eq)
qed

theorem varint_writers_truncate_witness:
  "\<exists>ba1 ba2. writeUint32 a_host 300 (ByteArray a_host 2) = Inr ba1 \<and> setPosition 0 ba1 = Inr ba2 \<and>
     contents ba2 = [0xAC] \<and> readUint32 a_host ba2 = Inl Out_of_range"
proof -
  let ?ba = "ByteArray a_host 2"
  have s: "wf_ba ?ba" "ready ?ba" "m_position ?ba = 0" "m_size ?ba = 0"
    by (simp_all add: wf_ready_new) (simp_all add: ByteArray_def)
  have bytes: "butlast (leb128 (unat (300 :: u32))) = [0xAC]"
    by (simp add: leb128_big leb128_small)
  have v: "varint32 300 = [0xAC]"
    unfolding varint32_eq by (rule bytes)
  obtain ba1 where ba1: "writeUint32 a_host 300 ?ba = Inr ba1" "wf_ba ba1" "m_size ba1 = 1"
    using write_buf_ready [OF s(1,2), of a_host "[0xAC]"] s(3,4)
    by (auto simp: writeUint32_def v)
  then obtain ba2 where ba2: "setPosition 0 ba1 = Inr ba2"
    by (auto simp: setPosition_eq wf_ba_def)
  then show ?thesis
    using varint_writers_truncate [of ?ba a_host 300 ba1 ba2] s ba1(1) bytes by simp
qed

text \<open>The \<^verbatim>\<open>iovec\<close>s for a gathering write stay inside their nodes, have no empty entry, add up to
  the number of bytes returned, and hold, in order, the next bytes to read.\<close>

theorem getReadBuffers_gathers:
  assumes "wf_ba ba"
  shows "\<exists>vs. getReadBuffers len ba = Inr (min len (m_size ba - m_position ba), vs) \<and>
           gather (m_nodes ba) vs = take len (drop (m_position ba) (contents ba)) \<and>
           sum_list (map iov_len vs) = min len (m_size ba - m_position ba) \<and>
           (\<forall>v \<in> set vs. iov_valid (m_nodes ba) v)"
  by (rule getReadBuffers_eq [OF assms])

theorem getReadBuffers_gathers_witness:
  "\<exists>vs. getReadBuffers 3 varint_buffer = Inr (3, vs) \<and>
     gather (m_nodes varint_buffer) vs = [0xAC, 0x02, 9]"
  using getReadBuffers_gathers [of varint_buffer 3]
  by (auto simp: varint_buffer_def wf_ba_def cursor_at_def contents_def flat_def)

text \<open>\<^verbatim>\<open>writeToFile\<close> puts exactly the unread bytes into the file when the position is at a node
  boundary, when nothing is unread, or when a whole node's size is unread; in all other cases it
  computes a negative count or runs off the chain.\<close>

theorem writeToFile_outcome:
  assumes "wf_ba ba"
  shows "if m_position ba mod m_baseSize ba = 0 \<or> m_position ba = m_size ba \<or>
            m_baseSize ba \<le> m_size ba - m_position ba
         then writeToFile True ba = Inr (True, drop (m_position ba) (contents ba))
         else (\<exists>e. writeToFile True ba = Inl e)"
  using writeToFile_eq [OF assms] by auto

theorem writeToFile_outcome_witness:
  "writeToFile True varint_buffer = Inr (True, [0xAC, 0x02, 9])"
  using writeToFile_outcome [of varint_buffer]
  by (simp add: varint_buffer_def wf_ba_def cursor_at_def contents_def flat_def)

text \<open>\<^verbatim>\<open>readFromFile\<close> ends on every file, and what it leaves in a ready buffer is the whole file
  written at the position.\<close>

theorem readFromFile_appends:
  assumes "wf_ba ba" and "ready ba"
  shows "\<exists>ba'. readFromFile pf (Some bs) ba = Some (Inr (True, ba')) \<and> wf_ba ba' \<and>
           abs_ba ba' = spec_write bs (abs_ba ba)"
  using read_file_loop_appends [OF assms, of pf bs] by (auto simp: readFromFile_def)

theorem readFromFile_appends_witness:
  "\<exists>ba'. readFromFile a_host (Some [1, 2, 3]) (ByteArray a_host 2) = Some (Inr (True, ba')) \<and>
     abs_ba ba' = ([1, 2, 3], 3)"
  using readFromFile_appends [of "ByteArray a_host 2" a_host "[1, 2, 3]"]
  by (auto simp: wf_ready_new abs_ba_new spec_write_def overwrite_def numeral_3_eq_3)

section \<open>Strings and floating point\<close>

text \<open>Two writes in a row are one write of the concatenation.\<close>

lemma write_string_ready:
  assumes wf: "wf_ba ba" and rdy: "ready ba"
    and p: "write_fixed pf (of_nat (length str) :: 'a::len word) ba = Inr ba1"
    and s: "write_buf pf str ba1 = Inr ba2" and dv: "8 dvd LENGTH('a)"
  shows "wf_ba ba2 \<and> ready ba2 \<and> m_endian ba2 = m_endian ba \<and>
    contents ba2 = overwrite (m_position ba)
      (mem_bytes (m_endian ba) (of_nat (length str) :: 'a word) @ str) (contents ba) \<and>
    m_size ba2 = max (m_size ba) (m_position ba + LENGTH('a) div 8 + length str)"
proof -
  let ?h = "mem_bytes (m_endian ba) (of_nat (length str) :: 'a word)"
  have s1: "wf_ba ba1 \<and> ready ba1 \<and> m_endian ba1 = m_endian ba \<and>
      abs_ba ba1 = spec_write ?h (abs_ba ba) \<and>
      m_size ba1 = max (m_size ba) (m_position ba + length ?h)"
    using write_buf_ready [OF wf rdy, of pf ?h] p write_fixed_eq [OF dv] by auto
  then have s2: "wf_ba ba2 \<and> ready ba2 \<and> m_endian ba2 = m_endian ba1 \<and>
      abs_ba ba2 = spec_write str (abs_ba ba1) \<and>
      m_size ba2 = max (m_size ba1) (m_position ba1 + length str)"
    using write_buf_ready [of ba1 pf str] s by auto
  have "m_position ba \<le> length (contents ba)"
    using wf by (simp add: wf_ba_def length_contents)
  then show ?thesis
    using s1 s2 overwrite_overwrite_grow [of "m_position ba" "contents ba" ?h str]
    by (auto simp: abs_ba_def spec_write_def)
qed

lemma string_roundtrip:
  assumes wf: "wf_ba ba" and rdy: "ready ba" and dv: "8 dvd LENGTH('a)"
    and fits: "length str < 2 ^ LENGTH('a)" and max: "length str \<le> string_max pf'"
  shows "\<exists>ba1 ba2. rbind (write_fixed pf (of_nat (length str) :: 'a::len word) ba) (write_buf pf str) = Inr ba1 \<and>
      setPosition (m_position ba) ba1 = Inr ba2 \<and>
      (if str = [] \<and> m_position ba + LENGTH('a) div 8 = m_capacity ba1
       then rbind (readTemplate pf' ba2) (\<lambda>(len :: 'a word, ba'). read_string_tail pf' (unat len) ba') = Inl Bad_deref
       else \<exists>ba3. rbind (readTemplate pf' ba2) (\<lambda>(len :: 'a word, ba'). read_string_tail pf' (unat len) ba') = Inr (str, ba3))"
proof -
  let ?len = "of_nat (length str) :: 'a word" and ?p = "m_position ba" and ?w = "LENGTH('a) div 8"
  let ?h = "mem_bytes (m_endian ba) ?len"
  have w: "0 < ?w" by (rule byte_width_pos [OF dv])
  obtain ba0 where ba0: "write_fixed pf ?len ba = Inr ba0" "wf_ba ba0" "ready ba0"
    using write_buf_ready [OF wf rdy, of pf ?h] write_fixed_eq [OF dv] by auto
  obtain ba1 where ba1: "write_buf pf str ba0 = Inr ba1"
    using write_buf_ready [OF ba0(2,3), of pf str] by auto
  have s1: "wf_ba ba1" "m_endian ba1 = m_endian ba"
      "contents ba1 = overwrite ?p (?h @ str) (contents ba)"
      "m_size ba1 = max (m_size ba) (?p + ?w + length str)"
    using write_string_ready [OF wf rdy ba0(1) ba1 dv] by auto
  have lt: "?p < m_size ba1" "m_size ba1 \<le> m_capacity ba1"
    using s1(1,4) w by (auto simp: wf_ba_def)
  then obtain ba2 where ba2: "setPosition ?p ba1 = Inr ba2"
    by (auto simp: setPosition_eq [OF s1(1)])
  have s2: "wf_ba ba2" "m_position ba2 = ?p" "m_size ba2 = m_size ba1" "contents ba2 = contents ba1"
      "m_capacity ba2 = m_capacity ba1" "m_endian ba2 = m_endian ba"
    using wf_setPosition [OF s1(1) ba2] lt s1(2) by (auto simp: contents_def max_absorb1)
  have "?p \<le> length (contents ba)"
    using wf by (simp add: wf_ba_def length_contents)
  then have "drop (m_position ba2) (contents ba2) =
      mem_bytes (m_endian ba2) ?len @ str @ drop (?p + length (?h @ str)) (contents ba)"
    by (simp add: s2 s1(3) overwrite_def)
  from readTemplate_prefix [OF s2(1) dv this, of pf']
  obtain ba3 where ba3: "readTemplate pf' ba2 = Inr (?len, ba3)" "wf_ba ba3"
      "contents ba3 = contents ba2" "m_position ba3 = ?p + ?w"
      "drop (m_position ba3) (contents ba3) = str @ drop (?p + length (?h @ str)) (contents ba)"
    unfolding s2(2) by blast
  have cap: "m_capacity ba3 = m_capacity ba1" "m_size ba3 = m_size ba1"
  proof -
    obtain bs where "read_buf ?w ba2 = Inr (bs, ba3)"
      using ba3(1) unfolding readTemplate_def rbind_eq_Inr by (auto simp: Let_def)
    then show "m_capacity ba3 = m_capacity ba1" "m_size ba3 = m_size ba1"
      by (auto simp: read_buf_eq [OF s2(1)] s2 split: if_splits)
  qed
  have ulen: "unat ?len = length str"
    using fits by (simp add: unat_of_nat)
  have tail: "rbind (readTemplate pf' ba2) (\<lambda>(len :: 'a word, ba'). read_string_tail pf' (unat len) ba') =
      read_buf (length str) ba3"
    using max by (simp add: ba3(1) ulen read_string_tail_def)
  have "\<not> m_size ba3 < m_position ba3 + length str"
    using s1(4) cap ba3(4) by simp
  moreover have "m_position ba3 = m_capacity ba3 \<Longrightarrow> str = []"
    using s1(4) lt(2) cap ba3(4) by (cases str) auto
  ultimately have "if str = [] \<and> ?p + ?w = m_capacity ba1 then read_buf (length str) ba3 = Inl Bad_deref
      else \<exists>ba4. read_buf (length str) ba3 = Inr (str, ba4)"
    using ba3(4,5) cap by (auto simp: read_buf_eq [OF ba3(2)])
  then show ?thesis
    unfolding tail [symmetric] using ba0(1) ba1 ba2 by (intro exI [of _ ba1] exI [of _ ba2]) simp
qed

text \<open>A string written with a two-byte length prefix and read back after a seek is the same
  string, if its length fits the prefix; the exception is the empty string whose prefix ends a
  full buffer, where the reader dereferences the null cursor.\<close>

theorem stringF16_roundtrip:
  assumes "wf_ba ba" and "ready ba" and "length str < 65536" and "length str \<le> string_max pf'"
  shows "\<exists>ba1 ba2. writeStringF16 pf str ba = Inr ba1 \<and> setPosition (m_position ba) ba1 = Inr ba2 \<and>
           (if str = [] \<and> m_position ba + 2 = m_capacity ba1 then readStringF16 pf' ba2 = Inl Bad_deref
            else (\<exists>ba3. readStringF16 pf' ba2 = Inr (str, ba3)))"
proof -
  have w: "8 dvd LENGTH(16)" "LENGTH(16) div 8 = 2" and l: "length str < 2 ^ LENGTH(16)"
    using assms(3) by simp_all
  show ?thesis
    using string_roundtrip [where 'a=16, OF assms(1,2) w(1) l assms(4), of pf]
    unfolding w(2) writeStringF16_def writeFuint16_def readStringF16_def readFuint16_def .
qed

theorem stringF16_roundtrip_witness:
  "\<exists>ba1 ba2 ba3. writeStringF16 a_host [72, 105] (ByteArray a_host 3) = Inr ba1 \<and>
     setPosition 0 ba1 = Inr ba2 \<and> readStringF16 a_host ba2 = Inr ([72, 105], ba3)"
proof -
  have "m_position (ByteArray a_host 3) = 0" by (simp add: ByteArray_def)
  moreover have "string_max a_host = 100" by (simp add: a_host_def)
  ultimately show ?thesis
    using stringF16_roundtrip [of "ByteArray a_host 3" "[72, 105]" a_host a_host]
    by (simp add: wf_ready_new)
qed

end
