(* ===== verification/Ordered_Set.thy ===== *)
theory Ordered_Set
  imports Prelude
begin

text \<open>
  \<^verbatim>\<open>std::set\<close> with a comparator, as its traversal in order: the list of its elements. Searching and
  inserting compare with the comparator only, as the tree does. The locale \<open>ordered_set\<close> is what
  the container asks of a comparator, a strict total order, and what it promises in return.
\<close>

section \<open>The operations\<close>

definition set_lower_bound :: "('a \<Rightarrow> 'a \<Rightarrow> bool) \<Rightarrow> 'a \<Rightarrow> 'a list \<Rightarrow> 'a list" where
  "set_lower_bound lt k xs = dropWhile (\<lambda>x. lt x k) xs"

text \<open>\<^verbatim>\<open>find(k) != end()\<close>: the lower bound exists and is not greater than \<open>k\<close>.\<close>

definition set_has :: "('a \<Rightarrow> 'a \<Rightarrow> bool) \<Rightarrow> 'a \<Rightarrow> 'a list \<Rightarrow> bool" where
  "set_has lt k xs = (case set_lower_bound lt k xs of [] \<Rightarrow> False | x # _ \<Rightarrow> \<not> lt k x)"

definition set_erase :: "('a \<Rightarrow> 'a \<Rightarrow> bool) \<Rightarrow> 'a \<Rightarrow> 'a list \<Rightarrow> 'a list" where
  "set_erase lt k xs = takeWhile (\<lambda>x. lt x k) xs @ tl (set_lower_bound lt k xs)"

definition set_insert :: "('a \<Rightarrow> 'a \<Rightarrow> bool) \<Rightarrow> 'a \<Rightarrow> 'a list \<Rightarrow> 'a list" where
  "set_insert lt k xs =
     (if set_has lt k xs then xs
      else takeWhile (\<lambda>x. lt x k) xs @ k # set_lower_bound lt k xs)"

text \<open>The comparisons the operations make are those of the elements with the key.\<close>

lemma set_insert_cong:
  "(\<And>x. x \<in> set xs \<Longrightarrow> lt x k = lt' x k \<and> lt k x = lt' k x) \<Longrightarrow>
    set_insert lt k xs = set_insert lt' k xs"
proof -
  assume eq: "\<And>x. x \<in> set xs \<Longrightarrow> lt x k = lt' x k \<and> lt k x = lt' k x"
  then have drop: "dropWhile (\<lambda>x. lt x k) xs = dropWhile (\<lambda>x. lt' x k) xs"
      and take: "takeWhile (\<lambda>x. lt x k) xs = takeWhile (\<lambda>x. lt' x k) xs"
    by (auto intro!: dropWhile_cong takeWhile_cong)
  have "set_has lt k xs = set_has lt' k xs"
  proof (cases "dropWhile (\<lambda>x. lt' x k) xs")
    case Nil
    show ?thesis unfolding set_has_def set_lower_bound_def drop Nil by simp
  next
    case (Cons y ys)
    then have "y \<in> set xs"
      by (metis list.set_intros(1) set_dropWhileD)
    then show ?thesis
      using eq unfolding set_has_def set_lower_bound_def drop Cons by simp
  qed
  then show ?thesis
    using drop take by (simp add: set_insert_def set_lower_bound_def)
qed

section \<open>The contract\<close>

locale ordered_set =
  fixes lt :: "'a \<Rightarrow> 'a \<Rightarrow> bool"
  assumes irrefl: "\<not> lt x x"
    and trans: "lt x y \<Longrightarrow> lt y z \<Longrightarrow> lt x z"
    and total: "lt x y \<or> x = y \<or> lt y x"
begin

lemma asym: "lt x y \<Longrightarrow> \<not> lt y x"
  using irrefl trans by blast

text \<open>In a sorted list the elements before the key come first.\<close>

lemma lower_bound_filter:
  "sorted_wrt lt xs \<Longrightarrow>
    takeWhile (\<lambda>x. lt x k) xs = filter (\<lambda>x. lt x k) xs \<and>
    set_lower_bound lt k xs = filter (\<lambda>x. \<not> lt x k) xs"
proof (induction xs)
  case Nil
  then show ?case by (simp add: set_lower_bound_def)
next
  case (Cons x xs)
  then have "\<not> lt x k \<Longrightarrow> \<forall>y \<in> set xs. \<not> lt y k"
    using trans by auto
  then show ?case
    using Cons by (auto simp: set_lower_bound_def filter_empty_conv [symmetric] intro: filter_True [symmetric])
qed

lemma has_iff: "sorted_wrt lt xs \<Longrightarrow> set_has lt k xs \<longleftrightarrow> k \<in> set xs"
proof
  assume s: "sorted_wrt lt xs"
  have lb: "set_lower_bound lt k xs = filter (\<lambda>x. \<not> lt x k) xs"
    using lower_bound_filter [OF s] by blast
  { assume "set_has lt k xs"
    then obtain x ys where x: "filter (\<lambda>x. \<not> lt x k) xs = x # ys" "\<not> lt k x"
      by (auto simp: set_has_def lb split: list.splits)
    have "x \<in> set (filter (\<lambda>x. \<not> lt x k) xs)"
      unfolding x(1) by simp
    then have "x \<in> set xs" "\<not> lt x k" by simp_all
    then show "k \<in> set xs" using total [of x k] x(2) by auto }
  { assume k: "k \<in> set xs"
    then have mem: "k \<in> set (filter (\<lambda>x. \<not> lt x k) xs)" using irrefl by simp
    have sorted: "sorted_wrt lt (filter (\<lambda>x. \<not> lt x k) xs)"
      using s by (rule sorted_wrt_filter)
    show "set_has lt k xs"
    proof (cases "filter (\<lambda>x. \<not> lt x k) xs")
      case Nil
      with mem show ?thesis by (simp only: list.set empty_iff)
    next
      case (Cons y ys)
      then have "k = y \<or> lt y k"
        using mem sorted unfolding Cons by auto
      then show ?thesis
        using irrefl asym by (auto simp: set_has_def lb Cons)
    qed }
qed

lemma sorted_insert: "sorted_wrt lt xs \<Longrightarrow> sorted_wrt lt (set_insert lt k xs)"
proof -
  assume s: "sorted_wrt lt xs"
  show ?thesis
  proof (cases "set_has lt k xs")
    case True
    then show ?thesis using s by (simp add: set_insert_def)
  next
    case False
    then have k: "k \<notin> set xs" using has_iff [OF s] by blast
    have "\<And>x y. x \<in> set xs \<Longrightarrow> y \<in> set xs \<Longrightarrow> lt x k \<Longrightarrow> \<not> lt y k \<Longrightarrow> lt x y"
      using total trans k by (metis)
    moreover have "\<And>y. y \<in> set xs \<Longrightarrow> \<not> lt y k \<Longrightarrow> lt k y"
      using total k by metis
    ultimately show ?thesis
      using s False lower_bound_filter [OF s, of k]
      by (auto simp: set_insert_def sorted_wrt_append sorted_wrt_filter)
  qed
qed

lemma set_insert: "sorted_wrt lt xs \<Longrightarrow> set (set_insert lt k xs) = insert k (set xs)"
  using lower_bound_filter [of xs k] has_iff [of xs k] by (auto simp: set_insert_def)

lemma erase_eq: "sorted_wrt lt xs \<Longrightarrow> k \<in> set xs \<Longrightarrow> set_erase lt k xs = filter (\<lambda>x. x \<noteq> k) xs"
proof (induction xs)
  case (Cons x xs)
  show ?case
  proof (cases "x = k")
    case True
    then have "k \<notin> set xs" using Cons(2) irrefl by auto
    then show ?thesis
      using True irrefl by (auto simp: set_erase_def set_lower_bound_def intro: filter_True [symmetric])
  next
    case False
    then have "k \<in> set xs" "lt x k" using Cons(2,3) by auto
    then show ?thesis
      using Cons False by (simp add: set_erase_def set_lower_bound_def)
  qed
qed simp

lemma distinct: "sorted_wrt lt xs \<Longrightarrow> distinct xs"
  by (induction xs) (auto simp: irrefl)

lemma insert_front:
  "sorted_wrt lt xs \<Longrightarrow> k \<notin> set xs \<Longrightarrow>
    hd (set_insert lt k xs) = k \<longleftrightarrow> (\<forall>x \<in> set xs. lt k x)"
proof -
  assume s: "sorted_wrt lt xs" and k: "k \<notin> set xs"
  then have "set_insert lt k xs = filter (\<lambda>x. lt x k) xs @ k # filter (\<lambda>x. \<not> lt x k) xs"
    using lower_bound_filter [OF s, of k] has_iff [OF s] by (simp add: set_insert_def)
  moreover have "hd (filter (\<lambda>x. lt x k) xs @ k # ys) = k \<longleftrightarrow> filter (\<lambda>x. lt x k) xs = []" for ys
    using k by (cases "filter (\<lambda>x. lt x k) xs") (auto dest!: filter_eq_ConsD)
  ultimately show ?thesis
    using total k asym by (auto simp: filter_empty_conv)
qed

end

end
