(* ===== verification/Timer_Source.thy ===== *)
theory Timer_Source
  imports Prelude
begin

text \<open>
  What the event loop relies on in a timer manager: how long it may sleep (\<open>wait\<close>) and what is
  due when it wakes up (\<open>expire\<close>). A wait of 0 stands both for no timer and for a timer that is
  already due, as \<^verbatim>\<open>TimerManager::getNextTimer\<close> has it.
\<close>

locale timer_source =
  fixes pending :: "'s \<Rightarrow> 'k set"
    and deadline :: "'s \<Rightarrow> 'k \<Rightarrow> u64"
    and inv :: "'s \<Rightarrow> bool"
    and wait :: "u64 \<Rightarrow> 's \<Rightarrow> u64 \<times> 's"
    and expire :: "u64 \<Rightarrow> 's \<Rightarrow> 'c list \<times> 's"
  assumes fin: "inv s \<Longrightarrow> finite (pending s)"
    and wait_keeps: "inv s \<Longrightarrow> inv (snd (wait now s)) \<and> pending (snd (wait now s)) = pending s \<and>
           deadline (snd (wait now s)) = deadline s"
    and wait_none: "inv s \<Longrightarrow> pending s = {} \<Longrightarrow> fst (wait now s) = 0"
    and wait_due: "inv s \<Longrightarrow> k \<in> pending s \<Longrightarrow> deadline s k \<le> now \<Longrightarrow> fst (wait now s) = 0"
    and wait_first: "inv s \<Longrightarrow> pending s \<noteq> {} \<Longrightarrow> \<forall>k \<in> pending s. now < deadline s k \<Longrightarrow>
           \<exists>k \<in> pending s. fst (wait now s) = deadline s k - now \<and>
             (\<forall>k' \<in> pending s. deadline s k \<le> deadline s k')"
    and expire_count: "inv s \<Longrightarrow>
           length (fst (expire now s)) = card {k \<in> pending s. deadline s k \<le> now}"
    and expire_inv: "inv s \<Longrightarrow> inv (snd (expire now s))"
begin

lemma expire_empty: "inv s \<Longrightarrow> fst (expire now s) = [] \<longleftrightarrow> (\<forall>k \<in> pending s. now < deadline s k)"
proof -
  assume i: "inv s"
  have "fst (expire now s) = [] \<longleftrightarrow> card {k \<in> pending s. deadline s k \<le> now} = 0"
    using expire_count [OF i, of now] by (metis length_0_conv)
  also have "\<dots> \<longleftrightarrow> (\<forall>k \<in> pending s. now < deadline s k)"
    using fin [OF i] by (auto simp: not_le)
  finally show ?thesis .
qed

lemma word_add_diff_below:
  fixes a b d :: u64
  assumes "a < b" and "d < b - a"
  shows "a + d < b"
proof -
  have u: "unat a < unat b" using assms(1) by (simp add: word_less_nat_alt)
  have "unat (b - a) = unat b - unat a"
    using assms(1) by (simp add: unat_sub less_imp_le)
  then have d: "unat d < unat b - unat a"
    using assms(2) by (simp add: word_less_nat_alt)
  moreover have "unat b < 2 ^ 64" using unsigned_less [where 'a=nat, of b] by simp
  ultimately have "unat (a + d) = unat a + unat d"
    by (simp add: unat_word_ariths)
  then show ?thesis using d by (simp add: word_less_nat_alt)
qed

text \<open>When nothing is due yet, the wait is exact: nothing is due before it is over, something is then.\<close>

lemma wait_exact:
  assumes i: "inv s" and ne: "pending s \<noteq> {}" and later: "\<forall>k \<in> pending s. now < deadline s k"
    and w: "wait now s = (d, s')"
  shows "d \<noteq> 0" and "fst (expire (now + d) s') \<noteq> []"
    and "e < d \<Longrightarrow> fst (expire (now + e) s') = []"
proof -
  obtain k where k: "k \<in> pending s" "d = deadline s k - now" "\<forall>k' \<in> pending s. deadline s k \<le> deadline s k'"
    using wait_first [OF i ne later] w by auto
  have s': "inv s'" "pending s' = pending s" "deadline s' = deadline s"
    using wait_keeps [OF i, of now] w by auto
  show "d \<noteq> 0" using k(1,2) later by auto
  show "fst (expire (now + d) s') \<noteq> []"
    using k(1,2) by (auto simp: expire_empty [OF s'(1)] s')
  assume e: "e < d"
  have "now + e < deadline s k"
    using word_add_diff_below later k(1,2) e by auto
  then show "fst (expire (now + e) s') = []"
    using k(3) by (auto simp: expire_empty [OF s'(1)] s')
qed

end

end
