(* ===== verification/Timer.thy ===== *)
theory Timer
  imports Ordered_Set Timer_Source
begin

text \<open>
  \<^verbatim>\<open>src/src/timer/timer.{h,cpp}\<close>: one-shot, recurring and conditional timers in a \<^verbatim>\<open>std::set\<close> ordered
  by deadline. A \<^verbatim>\<open>Timer*\<close> is its address, the objects live in the heap of the state, and
  \<^verbatim>\<open>m_timers\<close> is the set in iteration order. The clock is an argument of each operation that
  reads it (\<open>now\<close>, the value of \<^verbatim>\<open>getCurrentMS\<close>), the address of an object that is created is
  another (\<open>a\<close>), and the calls of the virtual \<^verbatim>\<open>flushTimer\<close> are counted. Milliseconds are 64-bit
  words, so that sums and differences wrap around as in the code.

  Every operation is one critical section, or, where the code has two, their sequential
  composition; the locks themselves are not modelled here.
\<close>

section \<open>State\<close>

type_synonym addr = nat

text \<open>
  A callback: a plain \<^verbatim>\<open>std::function\<close>, or the closure \<^verbatim>\<open>addConditionTimer\<close> builds around a weak
  pointer and a function that may be empty.
\<close>

datatype 'c func = Func 'c | CondFunc nat "'c option"

record 'c timer =
  m_recurring :: bool
  m_ms :: u64
  m_next :: u64
  m_cb :: "'c func option"

record 'c timer_manager =
  heap :: "addr \<Rightarrow> 'c timer"
  m_tickled :: bool
  m_prevTime :: u64
  m_timers :: "addr list"
  flushed :: nat

datatype timer_error = Erase_end | Bad_function_call

section \<open>The comparator\<close>

fun Comparator :: "(addr \<Rightarrow> 'c timer) \<Rightarrow> addr option \<Rightarrow> addr option \<Rightarrow> bool" where
  "Comparator h None None = False"
| "Comparator h None (Some r) = False"
| "Comparator h (Some l) None = True"
| "Comparator h (Some l) (Some r) =
     (if m_next (h l) \<noteq> m_next (h r) then m_next (h l) < m_next (h r) else l < r)"

definition before :: "(addr \<Rightarrow> 'c timer) \<Rightarrow> addr \<Rightarrow> addr \<Rightarrow> bool" where
  "before h l r = Comparator h (Some l) (Some r)"

interpretation by_pointer: ordered_set "Comparator h" for h :: "addr \<Rightarrow> 'c timer"
proof
  fix x y z :: "addr option"
  show "\<not> Comparator h x x" by (cases x) auto
  show "Comparator h x z" if "Comparator h x y" "Comparator h y z"
    using that by (cases x; cases y; cases z) (auto split: if_splits)
  show "Comparator h x y \<or> x = y \<or> Comparator h y x"
    by (cases x; cases y) auto
qed

interpretation by_deadline: ordered_set "before h" for h :: "addr \<Rightarrow> 'c timer"
  by unfold_locales (auto simp: before_def split: if_splits)

section \<open>Timers\<close>

text \<open>The two constructors.\<close>

definition new_timer :: "u64 \<Rightarrow> u64 \<Rightarrow> 'c func option \<Rightarrow> bool \<Rightarrow> 'c timer" where
  "new_timer now ms cb recurring =
     \<lparr>m_recurring = recurring, m_ms = ms, m_next = now + ms, m_cb = cb\<rparr>"

definition new_deadline :: "u64 \<Rightarrow> 'c timer" where
  "new_deadline t = \<lparr>m_recurring = False, m_ms = 0, m_next = t, m_cb = None\<rparr>"

definition put_timer :: "addr \<Rightarrow> 'c timer \<Rightarrow> 'c timer_manager \<Rightarrow> 'c timer_manager" where
  "put_timer a t s = s\<lparr>heap := (heap s)(a := t)\<rparr>"

definition cancel :: "addr \<Rightarrow> 'c timer_manager \<Rightarrow> bool \<times> 'c timer_manager" where
  "cancel a s =
     (if m_cb (heap s a) \<noteq> None then
        let s1 = put_timer a ((heap s a)\<lparr>m_cb := None\<rparr>) s
        in (True, if set_has (before (heap s1)) a (m_timers s1)
                  then s1\<lparr>m_timers := set_erase (before (heap s1)) a (m_timers s1)\<rparr> else s1)
      else (False, s))"

definition refresh :: "u64 \<Rightarrow> addr \<Rightarrow> 'c timer_manager \<Rightarrow> timer_error + bool \<times> 'c timer_manager" where
  "refresh now a s =
     (if m_cb (heap s a) = None then Inr (False, s)
      else if set_has (before (heap s)) a (m_timers s) then Inr (False, s)
      else Inl Erase_end)"

definition reset :: "u64 \<Rightarrow> addr \<Rightarrow> u64 \<Rightarrow> bool \<Rightarrow> 'c timer_manager \<Rightarrow> bool \<times> 'c timer_manager" where
  "reset now a ms from_now s =
     (if ms = m_ms (heap s a) \<and> \<not> from_now then (True, s)
      else if m_cb (heap s a) = None then (False, s)
      else if \<not> set_has (before (heap s)) a (m_timers s) then (False, s)
      else let s1 = s\<lparr>m_timers := set_erase (before (heap s)) a (m_timers s)\<rparr>;
               start = (if from_now then now else m_next (heap s a) - m_ms (heap s a))
           in (True, put_timer a ((heap s a)\<lparr>m_ms := ms, m_next := start + ms\<rparr>) s1))"

section \<open>The manager\<close>

definition new_manager :: "(addr \<Rightarrow> 'c timer) \<Rightarrow> 'c timer_manager" where
  "new_manager h = \<lparr>heap = h, m_tickled = False, m_prevTime = 0, m_timers = [], flushed = 0\<rparr>"

definition flushTimer :: "'c timer_manager \<Rightarrow> 'c timer_manager" where
  "flushTimer s = s\<lparr>flushed := Suc (flushed s)\<rparr>"

text \<open>\<^verbatim>\<open>addTimer(Timer::Ptr val, Mutex& lock)\<close>, which the other overload repeats after \<^verbatim>\<open>new\<close>.\<close>

definition addTimer_ptr :: "addr \<Rightarrow> 'c timer_manager \<Rightarrow> 'c timer_manager" where
  "addTimer_ptr a s =
     (let s1 = s\<lparr>m_timers := set_insert (before (heap s)) a (m_timers s)\<rparr>;
          at_front = (hd (m_timers s1) = a)
      in if at_front then flushTimer s1 else s1)"

definition addTimer ::
  "u64 \<Rightarrow> addr \<Rightarrow> u64 \<Rightarrow> 'c func option \<Rightarrow> bool \<Rightarrow> 'c timer_manager \<Rightarrow> 'c timer_manager" where
  "addTimer now a ms cb recurring s =
     addTimer_ptr a (put_timer a (new_timer now ms cb recurring) s)"

definition addConditionTimer ::
  "u64 \<Rightarrow> addr \<Rightarrow> u64 \<Rightarrow> 'c option \<Rightarrow> nat \<Rightarrow> bool \<Rightarrow> 'c timer_manager \<Rightarrow> 'c timer_manager" where
  "addConditionTimer now a ms cb cond recurring s =
     addTimer now a ms (Some (CondFunc cond cb)) recurring s"

text \<open>Calling a callback: the functions that run, given which objects are alive.\<close>

definition TimerCondCheck :: "(nat \<Rightarrow> bool) \<Rightarrow> nat \<Rightarrow> 'c option \<Rightarrow> timer_error + 'c list" where
  "TimerCondCheck alive cond cb =
     (if alive cond then (case cb of None \<Rightarrow> Inl Bad_function_call | Some f \<Rightarrow> Inr [f]) else Inr [])"

fun run_func :: "(nat \<Rightarrow> bool) \<Rightarrow> 'c func \<Rightarrow> timer_error + 'c list" where
  "run_func alive (Func f) = Inr [f]"
| "run_func alive (CondFunc cond cb) = TimerCondCheck alive cond cb"

definition getNextTimer :: "u64 \<Rightarrow> 'c timer_manager \<Rightarrow> u64 \<times> 'c timer_manager" where
  "getNextTimer now s =
     (let s1 = s\<lparr>m_tickled := False\<rparr>
      in case m_timers s1 of [] \<Rightarrow> (0, s1)
         | nxt # _ \<Rightarrow> if now \<le> m_next (heap s1 nxt) then (m_next (heap s1 nxt) - now, s1) else (0, s1))"

text \<open>The \<^verbatim>\<open>for\<close> loop over the expired timers, which collects the callbacks.\<close>

primrec expire_loop ::
  "u64 \<Rightarrow> addr list \<Rightarrow> 'c timer_manager \<Rightarrow> 'c func option list \<times> 'c timer_manager" where
  "expire_loop now [] s = ([], s)"
| "expire_loop now (a # as) s =
     (let cb = m_cb (heap s a);
          s' = (if m_recurring (heap s a)
                then let s1 = put_timer a ((heap s a)\<lparr>m_next := now + m_ms (heap s a)\<rparr>) s
                     in s1\<lparr>m_timers := set_insert (before (heap s1)) a (m_timers s1)\<rparr>
                else put_timer a ((heap s a)\<lparr>m_cb := None\<rparr>) s);
          (cbs, s'') = expire_loop now as s'
      in (cb # cbs, s''))"

text \<open>\<open>c\<close> is the address of the temporary \<^verbatim>\<open>cur_timer\<close> that carries the current time.\<close>

definition listExpiredCb ::
  "u64 \<Rightarrow> addr \<Rightarrow> 'c timer_manager \<Rightarrow> 'c func option list \<times> 'c timer_manager" where
  "listExpiredCb now c s =
     (if m_timers s = [] then ([], s)
      else let h = (heap s)(c := new_deadline now);
               skipped = set_lower_bound (before h) c (m_timers s);
               rest = dropWhile (\<lambda>a. m_next (h a) = now) skipped;
               expired = take (length (m_timers s) - length rest) (m_timers s)
           in expire_loop now expired (s\<lparr>m_timers := rest\<rparr>))"

definition detectClockRollover :: "u64 \<Rightarrow> 'c timer_manager \<Rightarrow> bool \<times> 'c timer_manager" where
  "detectClockRollover now_ms s =
     (let rollover = (now_ms < m_prevTime s \<and> now_ms < m_prevTime s - 60 * 60 * 1000)
      in (rollover, s\<lparr>m_prevTime := now_ms\<rparr>))"

definition hasTimer :: "'c timer_manager \<Rightarrow> bool" where
  "hasTimer s \<longleftrightarrow> m_timers s \<noteq> []"

section \<open>The invariant\<close>

text \<open>
  The set is ordered by the deadlines now in the heap, and a timer in it has its callback: the
  operations take a timer out before they change its deadline or clear its callback.
\<close>

definition tm_inv :: "'c timer_manager \<Rightarrow> bool" where
  "tm_inv s \<longleftrightarrow> sorted_wrt (before (heap s)) (m_timers s) \<and>
     (\<forall>a \<in> set (m_timers s). m_cb (heap s a) \<noteq> None)"

lemma tm_inv_new: "tm_inv (new_manager h)"
  by (simp add: tm_inv_def new_manager_def)

lemma put_timer_simps [simp]:
  "heap (put_timer a t s) = (heap s)(a := t)"
  "m_timers (put_timer a t s) = m_timers s"
  "flushed (put_timer a t s) = flushed s"
  "m_prevTime (put_timer a t s) = m_prevTime s"
  by (simp_all add: put_timer_def)

lemma sorted_before_upd:
  "a \<notin> set xs \<Longrightarrow> sorted_wrt (before (h(a := t))) xs = sorted_wrt (before h) xs"
  by (induction xs) (auto simp: before_def)

lemma sorted_before_cb:
  "m_next t = m_next (h a) \<Longrightarrow> before (h(a := t)) = before h"
  by (auto simp: fun_eq_iff before_def)

lemma tm_inv_distinct: "tm_inv s \<Longrightarrow> distinct (m_timers s)"
  by (auto simp: tm_inv_def intro: by_deadline.distinct)

lemma tm_inv_has: "tm_inv s \<Longrightarrow> set_has (before (heap s)) a (m_timers s) \<longleftrightarrow> a \<in> set (m_timers s)"
  by (simp add: tm_inv_def by_deadline.has_iff)

text \<open>Inserting an object that is not in the set.\<close>

lemma insert_timer:
  assumes "tm_inv s" and "a \<notin> set (m_timers s)" and "m_cb t \<noteq> None"
  shows "tm_inv (s\<lparr>heap := (heap s)(a := t),
             m_timers := set_insert (before ((heap s)(a := t))) a (m_timers s)\<rparr>)"
    and "set (set_insert (before ((heap s)(a := t))) a (m_timers s)) = insert a (set (m_timers s))"
proof -
  have s: "sorted_wrt (before ((heap s)(a := t))) (m_timers s)"
    using assms by (simp add: tm_inv_def sorted_before_upd)
  show set: "set (set_insert (before ((heap s)(a := t))) a (m_timers s)) = insert a (set (m_timers s))"
    by (rule by_deadline.set_insert [OF s])
  show "tm_inv (s\<lparr>heap := (heap s)(a := t),
             m_timers := set_insert (before ((heap s)(a := t))) a (m_timers s)\<rparr>)"
    using assms by_deadline.sorted_insert [OF s, of a] by (auto simp: tm_inv_def set)
qed

lemma addTimer_inv:
  assumes "tm_inv s" and "a \<notin> set (m_timers s)" and "cb \<noteq> None"
  shows "tm_inv (addTimer now a ms cb rec s)"
    and "set (m_timers (addTimer now a ms cb rec s)) = insert a (set (m_timers s))"
    and "heap (addTimer now a ms cb rec s) = (heap s)(a := new_timer now ms cb rec)"
  using insert_timer [OF assms(1,2), of "new_timer now ms cb rec"] assms(3)
  by (auto simp: addTimer_def addTimer_ptr_def flushTimer_def Let_def tm_inv_def new_timer_def put_timer_def)

lemma tm_inv_erase:
  "tm_inv s \<Longrightarrow> tm_inv (s\<lparr>m_timers := filter P (m_timers s)\<rparr>)"
  by (auto simp: tm_inv_def sorted_wrt_filter)

lemma tm_inv_put:
  "tm_inv s \<Longrightarrow> a \<notin> set (m_timers s) \<Longrightarrow> tm_inv (put_timer a t s)"
  by (auto simp: tm_inv_def sorted_before_upd)

lemma tm_inv_take_out:
  "tm_inv s \<Longrightarrow> tm_inv ((put_timer a t s)\<lparr>m_timers := filter (\<lambda>x. x \<noteq> a) (m_timers s)\<rparr>)"
  by (auto simp: tm_inv_def sorted_wrt_filter sorted_before_upd)

lemma filter_neq_absent: "a \<notin> set xs \<Longrightarrow> filter (\<lambda>x. x \<noteq> a) xs = xs"
  by (induction xs) auto

lemma cancel_eq:
  assumes inv: "tm_inv s" and cb: "m_cb (heap s a) \<noteq> None"
  shows "cancel a s = (True, (put_timer a ((heap s a)\<lparr>m_cb := None\<rparr>) s)
           \<lparr>m_timers := filter (\<lambda>x. x \<noteq> a) (m_timers s)\<rparr>)"
proof -
  let ?h = "(heap s)(a := (heap s a)\<lparr>m_cb := None\<rparr>)"
  have same: "before ?h = before (heap s)"
    by (rule sorted_before_cb) simp
  have s: "sorted_wrt (before (heap s)) (m_timers s)"
    using inv by (simp add: tm_inv_def)
  show ?thesis
  proof (cases "a \<in> set (m_timers s)")
    case True
    then show ?thesis
      using cb by (simp add: cancel_def same by_deadline.has_iff [OF s] by_deadline.erase_eq [OF s])
  next
    case False
    then show ?thesis
      using cb by (simp add: cancel_def same by_deadline.has_iff [OF s] filter_neq_absent put_timer_def)
  qed
qed

lemma cancel_inv:
  assumes inv: "tm_inv s"
  shows "tm_inv (snd (cancel a s))"
  using tm_inv_take_out [OF inv, of a] inv
  by (cases "m_cb (heap s a) = None") (auto simp: cancel_eq [OF inv], simp add: cancel_def)

lemma reset_eq:
  assumes inv: "tm_inv s"
  shows "reset now a ms from_now s =
    (if ms = m_ms (heap s a) \<and> \<not> from_now then (True, s)
     else if a \<notin> set (m_timers s) then (False, s)
     else (True, (put_timer a ((heap s a)\<lparr>m_ms := ms,
             m_next := (if from_now then now else m_next (heap s a) - m_ms (heap s a)) + ms\<rparr>) s)
                 \<lparr>m_timers := filter (\<lambda>x. x \<noteq> a) (m_timers s)\<rparr>))"
proof -
  have s: "sorted_wrt (before (heap s)) (m_timers s)" and cb: "a \<in> set (m_timers s) \<Longrightarrow> m_cb (heap s a) \<noteq> None"
    using inv by (auto simp: tm_inv_def)
  show ?thesis
    using cb by (auto simp: reset_def Let_def by_deadline.has_iff [OF s] by_deadline.erase_eq [OF s] put_timer_def)
qed

lemma reset_inv:
  assumes inv: "tm_inv s"
  shows "tm_inv (snd (reset now a ms from_now s))"
  using tm_inv_take_out [OF inv, of a] inv by (auto simp: reset_eq [OF inv])

section \<open>Expiry\<close>

text \<open>The two-stage search for the end of the expired timers is a search by deadline.\<close>

lemma before_next: "before h x y \<Longrightarrow> m_next (h x) \<le> m_next (h y)"
  by (auto simp: before_def split: if_splits)

lemma split_by_deadline:
  "sorted_wrt (before h) xs \<Longrightarrow>
    takeWhile (\<lambda>a. m_next (h a) \<le> t) xs = filter (\<lambda>a. m_next (h a) \<le> t) xs \<and>
    dropWhile (\<lambda>a. m_next (h a) \<le> t) xs = filter (\<lambda>a. \<not> m_next (h a) \<le> t) xs"
proof (induction xs)
  case (Cons x xs)
  show ?case
  proof (cases "m_next (h x) \<le> t")
    case True
    then show ?thesis using Cons by simp
  next
    case False
    then have "\<not> m_next (h y) \<le> t" if "y \<in> set xs" for y
      using that Cons(2) before_next [of h x y] by auto
    then show ?thesis
      using False by (simp add: filter_empty_conv filter_id_conv)
  qed
qed simp

lemma skip_deadline:
  assumes "sorted_wrt (before h) xs" and "c \<notin> set xs" and "h' = h(c := new_deadline t)"
  shows "dropWhile (\<lambda>a. m_next (h' a) = t) (set_lower_bound (before h') c xs) =
         dropWhile (\<lambda>a. m_next (h a) \<le> t) xs"
  using assms(1,2)
proof (induction xs)
  case Nil
  then show ?case by (simp add: set_lower_bound_def)
next
  case (Cons x xs)
  have x: "x \<noteq> c" "h' x = h x" "m_next (h' c) = t"
    using Cons(3) assms(3) by (auto simp: new_deadline_def)
  show ?case
  proof (cases "before h' x c")
    case True
    then have "m_next (h x) \<le> t" using before_next [OF True] x by simp
    then show ?thesis using True Cons by (simp add: set_lower_bound_def)
  next
    case False
    then have ge: "t \<le> m_next (h x)" "m_next (h x) = t \<Longrightarrow> \<not> x < c"
      using x by (auto simp: before_def split: if_splits)
    have later: "t \<le> m_next (h y)" "h' y = h y" if "y \<in> set xs" for y
      using that Cons(2,3) before_next [of h x y] ge assms(3) by auto
    have "dropWhile (\<lambda>a. m_next (h' a) = t) xs = dropWhile (\<lambda>a. m_next (h a) \<le> t) xs"
      using later by (intro dropWhile_cong) (auto intro: antisym)
    then show ?thesis
      using False x ge by (auto simp: set_lower_bound_def)
  qed
qed

lemma length_take_complement: "take (length xs - length (dropWhile P xs)) xs = takeWhile P xs"
proof -
  have "length xs = length (takeWhile P xs) + length (dropWhile P xs)"
    by (metis length_append takeWhile_dropWhile_id)
  then show ?thesis
    by (metis add_diff_cancel_right' takeWhile_eq_take)
qed

lemma listExpiredCb_eq:
  assumes inv: "tm_inv s" and c: "c \<notin> set (m_timers s)"
  shows "listExpiredCb now c s =
    expire_loop now (filter (\<lambda>a. m_next (heap s a) \<le> now) (m_timers s))
      (s\<lparr>m_timers := filter (\<lambda>a. \<not> m_next (heap s a) \<le> now) (m_timers s)\<rparr>)"
proof -
  have s: "sorted_wrt (before (heap s)) (m_timers s)"
    using inv by (simp add: tm_inv_def)
  show ?thesis
    unfolding listExpiredCb_def Let_def skip_deadline [OF s c refl] length_take_complement
    using split_by_deadline [OF s, of now] by simp
qed

text \<open>What the loop leaves behind.\<close>

definition rearmed :: "u64 \<Rightarrow> 'c timer \<Rightarrow> 'c timer" where
  "rearmed now t = (if m_recurring t then t\<lparr>m_next := now + m_ms t\<rparr> else t\<lparr>m_cb := None\<rparr>)"

lemma expire_loop_eq:
  assumes "tm_inv s" and "distinct as" and "set as \<inter> set (m_timers s) = {}"
    and "\<forall>a \<in> set as. m_cb (heap s a) \<noteq> None"
  shows "\<exists>s'. expire_loop now as s = (map (\<lambda>a. m_cb (heap s a)) as, s') \<and> tm_inv s' \<and>
           set (m_timers s') = set (m_timers s) \<union> {a \<in> set as. m_recurring (heap s a)} \<and>
           heap s' = (\<lambda>a. if a \<in> set as then rearmed now (heap s a) else heap s a)"
  using assms
proof (induction as arbitrary: s)
  case Nil
  then show ?case by simp
next
  case (Cons a as)
  let ?t = "heap s a"
  define s1 where "s1 = (if m_recurring ?t
      then s\<lparr>heap := (heap s)(a := ?t\<lparr>m_next := now + m_ms ?t\<rparr>),
             m_timers := set_insert (before ((heap s)(a := ?t\<lparr>m_next := now + m_ms ?t\<rparr>))) a (m_timers s)\<rparr>
      else put_timer a (?t\<lparr>m_cb := None\<rparr>) s)"
  have a: "a \<notin> set (m_timers s)" "a \<notin> set as" "m_cb ?t \<noteq> None"
    using Cons.prems by auto
  have ins: "tm_inv (s\<lparr>heap := (heap s)(a := ?t\<lparr>m_next := now + m_ms ?t\<rparr>),
             m_timers := set_insert (before ((heap s)(a := ?t\<lparr>m_next := now + m_ms ?t\<rparr>))) a (m_timers s)\<rparr>)"
      "set (set_insert (before ((heap s)(a := ?t\<lparr>m_next := now + m_ms ?t\<rparr>))) a (m_timers s)) =
       insert a (set (m_timers s))"
    using insert_timer [OF Cons.prems(1) a(1), of "?t\<lparr>m_next := now + m_ms ?t\<rparr>"] a(3) by simp_all
  have s1: "tm_inv s1" "heap s1 = (heap s)(a := rearmed now ?t)"
      "set (m_timers s1) = set (m_timers s) \<union> (if m_recurring ?t then {a} else {})"
    using ins tm_inv_put [OF Cons.prems(1) a(1)] by (auto simp: s1_def rearmed_def)
  have eq: "heap s1 x = heap s x" if "x \<in> set as" for x
    using that a(2) s1(2) by auto
  have "\<exists>s'. expire_loop now as s1 = (map (\<lambda>a. m_cb (heap s1 a)) as, s') \<and> tm_inv s' \<and>
           set (m_timers s') = set (m_timers s1) \<union> {a \<in> set as. m_recurring (heap s1 a)} \<and>
           heap s' = (\<lambda>a. if a \<in> set as then rearmed now (heap s1 a) else heap s1 a)"
    using Cons.prems a(2) s1 eq by (intro Cons.IH) auto
  then obtain s' where s': "expire_loop now as s1 = (map (\<lambda>a. m_cb (heap s a)) as, s')" "tm_inv s'"
      "set (m_timers s') = set (m_timers s1) \<union> {a \<in> set as. m_recurring (heap s a)}"
      "heap s' = (\<lambda>a. if a \<in> set as then rearmed now (heap s a) else heap s1 a)"
    using eq by (auto cong: map_cong conj_cong if_cong)
  have "expire_loop now (a # as) s = (m_cb ?t # map (\<lambda>a. m_cb (heap s a)) as, s')"
    using s'(1) by (simp add: s1_def Let_def put_timer_def split: if_splits)
  then show ?case
    using s'(2-4) s1(2,3) a(2) by (intro exI [of _ s']) (auto simp: fun_eq_iff)
qed

text \<open>One call of \<^verbatim>\<open>listExpiredCb\<close>, whatever address the temporary has.\<close>

lemma listExpiredCb_spec:
  assumes inv: "tm_inv s" and c: "c \<notin> set (m_timers s)"
    and due_def: "due = filter (\<lambda>a. m_next (heap s a) \<le> now) (m_timers s)"
  shows "\<exists>s'. listExpiredCb now c s = (map (\<lambda>a. m_cb (heap s a)) due, s') \<and> tm_inv s' \<and>
           set (m_timers s') = {a \<in> set (m_timers s). now < m_next (heap s a) \<or> m_recurring (heap s a)} \<and>
           heap s' = (\<lambda>a. if a \<in> set due then rearmed now (heap s a) else heap s a)"
proof -
  let ?s = "s\<lparr>m_timers := filter (\<lambda>a. \<not> m_next (heap s a) \<le> now) (m_timers s)\<rparr>"
  have heap_kept: "heap ?s = heap s" by simp
  have "\<exists>s'. expire_loop now due ?s = (map (\<lambda>a. m_cb (heap ?s a)) due, s') \<and> tm_inv s' \<and>
           set (m_timers s') = set (m_timers ?s) \<union> {a \<in> set due. m_recurring (heap ?s a)} \<and>
           heap s' = (\<lambda>a. if a \<in> set due then rearmed now (heap ?s a) else heap ?s a)"
  proof (rule expire_loop_eq)
    show "tm_inv ?s" by (rule tm_inv_erase [OF inv])
    show "distinct due" using tm_inv_distinct [OF inv] by (simp add: due_def)
    show "set due \<inter> set (m_timers ?s) = {}" by (auto simp: due_def)
    show "\<forall>a \<in> set due. m_cb (heap ?s a) \<noteq> None" using inv by (auto simp: due_def tm_inv_def)
  qed
  then obtain s' where "expire_loop now due ?s = (map (\<lambda>a. m_cb (heap s a)) due, s')" "tm_inv s'"
      "set (m_timers s') = set (m_timers ?s) \<union> {a \<in> set due. m_recurring (heap s a)}"
      "heap s' = (\<lambda>a. if a \<in> set due then rearmed now (heap s a) else heap s a)"
    unfolding heap_kept by blast
  moreover have "set (m_timers ?s) \<union> {a \<in> set due. m_recurring (heap s a)} =
      {a \<in> set (m_timers s). now < m_next (heap s a) \<or> m_recurring (heap s a)}"
    by (auto simp: due_def)
  ultimately show ?thesis
    unfolding listExpiredCb_eq [OF inv c] due_def [symmetric] by (intro exI [of _ s'] conjI) simp_all
qed

lemma listExpiredCb_subset:
  assumes "tm_inv s" and "c \<notin> set (m_timers s)"
  shows "set (m_timers (snd (listExpiredCb now c s))) \<subseteq> set (m_timers s)"
  using listExpiredCb_spec [OF assms refl, of now] by (elim exE conjE) (simp add: Collect_mono)

lemma getNextTimer_snd: "snd (getNextTimer now s) = s\<lparr>m_tickled := False\<rparr>"
  by (simp add: getNextTimer_def Let_def split: list.split)

lemma sorted_hd_min:
  assumes "sorted_wrt (before h) (x # xs)" and "y \<in> set (x # xs)"
  shows "m_next (h x) \<le> m_next (h y)"
  using assms before_next [of h x y] by auto

interpretation timers: timer_source "\<lambda>s. set (m_timers s)" "\<lambda>s a. m_next (heap s a)"
    "\<lambda>s. tm_inv s \<and> c \<notin> set (m_timers s)" getNextTimer "\<lambda>now. listExpiredCb now c" for c
proof
  fix s :: "'a timer_manager" and now :: u64 and k
  assume i: "tm_inv s \<and> c \<notin> set (m_timers s)"
  have srt: "sorted_wrt (before (heap s)) (m_timers s)"
    using i by (simp add: tm_inv_def)
  show "finite (set (m_timers s))" by simp
  show "(tm_inv (snd (getNextTimer now s)) \<and> c \<notin> set (m_timers (snd (getNextTimer now s)))) \<and>
      set (m_timers (snd (getNextTimer now s))) = set (m_timers s) \<and>
      (\<lambda>a. m_next (heap (snd (getNextTimer now s)) a)) = (\<lambda>a. m_next (heap s a))"
    using i by (simp add: getNextTimer_snd tm_inv_def)
  show "fst (getNextTimer now s) = 0" if "set (m_timers s) = {}"
    using that by (simp add: getNextTimer_def Let_def)
  show "fst (getNextTimer now s) = 0" if "k \<in> set (m_timers s)" "m_next (heap s k) \<le> now"
  proof (cases "m_timers s")
    case (Cons x xs)
    then have "m_next (heap s x) \<le> now"
      using sorted_hd_min [of "heap s" x xs k] srt that by simp
    then show ?thesis using Cons by (auto simp: getNextTimer_def Let_def)
  qed (use that in simp)
  show "\<exists>k \<in> set (m_timers s). fst (getNextTimer now s) = m_next (heap s k) - now \<and>
      (\<forall>k' \<in> set (m_timers s). m_next (heap s k) \<le> m_next (heap s k'))"
    if "set (m_timers s) \<noteq> {}" "\<forall>k \<in> set (m_timers s). now < m_next (heap s k)"
  proof (cases "m_timers s")
    case (Cons x xs)
    then show ?thesis
      using sorted_hd_min [of "heap s" x xs] srt that(2)
      by (intro bexI [of _ x]) (auto simp: getNextTimer_def Let_def)
  qed (use that in simp)
  obtain s' where s': "listExpiredCb now c s =
      (map (\<lambda>a. m_cb (heap s a)) (filter (\<lambda>a. m_next (heap s a) \<le> now) (m_timers s)), s')"
      "tm_inv s'" "set (m_timers s') = {a \<in> set (m_timers s). now < m_next (heap s a) \<or> m_recurring (heap s a)}"
    using listExpiredCb_spec [of s c _ now, OF _ _ refl] i by blast
  show "length (fst (listExpiredCb now c s)) = card {k \<in> set (m_timers s). m_next (heap s k) \<le> now}"
  proof -
    have "distinct (filter (\<lambda>a. m_next (heap s a) \<le> now) (m_timers s))"
      using tm_inv_distinct [of s] i by simp
    then show ?thesis using s'(1) distinct_card by fastforce
  qed
  show "tm_inv (snd (listExpiredCb now c s)) \<and> c \<notin> set (m_timers (snd (listExpiredCb now c s)))"
    using s' i by auto
qed

section \<open>Every history of the manager\<close>

text \<open>
  A step is one public operation with the clock reading and the fresh address it used. A new
  timer has a callback and an address that is not in the set, which holds shared pointers.
\<close>

inductive tm_step :: "'c timer_manager \<Rightarrow> 'c timer_manager \<Rightarrow> bool" where
  tm_add: "a \<notin> set (m_timers s) \<Longrightarrow> cb \<noteq> None \<Longrightarrow> tm_step s (addTimer now a ms cb rec s)"
| tm_cond: "a \<notin> set (m_timers s) \<Longrightarrow> tm_step s (addConditionTimer now a ms cb cond rec s)"
| tm_cancel: "tm_step s (snd (cancel a s))"
| tm_refresh: "refresh now a s = Inr (r, s') \<Longrightarrow> tm_step s s'"
| tm_reset: "tm_step s (snd (reset now a ms from_now s))"
| tm_next: "tm_step s (snd (getNextTimer now s))"
| tm_expire: "c \<notin> set (m_timers s) \<Longrightarrow> tm_step s (snd (listExpiredCb now c s))"
| tm_rollover: "tm_step s (snd (detectClockRollover now s))"

inductive_cases tm_stepE: "tm_step s s'"

lemma refresh_cases:
  assumes "tm_inv s"
  shows "refresh now a s =
    (if m_cb (heap s a) = None \<or> a \<in> set (m_timers s) then Inr (False, s) else Inl Erase_end)"
  by (simp add: refresh_def tm_inv_has [OF assms])

lemma tm_step_inv: "tm_step s s' \<Longrightarrow> tm_inv s \<Longrightarrow> tm_inv s'"
proof (induction rule: tm_step.induct)
  case (tm_add a s cb now ms rec)
  then show ?case by (intro addTimer_inv)
next
  case (tm_cond a s now ms cb cond rec)
  then show ?case by (simp add: addConditionTimer_def addTimer_inv)
next
  case (tm_cancel s a)
  then show ?case by (rule cancel_inv)
next
  case (tm_refresh now a s r s')
  then show ?case by (simp add: refresh_cases split: if_splits)
next
  case (tm_reset s now a ms from_now)
  then show ?case by (rule reset_inv)
next
  case (tm_next s now)
  then show ?case by (simp add: getNextTimer_snd tm_inv_def)
next
  case (tm_expire c s now)
  then obtain s' where "tm_inv s'" "listExpiredCb now c s =
      (map (\<lambda>a. m_cb (heap s a)) (filter (\<lambda>a. m_next (heap s a) \<le> now) (m_timers s)), s')"
    using listExpiredCb_spec [OF tm_expire.prems tm_expire.hyps refl, of now] by blast
  then show ?case by simp
next
  case (tm_rollover s now)
  then show ?case by (simp add: detectClockRollover_def Let_def tm_inv_def)
qed

lemma tm_reachable_inv: "tm_step\<^sup>*\<^sup>* (new_manager h) s \<Longrightarrow> tm_inv s"
  by (induction rule: rtranclp_induct) (auto intro: tm_inv_new tm_step_inv)

end
