(* ===== verification/Timer_Properties.thy ===== *)
theory Timer_Properties
  imports Timer
begin

text \<open>
  The properties of the timer manager. They hold in every state with the invariant \<open>tm_inv\<close>,
  hence, by \<open>tm_reachable_inv\<close>, after every history of its operations.
\<close>

text \<open>A manager with one timer, due at 150, for the witnesses.\<close>

definition one_timer :: "nat timer_manager" where
  "one_timer = addTimer 100 5 50 (Some (Func 7)) False (new_manager (\<lambda>_. new_deadline 0))"

lemma one_timer_facts:
  "tm_inv one_timer" "set (m_timers one_timer) = {5}" "m_next (heap one_timer 5) = 150"
  "m_cb (heap one_timer 5) = Some (Func 7)" "m_recurring (heap one_timer 5) = False"
  "m_ms (heap one_timer 5) = 50"
  unfolding one_timer_def
  using addTimer_inv [OF tm_inv_new, of 5 "\<lambda>_. new_deadline 0" "Some (Func (7::nat))" 100 50 False]
  by (simp_all add: new_manager_def new_timer_def)

lemma one_timer_list: "m_timers one_timer = [5]"
  by (simp add: one_timer_def addTimer_def addTimer_ptr_def Let_def flushTimer_def new_manager_def
      set_insert_def set_has_def set_lower_bound_def)

text \<open>C6. After any history of additions, cancellations, refreshes, resets, queries and expiries,
  the set of timers is ordered by deadline, without duplicates, and every timer in it still has
  its callback.\<close>

theorem timer_set_invariant:
  assumes "tm_step\<^sup>*\<^sup>* (new_manager h) s"
  shows "sorted_wrt (before (heap s)) (m_timers s) \<and> distinct (m_timers s) \<and>
         (\<forall>a \<in> set (m_timers s). m_cb (heap s a) \<noteq> None)"
  using tm_reachable_inv [OF assms] tm_inv_distinct [of s] by (simp add: tm_inv_def)

theorem timer_set_invariant_witness:
  "distinct (m_timers (addTimer 100 5 50 (Some (Func 7)) False (new_manager (\<lambda>_. new_deadline 0 :: nat timer))))"
proof -
  have "tm_step\<^sup>*\<^sup>* (new_manager (\<lambda>_. new_deadline 0 :: nat timer))
      (addTimer 100 5 50 (Some (Func 7)) False (new_manager (\<lambda>_. new_deadline 0)))"
    by (intro r_into_rtranclp tm_add) (simp_all add: new_manager_def)
  from timer_set_invariant [OF this] show ?thesis by blast
qed

text \<open>C13. \<^verbatim>\<open>listExpiredCb\<close> returns the callbacks of exactly the timers whose deadline has passed, in
  order of deadline, whatever address its temporary timer gets; the recurring ones among them
  are armed again from now, the others leave the set and lose their callback, and all other
  timers are as they were.\<close>

theorem listExpiredCb_exact:
  assumes "tm_inv s" and "c \<notin> set (m_timers s)"
  shows "\<exists>s'. listExpiredCb now c s =
             (map (\<lambda>a. m_cb (heap s a)) (filter (\<lambda>a. m_next (heap s a) \<le> now) (m_timers s)), s') \<and>
           tm_inv s' \<and>
           set (m_timers s') = {a \<in> set (m_timers s). now < m_next (heap s a) \<or> m_recurring (heap s a)} \<and>
           (\<forall>a. heap s' a = (if a \<in> set (m_timers s) \<and> m_next (heap s a) \<le> now
                             then rearmed now (heap s a) else heap s a))"
  using listExpiredCb_spec [OF assms refl, of now] by fastforce

theorem listExpiredCb_exact_witness:
  "fst (listExpiredCb 150 0 one_timer) = [Some (Func 7)]"
  using listExpiredCb_exact [of one_timer 0 150]
  by (auto simp: one_timer_facts one_timer_list)

text \<open>C15. If no timer is due yet, the wait \<^verbatim>\<open>getNextTimer\<close> computes is exact: it is not 0, an expiry
  check at any earlier moment finds nothing, and one at its end finds a timer.\<close>

theorem getNextTimer_exact:
  assumes "tm_inv s" and "c \<notin> set (m_timers s)" and "m_timers s \<noteq> []"
    and "\<forall>a \<in> set (m_timers s). now < m_next (heap s a)" and "getNextTimer now s = (d, s')"
  shows "d \<noteq> 0 \<and> fst (listExpiredCb (now + d) c s') \<noteq> [] \<and>
         (\<forall>e. e < d \<longrightarrow> fst (listExpiredCb (now + e) c s') = [])"
  using timers.wait_exact [of s c now d s'] assms by auto

theorem getNextTimer_exact_witness:
  "fst (listExpiredCb 150 0 (snd (getNextTimer 120 one_timer))) \<noteq> []"
proof -
  have d: "fst (getNextTimer 120 one_timer) = 30"
    by (simp add: getNextTimer_def Let_def one_timer_list one_timer_facts)
  then have eq: "getNextTimer 120 one_timer = (30, snd (getNextTimer 120 one_timer))"
    by (metis prod.collapse)
  show ?thesis
    using getNextTimer_exact [OF one_timer_facts(1) _ _ _ eq, of 0]
    by (simp add: one_timer_facts one_timer_list)
qed

text \<open>\<^verbatim>\<open>refresh\<close> never restarts a timer: on an armed timer it returns false and changes nothing,
  and on a timer that has its callback but is not in the set it erases the end iterator.\<close>

theorem refresh_never_rearms:
  assumes "tm_inv s"
  shows "(a \<in> set (m_timers s) \<longrightarrow> refresh now a s = Inr (False, s)) \<and>
         (a \<notin> set (m_timers s) \<and> m_cb (heap s a) \<noteq> None \<longrightarrow> refresh now a s = Inl Erase_end) \<and>
         (\<forall>r s'. refresh now a s = Inr (r, s') \<longrightarrow> \<not> r \<and> s' = s)"
  using refresh_cases [OF assms, of now a] by auto

theorem refresh_never_rearms_witness:
  "refresh 120 5 one_timer = Inr (False, one_timer)"
  using refresh_never_rearms [OF one_timer_facts(1), of 5 120] by (simp add: one_timer_facts)

text \<open>\<^verbatim>\<open>reset\<close> on an armed timer, unless it asks for the period the timer has, returns true but
  takes the timer out of the set for good: no later expiry check returns it, and a \<^verbatim>\<open>refresh\<close> of
  it is undefined.\<close>

theorem reset_disarms:
  assumes "tm_inv s" and "a \<in> set (m_timers s)" and "ms \<noteq> m_ms (heap s a) \<or> from_now"
  shows "\<exists>s'. reset now a ms from_now s = (True, s') \<and> m_cb (heap s' a) \<noteq> None \<and>
           set (m_timers s') = set (m_timers s) - {a} \<and>
           (\<forall>t c. c \<notin> set (m_timers s') \<longrightarrow> a \<notin> set (m_timers (snd (listExpiredCb t c s')))) \<and>
           refresh now a s' = Inl Erase_end"
proof -
  obtain s' where r: "reset now a ms from_now s = (True, s')"
      and eq: "m_timers s' = filter (\<lambda>x. x \<noteq> a) (m_timers s)" "m_cb (heap s' a) = m_cb (heap s a)"
    using assms(2,3) by (auto simp: reset_eq [OF assms(1)])
  have inv: "tm_inv s'"
    using reset_inv [OF assms(1), of now a ms from_now] r by simp
  have cb: "m_cb (heap s a) \<noteq> None" using assms(1,2) by (simp add: tm_inv_def)
  have "a \<notin> set (m_timers (snd (listExpiredCb t c s')))" if "c \<notin> set (m_timers s')" for t c
    using listExpiredCb_subset [OF inv that, of t] eq(1) by auto
  moreover have "refresh now a s' = Inl Erase_end"
    using refresh_cases [OF inv, of now a] eq cb by simp
  moreover have "set (m_timers s') = set (m_timers s) - {a}"
    using eq(1) by auto
  ultimately show ?thesis
    using eq(2) cb r by (intro exI [of _ s'] conjI allI impI) simp_all
qed

theorem reset_disarms_witness:
  "\<exists>s'. reset 120 5 80 True one_timer = (True, s') \<and> set (m_timers s') = {}"
  using reset_disarms [of one_timer 5 80 True 120] by (auto simp: one_timer_facts)

text \<open>\<^verbatim>\<open>cancel\<close> returns true exactly when the timer still has its callback; afterwards the timer
  is not in the set, a second \<^verbatim>\<open>cancel\<close> returns false without effect, and the other timers keep
  their place.\<close>

theorem cancel_final:
  assumes "tm_inv s"
  shows "\<exists>s'. cancel a s = (m_cb (heap s a) \<noteq> None, s') \<and> tm_inv s' \<and>
           m_timers s' = filter (\<lambda>x. x \<noteq> a) (m_timers s) \<and> m_cb (heap s' a) = None \<and>
           (\<forall>b. b \<noteq> a \<longrightarrow> heap s' b = heap s b) \<and> cancel a s' = (False, s')"
proof (cases "m_cb (heap s a) = None")
  case True
  then have "a \<notin> set (m_timers s)" using assms by (auto simp: tm_inv_def)
  then show ?thesis
    using True assms by (intro exI [of _ s]) (simp add: cancel_def filter_neq_absent)
next
  case False
  let ?s' = "(put_timer a ((heap s a)\<lparr>m_cb := None\<rparr>) s)\<lparr>m_timers := filter (\<lambda>x. x \<noteq> a) (m_timers s)\<rparr>"
  have "cancel a ?s' = (False, ?s')" by (simp add: cancel_def)
  then show ?thesis
    using False by (intro exI [of _ ?s']) (simp add: cancel_eq [OF assms] tm_inv_take_out [OF assms])
qed

theorem cancel_final_witness:
  "fst (cancel 5 one_timer) \<and> fst (cancel 5 (snd (cancel 5 one_timer))) = False"
  using cancel_final [OF one_timer_facts(1), of 5] by (auto simp: one_timer_facts)

text \<open>\<^verbatim>\<open>addTimer\<close> inserts the new timer with the deadline now plus its period, and wakes up the
  poller, by exactly one call of \<^verbatim>\<open>flushTimer\<close>, if and only if the new timer comes before every
  other one.\<close>

theorem addTimer_wakes_iff_first:
  assumes "tm_inv s" and "a \<notin> set (m_timers s)" and "cb \<noteq> None"
    and s'_def: "s' = addTimer now a ms cb rec s"
  shows "tm_inv s' \<and> set (m_timers s') = insert a (set (m_timers s)) \<and>
         heap s' a = new_timer now ms cb rec \<and> m_next (heap s' a) = now + ms \<and>
         flushed s' = (if \<forall>b \<in> set (m_timers s). before (heap s') a b then Suc (flushed s) else flushed s)"
proof -
  let ?h = "(heap s)(a := new_timer now ms cb rec)"
  have "sorted_wrt (before ?h) (m_timers s)"
    using assms(1,2) by (simp add: tm_inv_def sorted_before_upd)
  then have "hd (set_insert (before ?h) a (m_timers s)) = a \<longleftrightarrow> (\<forall>b \<in> set (m_timers s). before ?h a b)"
    using assms(2) by (rule by_deadline.insert_front)
  then have "flushed s' = (if \<forall>b \<in> set (m_timers s). before ?h a b then Suc (flushed s) else flushed s)"
    by (simp add: s'_def addTimer_def addTimer_ptr_def Let_def flushTimer_def)
  then show ?thesis
    using addTimer_inv [OF assms(1-3), of now ms rec] by (simp add: s'_def new_timer_def)
qed

theorem addTimer_wakes_iff_first_witness:
  "flushed (addTimer 100 6 60 (Some (Func 8)) False one_timer) = flushed one_timer"
  using addTimer_wakes_iff_first [of one_timer 6 "Some (Func 8)" _ 100 60 False, OF _ _ _ refl]
  by (simp add: one_timer_facts addTimer_inv before_def new_timer_def)

text \<open>The clock is taken to have been set back when it is more than an hour behind the last
  reading; but while the last reading is below one hour the subtraction wraps around, and any
  step back counts.\<close>

theorem detectClockRollover_outcome:
  "fst (detectClockRollover now s) \<longleftrightarrow>
     unat now < unat (m_prevTime s) \<and>
     (unat (m_prevTime s) < 3600000 \<or> unat now + 3600000 < unat (m_prevTime s))"
proof -
  let ?p = "m_prevTime s"
  have c: "60 * 60 * 1000 = (3600000 :: u64)" by simp
  show ?thesis
  proof (cases "unat ?p < 3600000")
    case True
    then have "unat (?p - 3600000) = unat ?p + 2 ^ 64 - 3600000"
      by (simp add: unat_sub_if_size word_size)
    moreover have "unat now < unat ?p \<Longrightarrow> unat now < unat ?p + 2 ^ 64 - 3600000"
      by simp
    ultimately show ?thesis
      using True by (auto simp: detectClockRollover_def Let_def c word_less_nat_alt)
  next
    case False
    then have "unat (?p - 3600000) = unat ?p - 3600000"
      by (simp add: unat_sub_if_size word_size)
    then show ?thesis
      using False by (auto simp: detectClockRollover_def Let_def c word_less_nat_alt)
  qed
qed

end
