(* ===== verification/Fd_Table.thy ===== *)
theory Fd_Table
  imports Prelude
begin

text \<open>
  What the hooked system calls rely on in a table of descriptor contexts: a lookup that never
  creates, a lookup that creates when it has to, and a removal.
\<close>

locale fd_table =
  fixes find :: "int \<Rightarrow> 's \<Rightarrow> 'e + 'p option"
    and get_or_create :: "int \<Rightarrow> 's \<Rightarrow> 'e + 'p \<times> 's"
    and remove :: "int \<Rightarrow> 's \<Rightarrow> 'e + 's"
    and inv :: "'s \<Rightarrow> bool"
  assumes find_total: "inv s \<Longrightarrow> 0 \<le> fd \<Longrightarrow> \<exists>r. find fd s = Inr r"
    and create_total: "inv s \<Longrightarrow> 0 \<le> fd \<Longrightarrow> \<exists>p s'. get_or_create fd s = Inr (p, s')"
    and create_inv: "inv s \<Longrightarrow> 0 \<le> fd \<Longrightarrow> get_or_create fd s = Inr (p, s') \<Longrightarrow> inv s'"
    and find_create: "inv s \<Longrightarrow> 0 \<le> fd \<Longrightarrow> get_or_create fd s = Inr (p, s') \<Longrightarrow> 0 \<le> fd' \<Longrightarrow>
           find fd' s' = (if fd' = fd then Inr (Some p) else find fd' s)"
    and create_present: "inv s \<Longrightarrow> 0 \<le> fd \<Longrightarrow> find fd s = Inr (Some q) \<Longrightarrow>
           get_or_create fd s = Inr (q, s)"
    and remove_inv: "inv s \<Longrightarrow> 0 \<le> fd \<Longrightarrow> \<exists>s'. remove fd s = Inr s' \<and> inv s'"
    and find_remove: "inv s \<Longrightarrow> 0 \<le> fd \<Longrightarrow> remove fd s = Inr s' \<Longrightarrow> 0 \<le> fd' \<Longrightarrow>
           find fd' s' = (if fd' = fd then Inr None else find fd' s)"
begin

text \<open>Asking twice gives the same context and changes nothing the second time.\<close>

lemma create_twice:
  assumes "inv s" and "0 \<le> fd" and "get_or_create fd s = Inr (p, s')"
  shows "get_or_create fd s' = Inr (p, s')"
  using create_inv [OF assms] find_create [OF assms assms(2)] create_present assms(2) by simp

text \<open>Contexts of different descriptors are created in either order.\<close>

lemma create_commutes:
  assumes "inv s" and "0 \<le> fd" and "0 \<le> fd'" and "fd \<noteq> fd'"
    and "get_or_create fd s = Inr (p, s1)" and "get_or_create fd' s1 = Inr (q, s2)"
  shows "find fd s2 = Inr (Some p) \<and> find fd' s2 = Inr (Some q)"
proof -
  have "inv s1" using assms create_inv by blast
  then show ?thesis
    using find_create [OF assms(1,2,5,2)] find_create [OF _ assms(3,6) assms(2)]
      find_create [OF _ assms(3,6) assms(3)] assms(4) by simp
qed

lemma create_after_remove:
  assumes "inv s" and "0 \<le> fd" and "remove fd s = Inr s1"
  shows "find fd s1 = Inr None \<and> (\<exists>p s2. get_or_create fd s1 = Inr (p, s2) \<and> find fd s2 = Inr (Some p))"
proof -
  have s1: "inv s1" using remove_inv [OF assms(1,2)] assms(3) by auto
  obtain p s2 where "get_or_create fd s1 = Inr (p, s2)"
    using create_total [OF s1 assms(2)] by blast
  then show ?thesis
    using find_create [OF s1 assms(2) _ assms(2)] find_remove [OF assms(1-3) assms(2)] by auto
qed

end

end
