(* ===== verification/FdManager.thy ===== *)
theory FdManager
  imports Fd_Table
begin

text \<open>
  \<^verbatim>\<open>src/src/socket/fdManager.{h,cpp}\<close>: a context for every file descriptor the hooks know, in a
  growing vector indexed by the descriptor. Contexts are shared, so they live in a heap and the
  vector holds their addresses; a new one gets the address \<open>a\<close>. What \<^verbatim>\<open>fstat\<close> and \<^verbatim>\<open>fcntl\<close> say is
  in the \<open>kernel\<close>, whose descriptor flags \<^verbatim>\<open>FdCtx::init\<close> changes.

  \<^verbatim>\<open>FdManager::get\<close> has two critical sections; \<open>get_check\<close> and \<open>get_create\<close> are the two, so that
  calls of several threads can be interleaved between them.
\<close>

unbundle bit_operations_syntax

section \<open>Contexts\<close>

record kernel =
  st_sock :: "int \<Rightarrow> bool option"     \<comment> \<open>\<^verbatim>\<open>S_ISSOCK\<close> of the mode, \<open>None\<close> when \<^verbatim>\<open>fstat\<close> fails\<close>
  fd_flags :: "int \<Rightarrow> u32"

definition O_NONBLOCK :: u32 where "O_NONBLOCK = 0x800"
definition SO_RCVTIMEO :: int where "SO_RCVTIMEO = 20"
definition SO_SNDTIMEO :: int where "SO_SNDTIMEO = 21"

record fdctx =
  m_isInit :: bool
  m_isSocket :: bool
  m_sysNonblock :: bool
  m_userNonblock :: bool
  m_isClosed :: bool
  m_fd :: int
  m_recvTimeout :: u64
  m_sendTimeout :: u64

text \<open>\<^verbatim>\<open>FdCtx::init\<close>, with the value it returns.\<close>

definition FdCtx_init :: "fdctx \<Rightarrow> kernel \<Rightarrow> bool \<times> fdctx \<times> kernel" where
  "FdCtx_init c k =
     (if m_isInit c then (True, c, k)
      else let c1 = c\<lparr>m_recvTimeout := -1, m_sendTimeout := -1\<rparr>;
               c2 = (case st_sock k (m_fd c1) of
                       None \<Rightarrow> c1\<lparr>m_isInit := False, m_isSocket := False\<rparr>
                     | Some sock \<Rightarrow> c1\<lparr>m_isInit := True, m_isSocket := sock\<rparr>);
               flags = fd_flags k (m_fd c2);
               k1 = (if m_isSocket c2 \<and> flags AND O_NONBLOCK = 0
                     then k\<lparr>fd_flags := (fd_flags k)(m_fd c2 := flags OR O_NONBLOCK)\<rparr> else k);
               c3 = c2\<lparr>m_sysNonblock := m_isSocket c2, m_userNonblock := False, m_isClosed := False\<rparr>
           in (m_isInit c3, c3, k1))"

definition FdCtx :: "int \<Rightarrow> kernel \<Rightarrow> fdctx \<times> kernel" where
  "FdCtx fd k =
     snd (FdCtx_init \<lparr>m_isInit = False, m_isSocket = False, m_sysNonblock = False,
            m_userNonblock = False, m_isClosed = False, m_fd = fd,
            m_recvTimeout = -1, m_sendTimeout = -1\<rparr> k)"

definition setTimeout :: "int \<Rightarrow> u64 \<Rightarrow> fdctx \<Rightarrow> fdctx" where
  "setTimeout type v c =
     (if type = SO_RCVTIMEO then c\<lparr>m_recvTimeout := v\<rparr> else c\<lparr>m_sendTimeout := v\<rparr>)"

definition getTimeout :: "int \<Rightarrow> fdctx \<Rightarrow> u64" where
  "getTimeout type c = (if type = SO_RCVTIMEO then m_recvTimeout c else m_sendTimeout c)"

text \<open>A descriptor the kernel knows as a socket becomes non-blocking there; others are untouched.\<close>

lemma FdCtx_socket:
  assumes "FdCtx fd k = (c, k')"
  shows "m_fd c = fd \<and> m_isInit c = (st_sock k fd \<noteq> None) \<and>
    m_isSocket c = (st_sock k fd = Some True) \<and> m_sysNonblock c = m_isSocket c \<and> \<not> m_userNonblock c \<and>
    getTimeout t c = -1 \<and> st_sock k' = st_sock k \<and>
    (m_isSocket c \<longrightarrow> fd_flags k' fd = fd_flags k fd OR O_NONBLOCK) \<and>
    (\<forall>fd'. fd' \<noteq> fd \<or> \<not> m_isSocket c \<longrightarrow> fd_flags k' fd' = fd_flags k fd')"
proof -
  have idem: "x OR O_NONBLOCK = x" if nz: "x AND O_NONBLOCK \<noteq> 0" for x :: u32
  proof -
    have one: "bit O_NONBLOCK n \<longleftrightarrow> n = 11" for n
    proof -
      have o: "O_NONBLOCK = push_bit 11 1" by (simp add: O_NONBLOCK_def)
      show ?thesis
        unfolding o by (simp only: bit_push_bit_iff bit_1_iff) (auto simp: possible_bit_word)
    qed
    then have "bit x 11"
    proof -
      obtain n where "bit (x AND O_NONBLOCK) n"
        using nz by (metis bit_word_eqI bit_0_eq bot_apply bot_bool_def)
      then show ?thesis by (auto simp: bit_and_iff one)
    qed
    then show ?thesis by (intro bit_word_eqI) (auto simp: bit_or_iff one)
  qed
  show ?thesis
    using assms idem
    by (cases "st_sock k fd")
       (auto simp: FdCtx_def FdCtx_init_def Let_def getTimeout_def split: if_splits)
qed

lemma getTimeout_setTimeout:
  "getTimeout t (setTimeout t' v c) =
     (if (t = SO_RCVTIMEO) = (t' = SO_RCVTIMEO) then v else getTimeout t c)"
  by (auto simp: getTimeout_def setTimeout_def)

section \<open>The table\<close>

datatype fd_error = Out_of_bounds

record fd_manager =
  fd_heap :: "nat \<Rightarrow> fdctx"
  m_datas :: "nat option list"
  kern :: kernel

definition new_fd_manager :: "(nat \<Rightarrow> fdctx) \<Rightarrow> kernel \<Rightarrow> fd_manager" where
  "new_fd_manager h k = \<lparr>fd_heap = h, m_datas = replicate 64 None, kern = k\<rparr>"

text \<open>\<^verbatim>\<open>m_datas[fd]\<close>: the index is converted to an unsigned one, so a negative one is out of bounds.\<close>

definition data_at :: "int \<Rightarrow> nat option list \<Rightarrow> fd_error + nat option" where
  "data_at fd ds = (if 0 \<le> fd \<and> nat fd < length ds then Inr (ds ! nat fd) else Inl Out_of_bounds)"

definition data_put :: "int \<Rightarrow> nat option \<Rightarrow> nat option list \<Rightarrow> fd_error + nat option list" where
  "data_put fd p ds =
     (if 0 \<le> fd \<and> nat fd < length ds then Inr (ds[nat fd := p]) else Inl Out_of_bounds)"

definition resize_to :: "nat \<Rightarrow> nat option list \<Rightarrow> nat option list" where
  "resize_to n ds = take n ds @ replicate (n - length ds) None"

text \<open>\<open>Some r\<close> is the early return of \<open>r\<close>, \<open>None\<close> going on to the second critical section.\<close>

definition get_check :: "int \<Rightarrow> bool \<Rightarrow> fd_manager \<Rightarrow> fd_error + nat option option" where
  "get_check fd auto_create s =
     (if fd = -1 then Inr (Some None)
      else if int (length (m_datas s)) \<le> fd then
        (if \<not> auto_create then Inr (Some None) else Inr None)
      else rbind (data_at fd (m_datas s)) (\<lambda>p.
        if p \<noteq> None \<or> \<not> auto_create then Inr (Some p) else Inr None))"

definition get_create :: "nat \<Rightarrow> int \<Rightarrow> fd_manager \<Rightarrow> fd_error + nat option \<times> fd_manager" where
  "get_create a fd s =
     (let (c, k) = FdCtx fd (kern s);
          s1 = s\<lparr>fd_heap := (fd_heap s)(a := c), kern := k\<rparr>;
          s2 = (if int (length (m_datas s1)) \<le> fd
                then s1\<lparr>m_datas := resize_to (nat (fd * 3 div 2)) (m_datas s1)\<rparr> else s1)
      in rbind (data_put fd (Some a) (m_datas s2)) (\<lambda>ds. Inr (Some a, s2\<lparr>m_datas := ds\<rparr>)))"

definition fd_get :: "nat \<Rightarrow> int \<Rightarrow> bool \<Rightarrow> fd_manager \<Rightarrow> fd_error + nat option \<times> fd_manager" where
  "fd_get a fd auto_create s =
     rbind (get_check fd auto_create s) (\<lambda>r.
       case r of Some p \<Rightarrow> Inr (p, s) | None \<Rightarrow> get_create a fd s)"

definition fd_del :: "int \<Rightarrow> fd_manager \<Rightarrow> fd_error + fd_manager" where
  "fd_del fd s =
     (if int (length (m_datas s)) \<le> fd then Inr s
      else rbind (data_put fd None (m_datas s)) (\<lambda>ds. Inr (s\<lparr>m_datas := ds\<rparr>)))"

section \<open>The invariant\<close>

text \<open>
  The vector keeps at least its first 64 slots, so that growing to one and a half times the
  descriptor always makes room for it.
\<close>

definition fd_inv :: "fd_manager \<Rightarrow> bool" where
  "fd_inv s \<longleftrightarrow> 64 \<le> length (m_datas s)"

lemma fd_inv_new: "fd_inv (new_fd_manager h k)"
  by (simp add: fd_inv_def new_fd_manager_def)

definition slot :: "int \<Rightarrow> fd_manager \<Rightarrow> nat option" where
  "slot fd s = (if nat fd < length (m_datas s) then m_datas s ! nat fd else None)"

lemma nth_resize: "nat fd < n \<Longrightarrow> n \<ge> length ds \<Longrightarrow>
    resize_to n ds ! nat fd = (if nat fd < length ds then ds ! nat fd else None)"
  by (simp add: resize_to_def nth_append)

lemma length_resize [simp]: "length (resize_to n ds) = n"
  by (simp add: resize_to_def)

lemma get_create_total:
  assumes "fd_inv s" and "0 \<le> fd"
  shows "\<exists>s'. get_create a fd s = Inr (Some a, s') \<and> fd_inv s' \<and>
    length (m_datas s) \<le> length (m_datas s') \<and>
    fd_heap s' = (fd_heap s)(a := fst (FdCtx fd (kern s))) \<and>
    kern s' = snd (FdCtx fd (kern s)) \<and>
    (\<forall>fd' \<ge> 0. slot fd' s' = (if fd' = fd then Some a else slot fd' s))"
proof -
  obtain c k where ck: "FdCtx fd (kern s) = (c, k)" by fastforce
  let ?ds = "if int (length (m_datas s)) \<le> fd then resize_to (nat (fd * 3 div 2)) (m_datas s) else m_datas s"
  let ?s' = "s\<lparr>fd_heap := (fd_heap s)(a := c), m_datas := ?ds[nat fd := Some a], kern := k\<rparr>"
  have room: "nat fd < length ?ds" "length (m_datas s) \<le> length ?ds"
    using assms by (auto simp: fd_inv_def)
  have "get_create a fd s = Inr (Some a, ?s')"
    using assms(2) room(1)
    by (cases "int (length (m_datas s)) \<le> fd") (simp_all add: get_create_def ck Let_def data_put_def)
  moreover have "slot fd' ?s' = (if fd' = fd then Some a else slot fd' s)" if "0 \<le> fd'" for fd'
  proof (cases "int (length (m_datas s)) \<le> fd")
    case True
    then show ?thesis
      using that assms room by (auto simp: slot_def nth_resize nth_list_update nat_eq_iff)
  next
    case False
    then show ?thesis
      using that assms(2) by (auto simp: slot_def nth_list_update nat_eq_iff)
  qed
  ultimately show ?thesis
    using assms(1) room ck by (intro exI [of _ ?s']) (auto simp: fd_inv_def)
qed

lemma get_check_eq:
  assumes "0 \<le> fd"
  shows "get_check fd b s = Inr (if slot fd s \<noteq> None \<or> \<not> b then Some (slot fd s) else None)"
  using assms by (auto simp: get_check_def slot_def data_at_def)

lemma fd_get_eq:
  assumes "0 \<le> fd"
  shows "fd_get a fd b s =
    (if slot fd s \<noteq> None \<or> \<not> b then Inr (slot fd s, s) else get_create a fd s)"
  using assms by (auto simp: fd_get_def get_check_eq)

lemma fd_del_eq:
  assumes "0 \<le> fd" and "fd_inv s"
  shows "\<exists>s'. fd_del fd s = Inr s' \<and> fd_inv s' \<and> fd_heap s' = fd_heap s \<and>
    (\<forall>fd' \<ge> 0. slot fd' s' = (if fd' = fd then None else slot fd' s))"
proof (cases "int (length (m_datas s)) \<le> fd")
  case True
  then show ?thesis using assms by (auto simp: fd_del_def slot_def)
next
  case False
  then show ?thesis
    using assms by (auto simp: fd_del_def data_put_def fd_inv_def slot_def nth_list_update nat_eq_iff)
qed

section \<open>The table contract\<close>

definition find_fd :: "int \<Rightarrow> fd_manager \<Rightarrow> fd_error + nat option" where
  "find_fd fd s = rbind (fd_get 0 fd False s) (\<lambda>(p, _). Inr p)"

definition get_or_create_fd :: "nat \<Rightarrow> int \<Rightarrow> fd_manager \<Rightarrow> fd_error + nat \<times> fd_manager" where
  "get_or_create_fd a fd s =
     rbind (fd_get a fd True s) (\<lambda>(p, s').
       case p of Some q \<Rightarrow> Inr (q, s') | None \<Rightarrow> Inl Out_of_bounds)"

lemma find_fd_eq: "0 \<le> fd \<Longrightarrow> find_fd fd s = Inr (slot fd s)"
  by (simp add: find_fd_def fd_get_eq)

lemma get_or_create_fd_eq:
  assumes "fd_inv s" and "0 \<le> fd"
  shows "get_or_create_fd a fd s = (case slot fd s of Some q \<Rightarrow> Inr (q, s)
    | None \<Rightarrow> rbind (get_create a fd s) (\<lambda>(_, s'). Inr (a, s')))"
  using get_create_total [OF assms, of a]
  by (auto simp: get_or_create_fd_def fd_get_eq [OF assms(2)] split: option.split)

interpretation fds: fd_table find_fd "get_or_create_fd a" fd_del fd_inv for a
proof
  fix s s' :: fd_manager and fd fd' :: int and p q :: nat
  assume i: "fd_inv s" and fd: "0 \<le> fd"
  show "\<exists>r. find_fd fd s = Inr r" using fd by (simp add: find_fd_eq)
  show "\<exists>p s'. get_or_create_fd a fd s = Inr (p, s')"
    using get_create_total [OF i fd, of a]
    by (auto simp: get_or_create_fd_eq [OF i fd] split: option.split)
  show "fd_inv s'" if "get_or_create_fd a fd s = Inr (p, s')"
    using get_create_total [OF i fd, of a] that i
    by (auto simp: get_or_create_fd_eq [OF i fd] split: option.splits)
  show "find_fd fd' s' = (if fd' = fd then Inr (Some p) else find_fd fd' s)"
    if "get_or_create_fd a fd s = Inr (p, s')" "0 \<le> fd'"
    using get_create_total [OF i fd, of a] that
    by (auto simp: get_or_create_fd_eq [OF i fd] find_fd_eq fd split: option.splits)
  show "get_or_create_fd a fd s = Inr (q, s)" if "find_fd fd s = Inr (Some q)"
    using that fd by (simp add: get_or_create_fd_eq [OF i fd] find_fd_eq)
  show "\<exists>s'. fd_del fd s = Inr s' \<and> fd_inv s'"
    using fd_del_eq [OF fd i] by blast
  show "find_fd fd' s' = (if fd' = fd then Inr None else find_fd fd' s)"
    if "fd_del fd s = Inr s'" "0 \<le> fd'"
    using fd_del_eq [OF fd i] that by (auto simp: find_fd_eq)
qed

section \<open>Properties\<close>

text \<open>C37. For a descriptor that is not negative, \<^verbatim>\<open>get(fd, true)\<close> always succeeds, however large the
  descriptor; from then on every \<^verbatim>\<open>get\<close> of the descriptor returns the same context until \<^verbatim>\<open>del\<close>,
  the lookups of other descriptors do not change, and after \<^verbatim>\<open>del\<close> there is none. A descriptor
  below -1 is used as an index out of bounds.\<close>

theorem fd_table_lookup:
  assumes "fd_inv s"
  shows "(0 \<le> fd \<longrightarrow> (\<exists>p s1 s2. fd_get a fd True s = Inr (Some p, s1) \<and> fd_inv s1 \<and>
            fd_get b fd True s1 = Inr (Some p, s1) \<and>
            (\<forall>fd' \<ge> 0. find_fd fd' s1 = (if fd' = fd then Inr (Some p) else find_fd fd' s)) \<and>
            fd_del fd s1 = Inr s2 \<and> fd_inv s2 \<and> find_fd fd s2 = Inr None)) \<and>
         (fd < -1 \<longrightarrow> fd_get a fd auto_create s = Inl Out_of_bounds)"
proof (intro conjI impI)
  assume fd: "0 \<le> fd"
  obtain p s1 where g: "get_or_create_fd a fd s = Inr (p, s1)"
    using fds.create_total [OF assms fd] by blast
  have get: "fd_get x fd True s' = Inr (Some q, s'')" if "get_or_create_fd x fd s' = Inr (q, s'')" for x s' q s''
    using that by (auto simp: get_or_create_fd_def rbind_eq_Inr split: option.splits)
  have i1: "fd_inv s1" by (rule fds.create_inv [OF assms fd g])
  have "find_fd fd s1 = Inr (Some p)"
    using fds.find_create [OF assms fd g fd] by simp
  then have "get_or_create_fd b fd s1 = Inr (p, s1)"
    by (rule fds.create_present [OF i1 fd])
  moreover obtain s2 where "fd_del fd s1 = Inr s2" "fd_inv s2"
    using fds.remove_inv [OF i1 fd] by blast
  moreover have "find_fd fd s2 = Inr None"
    using fds.find_remove [OF i1 fd \<open>fd_del fd s1 = Inr s2\<close> fd] by simp
  ultimately show "\<exists>p s1 s2. fd_get a fd True s = Inr (Some p, s1) \<and> fd_inv s1 \<and>
            fd_get b fd True s1 = Inr (Some p, s1) \<and>
            (\<forall>fd' \<ge> 0. find_fd fd' s1 = (if fd' = fd then Inr (Some p) else find_fd fd' s)) \<and>
            fd_del fd s1 = Inr s2 \<and> fd_inv s2 \<and> find_fd fd s2 = Inr None"
    using get [OF g] get i1 fds.find_create [OF assms fd g] by blast
next
  assume "fd < -1"
  then show "fd_get a fd auto_create s = Inl Out_of_bounds"
    by (simp add: fd_get_def get_check_def data_at_def)
qed

text \<open>A kernel in which every descriptor is a blocking socket, for the witnesses.\<close>

definition all_sockets :: kernel where
  "all_sockets = \<lparr>st_sock = (\<lambda>_. Some True), fd_flags = (\<lambda>_. 0)\<rparr>"

definition no_contexts :: fd_manager where
  "no_contexts = new_fd_manager (\<lambda>_. fst (FdCtx 0 all_sockets)) all_sockets"

theorem fd_table_lookup_witness:
  "\<exists>p s1. fd_get 9 1000 True no_contexts = Inr (Some p, s1) \<and> find_fd 1000 s1 = Inr (Some p)"
proof -
  have "fd_inv no_contexts" by (simp add: no_contexts_def fd_inv_new)
  from fd_table_lookup [OF this, of 1000 9 9 True]
  obtain p s1 where "fd_get 9 1000 True no_contexts = Inr (Some p, s1)"
      "\<forall>fd' \<ge> 0. find_fd fd' s1 = (if fd' = 1000 then Inr (Some p) else find_fd fd' no_contexts)"
    by (elim conjE) (drule mp, simp, blast)
  then show ?thesis by (intro exI [of _ p] exI [of _ s1]) simp
qed

text \<open>\<^verbatim>\<open>get\<close> checks and creates in two critical sections: when two threads both pass the check
  for a new descriptor, each gets its own context, and the table keeps only the second; what the
  first thread then sets in its context, such as a timeout, is never seen again.\<close>

theorem get_check_then_create_race:
  assumes "fd_inv s" and "0 \<le> fd" and "find_fd fd s = Inr None" and "a \<noteq> b"
  shows "\<exists>s1 s2. get_check fd True s = Inr None \<and>
           get_create a fd s = Inr (Some a, s1) \<and> get_create b fd s1 = Inr (Some b, s2) \<and>
           find_fd fd s2 = Inr (Some b) \<and>
           (let s3 = s2\<lparr>fd_heap := (fd_heap s2)(a := setTimeout SO_RCVTIMEO v (fd_heap s2 a))\<rparr>
            in find_fd fd s3 = Inr (Some b) \<and> getTimeout SO_RCVTIMEO (fd_heap s3 b) = -1)"
proof -
  obtain s1 where s1: "get_create a fd s = Inr (Some a, s1)" "fd_inv s1"
    using get_create_total [OF assms(1,2)] by blast
  obtain s2 where s2: "get_create b fd s1 = Inr (Some b, s2)" "fd_inv s2"
      "fd_heap s2 = (fd_heap s1)(b := fst (FdCtx fd (kern s1)))"
      "\<forall>fd' \<ge> 0. slot fd' s2 = (if fd' = fd then Some b else slot fd' s1)"
    using get_create_total [OF s1(2) assms(2)] by blast
  have "getTimeout SO_RCVTIMEO (fst (FdCtx fd (kern s1))) = -1"
    using FdCtx_socket [of fd "kern s1" "fst (FdCtx fd (kern s1))" "snd (FdCtx fd (kern s1))"] by simp
  moreover have "slot fd (s2\<lparr>fd_heap := h\<rparr>) = slot fd s2" for h
    by (simp add: slot_def)
  ultimately show ?thesis
    using assms s1(1) s2 by (simp add: find_fd_eq get_check_eq Let_def)
qed

theorem get_check_then_create_race_witness:
  "get_check 3 True no_contexts = Inr None"
proof -
  have "fd_inv no_contexts" "find_fd 3 no_contexts = Inr None"
    by (simp_all add: no_contexts_def fd_inv_def find_fd_eq slot_def new_fd_manager_def)
  from get_check_then_create_race [OF this(1) _ this(2), of 1 2 0] show ?thesis by auto
qed

end
