(* ===== verification/Fiber.thy ===== *)
theory Fiber
  imports Prelude
begin

text \<open>
  \<^verbatim>\<open>src/src/fiber/fiber.{h,cpp}\<close>: fibers as seen by one thread. A saved \<^verbatim>\<open>ucontext_t\<close> is a point of
  execution: the entry of the function \<^verbatim>\<open>makecontext\<close> set up, or the point on a fiber's stack at
  which \<^verbatim>\<open>swapcontext\<close> or \<^verbatim>\<open>getcontext\<close> saved it, numbered by a counter that advances with every
  saved point. \<open>on_stack\<close> is the fiber on whose stack the thread runs, and \<open>resumed\<close> the point it
  resumed last; the user function is not part of the model, only how it ends. Failed assertions
  and null pointers are values of \<open>fiber_error\<close>. \<open>Term\<close> is the state \<^verbatim>\<open>TERM\<close>, a reserved word of the logic. \<^verbatim>\<open>getcontext\<close>, \<^verbatim>\<open>swapcontext\<close> and \<^verbatim>\<open>malloc\<close> succeed.
\<close>

section \<open>State\<close>

type_synonym fid = nat

datatype fiber_state = INIT | HOLD | EXEC | Term | READY | EXCEPT

datatype point = Entry fid bool | At fid nat

primrec owner :: "point \<Rightarrow> fid" where
  "owner (Entry f caller) = f"
| "owner (At f n) = f"

datatype fiber_error = Assertion | Null_fiber

record 'c fiber =
  m_id :: nat
  m_state :: fiber_state
  m_cb :: "'c option"
  m_stack :: bool
  m_stackSize :: u32
  m_ctx :: point

record 'c fiber_thread =
  fibers :: "fid \<Rightarrow> 'c fiber"
  t_fiber :: "fid option"
  t_threadFiber :: "fid option"
  t_scheduler_fiber :: "fid option"
  s_fiber_id :: nat
  s_fiber_count :: nat
  on_stack :: fid
  tick :: nat
  resumed :: point

definition here :: "'c fiber_thread \<Rightarrow> point" where
  "here s = At (on_stack s) (tick s)"

definition upd_fiber :: "fid \<Rightarrow> ('c fiber \<Rightarrow> 'c fiber) \<Rightarrow> 'c fiber_thread \<Rightarrow> 'c fiber_thread" where
  "upd_fiber f g s = s\<lparr>fibers := (fibers s)(f := g (fibers s f))\<rparr>"

definition fiber_assert :: "bool \<Rightarrow> 'a \<Rightarrow> fiber_error + 'a" where
  "fiber_assert b x = (if b then Inr x else Inl Assertion)"

definition the_fiber :: "fid option \<Rightarrow> fiber_error + fid" where
  "the_fiber p = (case p of None \<Rightarrow> Inl Null_fiber | Some f \<Rightarrow> Inr f)"

text \<open>\<^verbatim>\<open>swapcontext(&save->m_ctx, &load->m_ctx)\<close>.\<close>

definition swapcontext :: "fid \<Rightarrow> fid \<Rightarrow> 'c fiber_thread \<Rightarrow> 'c fiber_thread" where
  "swapcontext save load s =
     (let s1 = upd_fiber save (\<lambda>f. f\<lparr>m_ctx := here s\<rparr>) s;
          target = m_ctx (fibers s1 load)
      in s1\<lparr>on_stack := owner target, tick := Suc (tick s1), resumed := target\<rparr>)"

section \<open>Creation\<close>

definition setThis :: "fid option \<Rightarrow> 'c fiber_thread \<Rightarrow> 'c fiber_thread" where
  "setThis f s = s\<lparr>t_fiber := f\<rparr>"

text \<open>The private constructor, for the fiber \<open>a\<close> that stands for the thread's own stack.\<close>

definition Fiber_main :: "fid \<Rightarrow> 'c fiber_thread \<Rightarrow> 'c fiber_thread" where
  "Fiber_main a s =
     setThis (Some a)
       (s\<lparr>fibers := (fibers s)(a := \<lparr>m_id = Suc (s_fiber_id s), m_state = EXEC, m_cb = None,
            m_stack = False, m_stackSize = 0, m_ctx = here s\<rparr>),
          s_fiber_id := Suc (s_fiber_id s), s_fiber_count := Suc (s_fiber_count s),
          tick := Suc (tick s)\<rparr>)"

definition Fiber_new :: "u32 \<Rightarrow> fid \<Rightarrow> 'c option \<Rightarrow> u64 \<Rightarrow> bool \<Rightarrow> 'c fiber_thread \<Rightarrow> 'c fiber_thread" where
  "Fiber_new dflt a cb stacksize use_caller s =
     s\<lparr>fibers := (fibers s)(a := \<lparr>m_id = Suc (s_fiber_id s), m_state = INIT, m_cb = cb,
          m_stack = True, m_stackSize = (if stacksize \<noteq> 0 then ucast stacksize else dflt),
          m_ctx = Entry a use_caller\<rparr>),
       s_fiber_id := Suc (s_fiber_id s), s_fiber_count := Suc (s_fiber_count s)\<rparr>"

definition Fiber_destroy :: "fid \<Rightarrow> 'c fiber_thread \<Rightarrow> fiber_error + 'c fiber_thread" where
  "Fiber_destroy a s =
     (let f = fibers s a; s1 = s\<lparr>s_fiber_count := s_fiber_count s - 1\<rparr>
      in if m_stack f then fiber_assert (m_state f = INIT \<or> m_state f = Term) s1
         else if m_cb f \<noteq> None then Inl Assertion
         else fiber_assert (m_state f = EXEC) (if t_fiber s1 = Some a then setThis None s1 else s1))"

definition Fiber_reset :: "fid \<Rightarrow> 'c option \<Rightarrow> 'c fiber_thread \<Rightarrow> fiber_error + 'c fiber_thread" where
  "Fiber_reset a cb s =
     (let f = fibers s a
      in if \<not> m_stack f then Inl Assertion
         else fiber_assert (m_state f = INIT \<or> m_state f = Term \<or> m_state f = EXCEPT)
                (upd_fiber a (\<lambda>f. f\<lparr>m_cb := cb, m_state := INIT, m_ctx := Entry a False\<rparr>) s))"

text \<open>\<^verbatim>\<open>getThis\<close> makes the thread's main fiber, at \<open>a\<close>, when there is no current fiber.\<close>

definition getThis :: "fid \<Rightarrow> 'c fiber_thread \<Rightarrow> fid \<times> 'c fiber_thread" where
  "getThis a s =
     (case t_fiber s of Some f \<Rightarrow> (f, s)
      | None \<Rightarrow> (a, (Fiber_main a s)\<lparr>t_threadFiber := Some a\<rparr>))"

section \<open>Switching\<close>

definition call :: "fid \<Rightarrow> 'c fiber_thread \<Rightarrow> fiber_error + 'c fiber_thread" where
  "call a s =
     (let s1 = upd_fiber a (\<lambda>f. f\<lparr>m_state := EXEC\<rparr>) (setThis (Some a) s)
      in rbind (the_fiber (t_threadFiber s1)) (\<lambda>t. Inr (swapcontext t a s1)))"

definition fiber_back :: "fid \<Rightarrow> 'c fiber_thread \<Rightarrow> fiber_error + 'c fiber_thread" where
  "fiber_back a s =
     (let s1 = setThis (t_threadFiber s) s
      in rbind (the_fiber (t_threadFiber s1)) (\<lambda>t. Inr (swapcontext a t s1)))"

definition swapIn :: "fid \<Rightarrow> 'c fiber_thread \<Rightarrow> fiber_error + 'c fiber_thread" where
  "swapIn a s =
     (let s1 = setThis (Some a) s
      in if m_state (fibers s1 a) = EXEC then Inl Assertion
         else let s2 = upd_fiber a (\<lambda>f. f\<lparr>m_state := EXEC\<rparr>) s1
              in rbind (the_fiber (t_scheduler_fiber s2)) (\<lambda>m. Inr (swapcontext m a s2)))"

definition swapOut :: "fid \<Rightarrow> 'c fiber_thread \<Rightarrow> fiber_error + 'c fiber_thread" where
  "swapOut a s =
     (let s1 = setThis (t_scheduler_fiber s) s
      in rbind (the_fiber (t_scheduler_fiber s1)) (\<lambda>m. Inr (swapcontext a m s1)))"

definition yieldToHold :: "fid \<Rightarrow> 'c fiber_thread \<Rightarrow> fiber_error + 'c fiber_thread" where
  "yieldToHold a s =
     (let (cur, s1) = getThis a s
      in if m_state (fibers s1 cur) \<noteq> EXEC then Inl Assertion
         else swapOut cur (upd_fiber cur (\<lambda>f. f\<lparr>m_state := HOLD\<rparr>) s1))"

definition yieldToReady :: "fid \<Rightarrow> 'c fiber_thread \<Rightarrow> fiber_error + 'c fiber_thread" where
  "yieldToReady a s =
     (let (cur, s1) = getThis a s
      in if m_state (fibers s1 cur) \<noteq> EXEC then Inl Assertion
         else swapIn cur (upd_fiber cur (\<lambda>f. f\<lparr>m_state := READY\<rparr>) s1))"

text \<open>
  The end of \<^verbatim>\<open>MainFunc\<close> and \<^verbatim>\<open>CallerMainFunc\<close>, for the fiber \<open>cur\<close> whose function has returned or
  thrown; calling an empty function throws.
\<close>

definition finish :: "fid \<Rightarrow> bool \<Rightarrow> 'c fiber_thread \<Rightarrow> 'c fiber_thread" where
  "finish cur threw s =
     (if threw \<or> m_cb (fibers s cur) = None then upd_fiber cur (\<lambda>f. f\<lparr>m_state := EXCEPT\<rparr>) s
      else upd_fiber cur (\<lambda>f. f\<lparr>m_cb := None, m_state := Term\<rparr>) s)"

definition MainFunc :: "fid \<Rightarrow> bool \<Rightarrow> 'c fiber_thread \<Rightarrow> fiber_error + 'c fiber_thread" where
  "MainFunc cur threw s = swapOut cur (finish cur threw s)"

definition CallerMainFunc :: "fid \<Rightarrow> bool \<Rightarrow> 'c fiber_thread \<Rightarrow> fiber_error + 'c fiber_thread" where
  "CallerMainFunc cur threw s = fiber_back cur (finish cur threw s)"

definition GetFiberId :: "'c fiber_thread \<Rightarrow> nat" where
  "GetFiberId s = (case t_fiber s of None \<Rightarrow> 0 | Some f \<Rightarrow> m_id (fibers s f))"

section \<open>Contexts belong to their fibers\<close>

text \<open>
  In a sound state the running fiber is the current one, and every other fiber's saved context
  lies on its own stack, in the past.
\<close>

definition ctx_inv :: "'c fiber_thread \<Rightarrow> bool" where
  "ctx_inv s \<longleftrightarrow> t_fiber s = Some (on_stack s) \<and>
     (\<forall>f. owner (m_ctx (fibers s f)) = f) \<and>
     (\<forall>f g n. m_ctx (fibers s f) = At g n \<longrightarrow> n < tick s)"

lemma upd_fiber_simps [simp]:
  "fibers (upd_fiber f g s) = (fibers s)(f := g (fibers s f))"
  "t_fiber (upd_fiber f g s) = t_fiber s"
  "t_threadFiber (upd_fiber f g s) = t_threadFiber s"
  "t_scheduler_fiber (upd_fiber f g s) = t_scheduler_fiber s"
  "on_stack (upd_fiber f g s) = on_stack s"
  "tick (upd_fiber f g s) = tick s"
  by (simp_all add: upd_fiber_def)

lemma swapcontext_simps:
  assumes "save \<noteq> load"
  shows "fibers (swapcontext save load s) = (fibers s)(save := (fibers s save)\<lparr>m_ctx := here s\<rparr>)"
    and "on_stack (swapcontext save load s) = owner (m_ctx (fibers s load))"
    and "tick (swapcontext save load s) = Suc (tick s)"
    and "resumed (swapcontext save load s) = m_ctx (fibers s load)"
    and "t_fiber (swapcontext save load s) = t_fiber s"
    and "t_scheduler_fiber (swapcontext save load s) = t_scheduler_fiber s"
    and "t_threadFiber (swapcontext save load s) = t_threadFiber s"
  using assms by (simp_all add: swapcontext_def Let_def)

text \<open>Switching in from the scheduling fiber.\<close>

lemma swapIn_ok:
  assumes "t_scheduler_fiber s = Some m" and "m \<noteq> a" and "m_state (fibers s a) \<noteq> EXEC"
  shows "\<exists>s'. swapIn a s = Inr s' \<and>
    fibers s' = (fibers s)(a := (fibers s a)\<lparr>m_state := EXEC\<rparr>, m := (fibers s m)\<lparr>m_ctx := here s\<rparr>) \<and>
    t_fiber s' = Some a \<and> t_scheduler_fiber s' = Some m \<and> t_threadFiber s' = t_threadFiber s \<and>
    on_stack s' = owner (m_ctx (fibers s a)) \<and> resumed s' = m_ctx (fibers s a) \<and> tick s' = Suc (tick s)"
  using assms
  by (simp add: swapIn_def Let_def the_fiber_def setThis_def swapcontext_simps here_def fun_upd_twist)

lemma swapOut_ok:
  assumes "t_scheduler_fiber s = Some m" and "m \<noteq> a"
  shows "\<exists>s'. swapOut a s = Inr s' \<and>
    fibers s' = (fibers s)(a := (fibers s a)\<lparr>m_ctx := here s\<rparr>) \<and>
    t_fiber s' = Some m \<and> t_scheduler_fiber s' = Some m \<and> t_threadFiber s' = t_threadFiber s \<and>
    on_stack s' = owner (m_ctx (fibers s m)) \<and> resumed s' = m_ctx (fibers s m) \<and> tick s' = Suc (tick s)"
  using assms
  by (simp add: swapOut_def Let_def the_fiber_def setThis_def swapcontext_simps here_def)

lemma ctx_inv_swapIn:
  assumes inv: "ctx_inv s" and m: "t_scheduler_fiber s = Some m" "m \<noteq> a" "on_stack s = m"
    and st: "m_state (fibers s a) \<noteq> EXEC" and run: "swapIn a s = Inr s'"
  shows "ctx_inv s'"
  using swapIn_ok [OF m(1,2) st] run inv m
  by (auto simp: ctx_inv_def here_def less_Suc_eq split: if_splits)

lemma ctx_inv_swapOut:
  assumes inv: "ctx_inv s" and m: "t_scheduler_fiber s = Some m" "m \<noteq> a" "on_stack s = a"
    and run: "swapOut a s = Inr s'"
  shows "ctx_inv s'"
  using swapOut_ok [OF m(1,2)] run inv m
  by (auto simp: ctx_inv_def here_def less_Suc_eq split: if_splits)

text \<open>A thread that has not used fibers yet runs on the stack of its future main fiber.\<close>

definition start_thread :: "fid \<Rightarrow> 'c fiber_thread" where
  "start_thread a =
     \<lparr>fibers = (\<lambda>f. \<lparr>m_id = 0, m_state = INIT, m_cb = None, m_stack = False, m_stackSize = 0,
                    m_ctx = Entry f False\<rparr>),
      t_fiber = None, t_threadFiber = None, t_scheduler_fiber = None, s_fiber_id = 0,
      s_fiber_count = 0, on_stack = a, tick = 0, resumed = At a 0\<rparr>"

lemma ctx_inv_start: "ctx_inv (snd (getThis a (start_thread a)))"
  by (simp add: getThis_def start_thread_def Fiber_main_def setThis_def ctx_inv_def here_def)

lemma ctx_inv_new: "ctx_inv s \<Longrightarrow> ctx_inv (Fiber_new dflt a cb sz caller s)"
  by (simp add: ctx_inv_def Fiber_new_def)

lemma yieldToHold_eq:
  "t_fiber s = Some a \<Longrightarrow> m_state (fibers s a) = EXEC \<Longrightarrow>
    yieldToHold b s = swapOut a (upd_fiber a (\<lambda>f. f\<lparr>m_state := HOLD\<rparr>) s)"
  by (simp add: yieldToHold_def getThis_def)

lemma yieldToReady_eq:
  "t_fiber s = Some a \<Longrightarrow> m_state (fibers s a) = EXEC \<Longrightarrow>
    yieldToReady b s = swapIn a (upd_fiber a (\<lambda>f. f\<lparr>m_state := READY\<rparr>) s)"
  by (simp add: yieldToReady_def getThis_def)

end
