(* ===== verification/Fiber_Properties.thy ===== *)
theory Fiber_Properties
  imports Fiber
begin

text \<open>
  The properties of fibers: switching to a fiber and back, the two ways to yield, and the states
  a fiber ends in.
\<close>

text \<open>A thread with its main fiber 0, which also schedules, and the new fiber 1, for the witnesses.\<close>

definition two_fibers :: "nat fiber_thread" where
  "two_fibers = (Fiber_new 131072 1 (Some 7) 0 False (snd (getThis 0 (start_thread 0))))
     \<lparr>t_scheduler_fiber := Some 0\<rparr>"

lemma two_fibers_facts:
  "ctx_inv two_fibers" "t_scheduler_fiber two_fibers = Some 0" "on_stack two_fibers = 0"
  "m_state (fibers two_fibers 1) = INIT" "m_stack (fibers two_fibers 1)"
  "m_cb (fibers two_fibers 1) = Some 7"
  using ctx_inv_new [OF ctx_inv_start [of 0], of 131072 1 "Some (7::nat)" 0 False]
  by (simp_all add: two_fibers_def ctx_inv_def)
    (simp_all add: Fiber_new_def getThis_def start_thread_def Fiber_main_def setThis_def)

text \<open>C14. Scheduling a fiber and yielding with \<^verbatim>\<open>yieldToHold\<close> is a coroutine: the fiber runs on its
  own stack as the current fiber, the yield resumes the scheduler exactly after its \<^verbatim>\<open>swapIn\<close>, the
  fiber is left in state \<^verbatim>\<open>HOLD\<close>, and the next \<^verbatim>\<open>swapIn\<close> resumes it exactly after its yield.\<close>

theorem hold_and_resume:
  assumes "ctx_inv s" and "t_scheduler_fiber s = Some m" and "on_stack s = m" and "a \<noteq> m"
    and "m_state (fibers s a) \<noteq> EXEC"
  shows "\<exists>s1 s2 s3. swapIn a s = Inr s1 \<and> on_stack s1 = a \<and> t_fiber s1 = Some a \<and>
           yieldToHold b s1 = Inr s2 \<and> resumed s2 = here s \<and> t_fiber s2 = Some m \<and>
           m_state (fibers s2 a) = HOLD \<and> ctx_inv s2 \<and>
           swapIn a s2 = Inr s3 \<and> resumed s3 = here s1 \<and> on_stack s3 = a"
proof -
  have m: "m \<noteq> a" using assms(4) by simp
  obtain s1 where s1: "swapIn a s = Inr s1"
      "fibers s1 = (fibers s)(a := (fibers s a)\<lparr>m_state := EXEC\<rparr>, m := (fibers s m)\<lparr>m_ctx := here s\<rparr>)"
      "t_fiber s1 = Some a" "t_scheduler_fiber s1 = Some m" "on_stack s1 = owner (m_ctx (fibers s a))"
      "tick s1 = Suc (tick s)"
    using swapIn_ok [OF assms(2) m assms(5)] by blast
  have inv1: "ctx_inv s1"
    by (rule ctx_inv_swapIn [OF assms(1,2) m assms(3,5) s1(1)])
  have on1: "on_stack s1 = a" using assms(1) s1(5) by (simp add: ctx_inv_def)
  define u where "u = upd_fiber a (\<lambda>f. f\<lparr>m_state := HOLD\<rparr>) s1"
  have u: "t_scheduler_fiber u = Some m" "on_stack u = a" "here u = here s1"
    using s1(4) on1 by (simp_all add: u_def here_def)
  have invu: "ctx_inv u" using inv1 by (simp add: ctx_inv_def u_def)
  obtain s2 where s2: "swapOut a u = Inr s2" "fibers s2 = (fibers u)(a := (fibers u a)\<lparr>m_ctx := here u\<rparr>)"
      "t_fiber s2 = Some m" "t_scheduler_fiber s2 = Some m"
      "on_stack s2 = owner (m_ctx (fibers u m))" "resumed s2 = m_ctx (fibers u m)"
    using swapOut_ok [OF u(1) m] by blast
  have y: "yieldToHold b s1 = Inr s2"
    using s2(1) s1(2,3) m by (simp add: yieldToHold_eq u_def)
  have r2: "resumed s2 = here s" "m_state (fibers s2 a) = HOLD" "m_ctx (fibers s2 a) = here s1"
    using s2(2,6) s1(2) m u(3) by (simp_all add: u_def)
  have inv2: "ctx_inv s2" by (rule ctx_inv_swapOut [OF invu u(1) m u(2) s2(1)])
  obtain s3 where "swapIn a s2 = Inr s3" "resumed s3 = m_ctx (fibers s2 a)"
      "on_stack s3 = owner (m_ctx (fibers s2 a))"
    using swapIn_ok [OF s2(4) m, of] r2(2) by auto
  moreover have "owner (here s1) = a" using on1 by (simp add: here_def)
  ultimately show ?thesis
    using s1(1,3) on1 y r2 s2(3) inv2 by auto
qed

theorem hold_and_resume_witness:
  "\<exists>s1 s2. swapIn 1 two_fibers = Inr s1 \<and> yieldToHold 5 s1 = Inr s2 \<and> resumed s2 = here two_fibers"
  using hold_and_resume [OF two_fibers_facts(1,2,3), of 1 5] two_fibers_facts(4) by auto

text \<open>\<^verbatim>\<open>yieldToReady\<close> does not yield: it switches the running fiber to itself. The state is
  \<^verbatim>\<open>EXEC\<close> again, never \<^verbatim>\<open>READY\<close>; execution goes on at the fiber's previous context instead of
  after the call; and the scheduler's saved context is replaced by a point on this fiber's stack,
  so that the next \<^verbatim>\<open>swapOut\<close> comes back to the fiber and the scheduler is never resumed.\<close>

theorem yieldToReady_loses_scheduler:
  assumes "ctx_inv s" and "t_scheduler_fiber s = Some m" and "on_stack s = a" and "a \<noteq> m"
    and "m_state (fibers s a) = EXEC"
  shows "\<exists>s1 s2. yieldToReady b s = Inr s1 \<and> m_state (fibers s1 a) = EXEC \<and>
           resumed s1 = m_ctx (fibers s a) \<and> resumed s1 \<noteq> here s \<and> on_stack s1 = a \<and>
           m_ctx (fibers s1 m) = here s \<and> \<not> ctx_inv s1 \<and>
           swapOut a s1 = Inr s2 \<and> resumed s2 = here s \<and> on_stack s2 = a"
proof -
  have m: "m \<noteq> a" and cur: "t_fiber s = Some a" and own: "owner (m_ctx (fibers s a)) = a"
    using assms(1,3,4) by (auto simp: ctx_inv_def)
  define u where "u = upd_fiber a (\<lambda>f. f\<lparr>m_state := READY\<rparr>) s"
  have u: "t_scheduler_fiber u = Some m" "m_state (fibers u a) \<noteq> EXEC" "here u = here s"
      "m_ctx (fibers u a) = m_ctx (fibers s a)"
    using assms(2) by (simp_all add: u_def here_def)
  obtain s1 where s1: "swapIn a u = Inr s1"
      "fibers s1 = (fibers u)(a := (fibers u a)\<lparr>m_state := EXEC\<rparr>, m := (fibers u m)\<lparr>m_ctx := here u\<rparr>)"
      "t_scheduler_fiber s1 = Some m" "on_stack s1 = owner (m_ctx (fibers u a))"
      "resumed s1 = m_ctx (fibers u a)" "tick s1 = Suc (tick u)"
    using swapIn_ok [OF u(1) m u(2)] by blast
  have y: "yieldToReady b s = Inr s1"
    using s1(1) by (simp add: yieldToReady_eq [OF cur assms(5)] u_def)
  have neq: "resumed s1 \<noteq> here s"
    using assms(1) s1(5) u(4) by (auto simp: ctx_inv_def here_def)
  have on: "on_stack s1 = a" using s1(4) u(4) own by simp
  have ctx: "m_ctx (fibers s1 m) = here s" using s1(2) u(3) by simp
  have "\<not> ctx_inv s1"
  proof
    assume "ctx_inv s1"
    then have "owner (m_ctx (fibers s1 m)) = m" by (simp add: ctx_inv_def)
    then show False using ctx assms(3) m by (simp add: here_def)
  qed
  moreover obtain s2 where "swapOut a s1 = Inr s2" "on_stack s2 = owner (m_ctx (fibers s1 m))"
      "resumed s2 = m_ctx (fibers s1 m)"
    using swapOut_ok [OF s1(3) m] by blast
  ultimately show ?thesis
    using y neq on ctx s1(2,5) u(4) m assms(3) by (auto simp: here_def)
qed

theorem yieldToReady_loses_scheduler_witness:
  "\<exists>s s1. yieldToReady 5 s = Inr s1 \<and> m_state (fibers s1 1) = EXEC \<and> \<not> ctx_inv (s1 :: nat fiber_thread)"
proof -
  obtain s where s: "swapIn 1 two_fibers = Inr s" "on_stack s = 1" "t_fiber s = Some 1"
      "fibers s = (fibers two_fibers)(1 := (fibers two_fibers 1)\<lparr>m_state := EXEC\<rparr>,
         0 := (fibers two_fibers 0)\<lparr>m_ctx := here two_fibers\<rparr>)" "t_scheduler_fiber s = Some 0"
    using swapIn_ok [OF two_fibers_facts(2), of 1] two_fibers_facts(1,4) by (auto simp: ctx_inv_def)
  have "ctx_inv s"
    using ctx_inv_swapIn [OF two_fibers_facts(1,2) _ two_fibers_facts(3) _ s(1)] two_fibers_facts(4) by simp
  from yieldToReady_loses_scheduler [OF this s(5,2), of 5] s(4) show ?thesis by auto
qed

text \<open>A fiber whose function returns ends in \<^verbatim>\<open>TERM\<close> with its function released, one whose
  function throws or is empty ends in \<^verbatim>\<open>EXCEPT\<close>; both give way to the scheduler and can be reset
  for another function, which always restarts in \<^verbatim>\<open>MainFunc\<close>, but only the former can be
  destroyed: the destructor's assertion does not allow \<^verbatim>\<open>EXCEPT\<close>.\<close>

theorem fiber_end:
  assumes "t_scheduler_fiber s = Some m" and "m \<noteq> a" and "m_stack (fibers s a)"
  shows "\<exists>s'. MainFunc a threw s = Inr s' \<and> resumed s' = m_ctx (fibers s m) \<and>
           (if threw \<or> m_cb (fibers s a) = None
            then m_state (fibers s' a) = EXCEPT \<and> Fiber_destroy a s' = Inl Assertion
            else m_state (fibers s' a) = Term \<and> m_cb (fibers s' a) = None \<and>
                 Fiber_destroy a s' = Inr (s'\<lparr>s_fiber_count := s_fiber_count s' - 1\<rparr>)) \<and>
           (\<exists>s''. Fiber_reset a cb s' = Inr s'' \<and> m_state (fibers s'' a) = INIT \<and>
                  m_ctx (fibers s'' a) = Entry a False)"
proof -
  have u: "t_scheduler_fiber (finish a threw s) = Some m" "fibers (finish a threw s) m = fibers s m"
      "m_stack (fibers (finish a threw s) a)"
      "m_state (fibers (finish a threw s) a) = (if threw \<or> m_cb (fibers s a) = None then EXCEPT else Term)"
      "threw \<or> m_cb (fibers s a) = None \<or> m_cb (fibers (finish a threw s) a) = None"
    using assms by (simp_all add: finish_def)
  obtain s' where s': "swapOut a (finish a threw s) = Inr s'"
      "fibers s' = (fibers (finish a threw s))(a := (fibers (finish a threw s) a)\<lparr>m_ctx := here (finish a threw s)\<rparr>)"
      "resumed s' = m_ctx (fibers (finish a threw s) m)"
    using swapOut_ok [OF u(1) assms(2)] by blast
  have f: "m_stack (fibers s' a)"
      "m_state (fibers s' a) = (if threw \<or> m_cb (fibers s a) = None then EXCEPT else Term)"
      "threw \<or> m_cb (fibers s a) = None \<or> m_cb (fibers s' a) = None"
    using u(3-5) s'(2) by simp_all
  have "MainFunc a threw s = Inr s'" "resumed s' = m_ctx (fibers s m)"
    using s'(1,3) u(2) by (simp_all add: MainFunc_def)
  then show ?thesis
    using f by (intro exI [of _ s']) (auto simp: Fiber_destroy_def Fiber_reset_def fiber_assert_def Let_def)
qed

theorem fiber_end_witness:
  "\<exists>s'. MainFunc 1 True two_fibers = Inr s' \<and> Fiber_destroy 1 s' = Inl Assertion"
  using fiber_end [OF two_fibers_facts(2), of 1 True None] two_fibers_facts(5) by auto

end
