(* ===== verification/Scheduler.thy ===== *)
theory Scheduler
  imports Fiber
begin

text \<open>
  \<^verbatim>\<open>src/src/fiber/scheduler.{h,cpp}\<close>: the task queue, the scheduling loop \<^verbatim>\<open>run\<close> of one worker thread,
  starting and stopping, and the load statistics. A task is a fiber or a function, possibly bound
  to a thread. The states and functions of the fiber objects the scheduler handles are kept in the
  maps \<open>fstate\<close> and \<open>fcb\<close>; what happens while a fiber runs, up to the moment control returns to the
  scheduling fiber, is the argument \<open>user\<close>, any function of the fiber and the scheduler's state.
  One call of \<open>run_iter\<close> is one turn of the \<^verbatim>\<open>while(true)\<close> loop.

  After \<^verbatim>\<open>m_fibers.erase(it)\<close> the loop compares the erased iterator with \<^verbatim>\<open>end()\<close>; the model takes
  the comparison to be false, as it is for the node-based list.
\<close>

section \<open>State\<close>

record 'c task =
  task_fiber :: "fid option"
  task_cb :: "'c option"
  thread_id :: int

definition FiberTask :: "fid option \<Rightarrow> 'c option \<Rightarrow> int \<Rightarrow> 'c task" where
  "FiberTask f c th = \<lparr>task_fiber = f, task_cb = c, thread_id = th\<rparr>"

record 'c scheduler =
  m_running :: bool
  m_autoStop :: bool
  m_threadNum :: nat
  m_idelThreadNum :: nat
  m_activeThreadNum :: nat
  m_rootThread :: int
  m_mainFiber :: "fid option"
  m_threadIds :: "int list"
  m_threads :: "int list"
  m_fibers :: "'c task list"
  fstate :: "fid \<Rightarrow> fiber_state"
  fcb :: "fid \<Rightarrow> 'c option"
  tickles :: nat

definition set_fstate :: "fid \<Rightarrow> fiber_state \<Rightarrow> 'c scheduler \<Rightarrow> 'c scheduler" where
  "set_fstate f st s = s\<lparr>fstate := (fstate s)(f := st)\<rparr>"

definition tickle :: "'c scheduler \<Rightarrow> 'c scheduler" where
  "tickle s = s\<lparr>tickles := Suc (tickles s)\<rparr>"

text \<open>\<^verbatim>\<open>Scheduler::Scheduler\<close>, with the id of the creating thread and the address of its fiber.\<close>

definition Scheduler :: "nat \<Rightarrow> bool \<Rightarrow> int \<Rightarrow> fid \<Rightarrow> 'c \<Rightarrow> fiber_error + 'c scheduler" where
  "Scheduler threads use_caller tid a run_cb =
     (if threads = 0 then Inl Assertion
      else Inr \<lparr>m_running = False, m_autoStop = False,
                m_threadNum = (if use_caller then threads - 1 else threads),
                m_idelThreadNum = 0, m_activeThreadNum = 0,
                m_rootThread = (if use_caller then tid else -1),
                m_mainFiber = (if use_caller then Some a else None),
                m_threadIds = (if use_caller then [tid] else []), m_threads = [], m_fibers = [],
                fstate = (\<lambda>_. INIT), fcb = (\<lambda>f. if use_caller \<and> f = a then Some run_cb else None),
                tickles = 0\<rparr>)"

section \<open>Scheduling\<close>

definition scheduleNonLock :: "'c task \<Rightarrow> 'c scheduler \<Rightarrow> bool \<times> 'c scheduler" where
  "scheduleNonLock item s =
     (let need_tickle = (m_fibers s = [])
      in (need_tickle, if task_cb item \<noteq> None \<or> task_fiber item \<noteq> None
                       then s\<lparr>m_fibers := m_fibers s @ [item]\<rparr> else s))"

definition schedule :: "'c task \<Rightarrow> 'c scheduler \<Rightarrow> 'c scheduler" where
  "schedule item s =
     (let (need_tickle, s1) = scheduleNonLock item s in if need_tickle then tickle s1 else s1)"

text \<open>The overload for a range of functions.\<close>

primrec schedule_loop :: "bool \<Rightarrow> 'c option list \<Rightarrow> 'c scheduler \<Rightarrow> bool \<times> 'c scheduler" where
  "schedule_loop need [] s = (need, s)"
| "schedule_loop need (c # cs) s =
     (let (n, s1) = scheduleNonLock (FiberTask None c (-1)) s in schedule_loop (need \<or> n) cs s1)"

definition schedule_range :: "'c option list \<Rightarrow> 'c scheduler \<Rightarrow> 'c scheduler" where
  "schedule_range cbs s =
     (let (need_tickle, s1) = schedule_loop False cbs s in if need_tickle then tickle s1 else s1)"

section \<open>The scheduling loop\<close>

text \<open>The search for a task: the flag, and the task with the queue it leaves.\<close>

fun scan ::
  "int \<Rightarrow> (fid \<Rightarrow> fiber_state) \<Rightarrow> 'c task list \<Rightarrow> fiber_error + bool \<times> ('c task \<times> 'c task list) option" where
  "scan tid st [] = Inr (False, None)"
| "scan tid st (t # ts) =
     (if thread_id t \<noteq> -1 \<and> thread_id t \<noteq> tid then
        rbind (scan tid st ts) (\<lambda>(_, r). Inr (True, map_option (\<lambda>(x, q). (x, t # q)) r))
      else if task_fiber t = None \<and> task_cb t = None then Inl Assertion
      else if \<exists>f. task_fiber t = Some f \<and> st f = EXEC then
        rbind (scan tid st ts) (\<lambda>(n, r). Inr (n, map_option (\<lambda>(x, q). (x, t # q)) r))
      else Inr (False, Some (t, ts)))"

definition pick :: "int \<Rightarrow> 'c scheduler \<Rightarrow> fiber_error + bool \<times> 'c task option \<times> 'c scheduler" where
  "pick tid s =
     rbind (scan tid (fstate s) (m_fibers s)) (\<lambda>(n, r).
       case r of None \<Rightarrow> Inr (True, None, s)
       | Some (t, q) \<Rightarrow> Inr (n, Some t, s\<lparr>m_fibers := q, m_activeThreadNum := Suc (m_activeThreadNum s)\<rparr>))"

type_synonym 'c user = "fid \<Rightarrow> 'c scheduler \<Rightarrow> 'c scheduler"

definition swap_in :: "'c user \<Rightarrow> fid \<Rightarrow> 'c scheduler \<Rightarrow> fiber_error + 'c scheduler" where
  "swap_in user f s =
     (if fstate s f = EXEC then Inl Assertion else Inr (user f (set_fstate f EXEC s)))"

definition leave :: "'c scheduler \<Rightarrow> 'c scheduler" where
  "leave s = s\<lparr>m_activeThreadNum := usub (m_activeThreadNum s) 1\<rparr>"

definition over :: "fiber_state \<Rightarrow> bool" where
  "over st \<longleftrightarrow> st = Term \<or> st = EXCEPT"

definition hold_unless_over :: "fid \<Rightarrow> 'c scheduler \<Rightarrow> 'c scheduler" where
  "hold_unless_over f s = (if over (fstate s f) then s else set_fstate f HOLD s)"

text \<open>A task that is a fiber.\<close>

definition run_fiber :: "'c user \<Rightarrow> fid \<Rightarrow> int \<Rightarrow> 'c scheduler \<Rightarrow> fiber_error + 'c scheduler" where
  "run_fiber user f th s =
     rbind (swap_in user f s) (\<lambda>s1.
       let s2 = leave s1
       in Inr (if fstate s2 f = READY then schedule (FiberTask (Some f) None th) s2
               else hold_unless_over f s2))"

text \<open>
  A task that is a function runs in the worker's \<^verbatim>\<open>cb_fiber\<close>, which is made at \<open>fresh\<close> when there is
  none; the result holds the \<^verbatim>\<open>cb_fiber\<close> that is kept.
\<close>

definition reset_fiber :: "fid \<Rightarrow> 'c option \<Rightarrow> 'c scheduler \<Rightarrow> fiber_error + 'c scheduler" where
  "reset_fiber f c s =
     (if fstate s f = INIT \<or> fstate s f = Term \<or> fstate s f = EXCEPT
      then Inr ((set_fstate f INIT s)\<lparr>fcb := (fcb s)(f := c)\<rparr>) else Inl Assertion)"

definition run_cb ::
  "'c user \<Rightarrow> fid \<Rightarrow> fid option \<Rightarrow> 'c \<Rightarrow> int \<Rightarrow> 'c scheduler \<Rightarrow> fiber_error + fid option \<times> 'c scheduler" where
  "run_cb user fresh cb_fiber c th s =
     rbind (case cb_fiber of
              Some f \<Rightarrow> rbind (reset_fiber f (Some c) s) (\<lambda>s1. Inr (f, s1))
            | None \<Rightarrow> Inr (fresh, (set_fstate fresh INIT s)\<lparr>fcb := (fcb s)(fresh := Some c)\<rparr>)) (\<lambda>(f, s1).
     rbind (swap_in user f s1) (\<lambda>s2.
       let s3 = leave s2
       in if fstate s3 f = READY then Inr (None, schedule (FiberTask (Some f) None th) s3)
          else if \<not> over (fstate s3 f) then Inr (None, set_fstate f HOLD s3)
          else rbind (reset_fiber f None s3) (\<lambda>s4. Inr (Some f, s4))))"

datatype 'a turn = Break 'a | Continue 'a

definition run_idle :: "'c user \<Rightarrow> fid \<Rightarrow> 'c scheduler \<Rightarrow> fiber_error + 'c scheduler turn" where
  "run_idle user idle s =
     (if fstate s idle = Term then Inr (Break s)
      else let s1 = s\<lparr>m_idelThreadNum := Suc (m_idelThreadNum s)\<rparr>
           in rbind (swap_in user idle s1) (\<lambda>s2.
              Inr (Continue (hold_unless_over idle
                (s2\<lparr>m_idelThreadNum := usub (m_idelThreadNum s2) 1\<rparr>)))))"

definition run_iter ::
  "int \<Rightarrow> 'c user \<Rightarrow> fid \<Rightarrow> fid \<Rightarrow> fid option \<Rightarrow> 'c scheduler \<Rightarrow> fiber_error + (fid option \<times> 'c scheduler) turn" where
  "run_iter tid user idle fresh cb_fiber s =
     rbind (pick tid s) (\<lambda>(needTickle, ft, s1).
       let s2 = (if needTickle then tickle s1 else s1)
       in case ft of
            None \<Rightarrow> rbind (run_idle user idle s2) (\<lambda>t. case t of
                Break s3 \<Rightarrow> Inr (Break (cb_fiber, s3)) | Continue s3 \<Rightarrow> Inr (Continue (cb_fiber, s3)))
          | Some t \<Rightarrow>
              (case task_fiber t of
                 Some f \<Rightarrow>
                   if \<not> over (fstate s2 f) then
                     rbind (run_fiber user f (thread_id t) s2) (\<lambda>s3. Inr (Continue (cb_fiber, s3)))
                   else (case task_cb t of
                       Some c \<Rightarrow> rbind (run_cb user fresh cb_fiber c (thread_id t) s2) (\<lambda>r. Inr (Continue r))
                     | None \<Rightarrow> Inr (Continue (cb_fiber, leave s2)))
               | None \<Rightarrow>
                   (case task_cb t of
                      Some c \<Rightarrow> rbind (run_cb user fresh cb_fiber c (thread_id t) s2) (\<lambda>r. Inr (Continue r))
                    | None \<Rightarrow> Inr (Continue (cb_fiber, leave s2)))))"

section \<open>Starting and stopping\<close>

definition start :: "int list \<Rightarrow> 'c scheduler \<Rightarrow> 'c scheduler" where
  "start ids s =
     (if m_running s then s
      else s\<lparr>m_running := True, m_threads := take (m_threadNum s) ids,
             m_threadIds := m_threadIds s @ take (m_threadNum s) ids\<rparr>)"

definition stopping :: "'c scheduler \<Rightarrow> bool" where
  "stopping s \<longleftrightarrow> m_autoStop s \<and> \<not> m_running s \<and> m_fibers s = [] \<and> m_activeThreadNum s = 0"

text \<open>
  \<^verbatim>\<open>stop\<close> on a thread whose current scheduler is this one or not (\<open>own\<close>); joining the workers lets
  them finish (\<open>joined\<close>). The flag of the result says whether the main fiber is called in the end.
\<close>

definition stop :: "bool \<Rightarrow> ('c scheduler \<Rightarrow> 'c scheduler) \<Rightarrow> 'c scheduler \<Rightarrow> fiber_error + bool \<times> 'c scheduler" where
  "stop own joined s =
     (let s1 = s\<lparr>m_autoStop := True\<rparr>;
          early = (case m_mainFiber s1 of None \<Rightarrow> False
                   | Some f \<Rightarrow> (fstate s1 f = Term \<or> fstate s1 f = INIT) \<and> m_threadNum s1 = 0);
          s2 = (if early then s1\<lparr>m_running := False\<rparr> else s1)
      in if early \<and> stopping s2 then Inr (False, s2)
         else if (m_rootThread s2 \<noteq> -1) \<noteq> own then Inl Assertion
         else let s3 = joined (s2\<lparr>m_running := False, m_threads := []\<rparr>);
                  s4 = (if m_mainFiber s3 \<noteq> None then tickle s3 else s3)
              in if \<not> stopping s4
                 then (case m_mainFiber s4 of None \<Rightarrow> Inl Null_fiber | Some f \<Rightarrow> Inr (True, s4))
                 else Inr (False, s4))"

section \<open>Load statistics\<close>

record time_record =
  tr_sleep :: bool
  tr_duration :: u64

record load_counter =
  m_sleeping :: bool
  m_max_size :: nat
  m_last_wake :: u64
  m_last_sleep :: u64
  m_records :: "time_record list"

definition LoadCounter :: "u64 \<Rightarrow> nat \<Rightarrow> load_counter" where
  "LoadCounter now max_size =
     \<lparr>m_sleeping = True, m_max_size = max_size, m_last_wake = now, m_last_sleep = now, m_records = []\<rparr>"

definition push_record :: "time_record \<Rightarrow> load_counter \<Rightarrow> load_counter" where
  "push_record r l =
     (let rs = m_records l @ [r]
      in l\<lparr>m_records := (if m_max_size l < length rs then tl rs else rs)\<rparr>)"

definition startSleep :: "u64 \<Rightarrow> load_counter \<Rightarrow> load_counter" where
  "startSleep now l =
     push_record \<lparr>tr_sleep = False, tr_duration = now - m_last_wake l\<rparr>
       (l\<lparr>m_sleeping := True, m_last_sleep := now\<rparr>)"

definition startWork :: "u64 \<Rightarrow> load_counter \<Rightarrow> load_counter" where
  "startWork now l =
     push_record \<lparr>tr_sleep = True, tr_duration = now - m_last_sleep l\<rparr>
       (l\<lparr>m_sleeping := False, m_last_wake := now\<rparr>)"

definition total_time :: "bool \<Rightarrow> time_record list \<Rightarrow> u64" where
  "total_time b rs = sum_list (map tr_duration (filter (\<lambda>r. tr_sleep r = b) rs))"

definition totalSleepTime :: "u64 \<Rightarrow> load_counter \<Rightarrow> u64" where
  "totalSleepTime now l =
     total_time True (m_records l) + (if m_sleeping l then now - m_last_sleep l else 0)"

definition totalRunTime :: "u64 \<Rightarrow> load_counter \<Rightarrow> u64" where
  "totalRunTime now l =
     total_time False (m_records l) + (if m_sleeping l then 0 else now - m_last_wake l)"

definition getLoad :: "u64 \<Rightarrow> load_counter \<Rightarrow> int" where
  "getLoad now l =
     (if m_records l = [] then 0
      else let total = totalSleepTime now l + totalRunTime now l
           in if total = 0 then 0 else as_int (100 * totalRunTime now l div total))"

section \<open>The queue\<close>

text \<open>A task that this worker may take now.\<close>

definition eligible :: "int \<Rightarrow> (fid \<Rightarrow> fiber_state) \<Rightarrow> 'c task \<Rightarrow> bool" where
  "eligible tid st t \<longleftrightarrow> (thread_id t = -1 \<or> thread_id t = tid) \<and>
     (\<forall>f. task_fiber t = Some f \<longrightarrow> st f \<noteq> EXEC)"

definition bound_elsewhere :: "int \<Rightarrow> 'c task \<Rightarrow> bool" where
  "bound_elsewhere tid t \<longleftrightarrow> thread_id t \<noteq> -1 \<and> thread_id t \<noteq> tid"

text \<open>No queued task is empty: \<open>scheduleNonLock\<close> drops those.\<close>

definition queue_inv :: "'c scheduler \<Rightarrow> bool" where
  "queue_inv s \<longleftrightarrow> (\<forall>t \<in> set (m_fibers s). task_fiber t \<noteq> None \<or> task_cb t \<noteq> None)"

lemma scan_skip:
  assumes "\<forall>t \<in> set ts. task_fiber t \<noteq> None \<or> task_cb t \<noteq> None" and "\<forall>t \<in> set ts. \<not> eligible tid st t"
  shows "scan tid st ts = Inr (\<exists>t \<in> set ts. bound_elsewhere tid t, None)"
  using assms by (induction ts) (auto simp: eligible_def bound_elsewhere_def)

lemma scan_found:
  assumes "\<forall>t \<in> set us. task_fiber t \<noteq> None \<or> task_cb t \<noteq> None" and "\<forall>t \<in> set us. \<not> eligible tid st t"
    and "eligible tid st t" and "task_fiber t \<noteq> None \<or> task_cb t \<noteq> None"
  shows "scan tid st (us @ t # vs) = Inr (\<exists>u \<in> set us. bound_elsewhere tid u, Some (t, us @ vs))"
  using assms by (induction us) (auto simp: eligible_def bound_elsewhere_def)

lemma pick_none:
  assumes "queue_inv s" and "\<forall>t \<in> set (m_fibers s). \<not> eligible tid (fstate s) t"
  shows "pick tid s = Inr (True, None, s)"
  using assms by (simp add: pick_def queue_inv_def scan_skip)

lemma pick_some:
  assumes "queue_inv s" and "m_fibers s = us @ t # vs" and "\<forall>u \<in> set us. \<not> eligible tid (fstate s) u"
    and "eligible tid (fstate s) t"
  shows "pick tid s = Inr (\<exists>u \<in> set us. bound_elsewhere tid u, Some t,
           s\<lparr>m_fibers := us @ vs, m_activeThreadNum := Suc (m_activeThreadNum s)\<rparr>)"
  using assms by (simp add: pick_def queue_inv_def scan_found)

lemma split_first_eligible:
  assumes "\<exists>t \<in> set ts. P t"
  obtains us t vs where "ts = us @ t # vs" and "\<forall>u \<in> set us. \<not> P u" and "P t"
  using assms split_list_first_prop [of ts P] by metis

lemma scheduler_upd_simps [simp]:
  "m_fibers (tickle s) = m_fibers s" "m_activeThreadNum (tickle s) = m_activeThreadNum s"
  "fstate (tickle s) = fstate s" "tickles (tickle s) = Suc (tickles s)"
  "m_fibers (set_fstate f st s) = m_fibers s" "m_activeThreadNum (set_fstate f st s) = m_activeThreadNum s"
  "fstate (set_fstate f st s) = (fstate s)(f := st)" "tickles (set_fstate f st s) = tickles s"
  "m_fibers (leave s) = m_fibers s" "fstate (leave s) = fstate s" "tickles (leave s) = tickles s"
  "m_activeThreadNum (leave s) = usub (m_activeThreadNum s) 1"
  "m_fibers (hold_unless_over f s) = m_fibers s"
  "m_activeThreadNum (hold_unless_over f s) = m_activeThreadNum s"
  by (simp_all add: tickle_def set_fstate_def leave_def hold_unless_over_def)

lemma schedule_simps [simp]:
  "m_activeThreadNum (schedule t s) = m_activeThreadNum s"
  "m_fibers (schedule t s) = m_fibers s @ (if task_cb t \<noteq> None \<or> task_fiber t \<noteq> None then [t] else [])"
  by (simp_all add: schedule_def scheduleNonLock_def Let_def)

lemma queue_inv_schedule: "queue_inv s \<Longrightarrow> queue_inv (schedule t s)"
  by (auto simp: queue_inv_def)

end
