(* ===== verification/Scheduler_Properties.thy ===== *)
theory Scheduler_Properties
  imports Scheduler
begin

text \<open>
  The properties of the scheduler: one turn of a worker's loop, what it does before it idles,
  stopping, and the load statistics. The code that runs in a fiber is any function that adds
  non-empty tasks at the end of the queue and leaves the count of active workers as it was
  (\<open>calm\<close>).
\<close>

definition calm :: "'c user \<Rightarrow> bool" where
  "calm user \<longleftrightarrow> (\<forall>f s. m_activeThreadNum (user f s) = m_activeThreadNum s \<and>
     (\<exists>new. m_fibers (user f s) = m_fibers s @ new \<and>
        (\<forall>t \<in> set new. task_fiber t \<noteq> None \<or> task_cb t \<noteq> None)))"

definition idle_user :: "'c user" where
  "idle_user f s = set_fstate f HOLD s"

lemma calm_idle_user: "calm idle_user"
  by (simp add: calm_def idle_user_def)

text \<open>What one turn adds to the queue, and that it leaves the count alone.\<close>

definition extends :: "'c scheduler \<Rightarrow> 'c scheduler \<Rightarrow> bool" where
  "extends s s' \<longleftrightarrow> (\<exists>new. m_fibers s' = m_fibers s @ new \<and>
     (\<forall>t \<in> set new. task_fiber t \<noteq> None \<or> task_cb t \<noteq> None))"

lemma extends_trans: "extends s s' \<Longrightarrow> extends s' s'' \<Longrightarrow> extends s s''"
  by (auto simp: extends_def)

lemma extends_same: "m_fibers s' = m_fibers s \<Longrightarrow> extends s s'"
  by (simp add: extends_def)

lemma extends_schedule: "m_fibers s1 = m_fibers s \<Longrightarrow> extends s (schedule t s1)"
  by (auto simp: extends_def)

lemma calm_extends: "calm user \<Longrightarrow> extends s (user f s) \<and> m_activeThreadNum (user f s) = m_activeThreadNum s"
  by (simp add: calm_def extends_def)

lemma swap_in_calm:
  assumes "calm user" and "fstate s f \<noteq> EXEC"
  obtains s' where "swap_in user f s = Inr s'" and "extends s s'" and "m_activeThreadNum s' = m_activeThreadNum s"
proof -
  have "extends (set_fstate f EXEC s) (user f (set_fstate f EXEC s)) \<and>
      m_activeThreadNum (user f (set_fstate f EXEC s)) = m_activeThreadNum (set_fstate f EXEC s)"
    by (rule calm_extends [OF assms(1)])
  moreover have "extends s (set_fstate f EXEC s)"
    by (simp add: extends_same)
  ultimately show thesis
    using assms(2) that extends_trans by (fastforce simp: swap_in_def)
qed

lemma run_fiber_calm:
  assumes "calm user" and "fstate s f \<noteq> EXEC"
  obtains s' where "run_fiber user f th s = Inr s'" and "extends s s'"
    and "m_activeThreadNum s' = usub (m_activeThreadNum s) 1"
proof -
  obtain s1 where s1: "swap_in user f s = Inr s1" "extends s s1" "m_activeThreadNum s1 = m_activeThreadNum s"
    using swap_in_calm [OF assms] by blast
  let ?s = "if fstate (leave s1) f = READY then schedule (FiberTask (Some f) None th) (leave s1)
            else hold_unless_over f (leave s1)"
  have "extends s1 ?s"
    by (simp add: extends_schedule extends_same)
  moreover have "m_activeThreadNum ?s = usub (m_activeThreadNum s) 1"
    using s1(3) by simp
  ultimately show thesis
    using s1 that extends_trans by (simp add: run_fiber_def Let_def) blast
qed

lemma run_cb_calm:
  assumes "calm user" and "\<forall>f. cbf = Some f \<longrightarrow> fstate s f = INIT \<or> over (fstate s f)"
  obtains c' s' where "run_cb user fresh cbf c th s = Inr (c', s')" and "extends s s'"
    and "m_activeThreadNum s' = usub (m_activeThreadNum s) 1"
proof -
  obtain f s1 where s1: "(case cbf of Some f \<Rightarrow> rbind (reset_fiber f (Some c) s) (\<lambda>s1. Inr (f, s1))
        | None \<Rightarrow> Inr (fresh, (set_fstate fresh INIT s)\<lparr>fcb := (fcb s)(fresh := Some c)\<rparr>)) = Inr (f, s1)"
      "m_fibers s1 = m_fibers s" "m_activeThreadNum s1 = m_activeThreadNum s" "fstate s1 f = INIT"
    using assms(2) by (cases cbf) (auto simp: reset_fiber_def over_def)
  obtain s2 where s2: "swap_in user f s1 = Inr s2" "extends s1 s2" "m_activeThreadNum s2 = m_activeThreadNum s1"
    using swap_in_calm [OF assms(1), of s1 f] s1(4) by auto
  let ?s3 = "leave s2"
  have "\<exists>c' s'. run_cb user fresh cbf c th s = Inr (c', s') \<and> extends s2 s' \<and>
      m_activeThreadNum s' = usub (m_activeThreadNum s) 1"
  proof (cases "fstate ?s3 f = READY")
    case True
    then show ?thesis
      using s1(3) s2(3) by (simp add: run_cb_def s1(1) s2(1) Let_def extends_schedule)
  next
    case False
    then show ?thesis
      using s1(3) s2(3) by (auto simp: run_cb_def s1(1) s2(1) Let_def extends_same reset_fiber_def over_def)
  qed
  then show thesis
    using that s2(2) s1(2) extends_trans extends_same [OF s1(2)] by blast
qed

lemma run_idle_calm:
  assumes "calm user" and "fstate s idle \<noteq> EXEC"
  obtains s' where "run_idle user idle s = Inr (Break s') \<or> run_idle user idle s = Inr (Continue s')"
    and "extends s s'" and "m_activeThreadNum s' = m_activeThreadNum s"
proof (cases "fstate s idle = Term")
  case True
  then show thesis
    using that by (simp add: run_idle_def extends_same)
next
  case False
  let ?s = "s\<lparr>m_idelThreadNum := Suc (m_idelThreadNum s)\<rparr>"
  obtain s1 where s1: "swap_in user idle ?s = Inr s1" "extends ?s s1" "m_activeThreadNum s1 = m_activeThreadNum ?s"
    using swap_in_calm [OF assms(1), of ?s idle] assms(2) by auto
  let ?s' = "hold_unless_over idle (s1\<lparr>m_idelThreadNum := usub (m_idelThreadNum s1) 1\<rparr>)"
  have "extends s ?s'" using s1(2) by (simp add: extends_def)
  then show thesis
    using that [of ?s'] False s1 by (simp add: run_idle_def Let_def)
qed

lemma queue_inv_extends: "queue_inv s \<Longrightarrow> extends s s' \<Longrightarrow> queue_inv s'"
  unfolding queue_inv_def extends_def by (elim exE conjE) (simp add: ball_Un)

text \<open>C7. One turn of a worker's loop always gets through, and takes at most one task: the first
  in the queue that is not bound to another thread and whose fiber is not running. The order of
  all other tasks is kept, new ones come after them, no task is lost or duplicated, and the count
  of active workers is back at its value before the turn.\<close>

theorem turn_takes_first_eligible:
  assumes "queue_inv s" and "calm user" and "fstate s idle \<noteq> EXEC"
    and "\<forall>f. cbf = Some f \<longrightarrow> fstate s f = INIT \<or> over (fstate s f)"
  shows "\<exists>c s'. (run_iter tid user idle fresh cbf s = Inr (Break (c, s')) \<or>
                 run_iter tid user idle fresh cbf s = Inr (Continue (c, s'))) \<and>
           m_activeThreadNum s' = m_activeThreadNum s \<and> queue_inv s' \<and>
           (if \<exists>t \<in> set (m_fibers s). eligible tid (fstate s) t
            then (\<exists>us t vs new. m_fibers s = us @ t # vs \<and> eligible tid (fstate s) t \<and>
                   (\<forall>u \<in> set us. \<not> eligible tid (fstate s) u) \<and> m_fibers s' = us @ vs @ new)
            else (\<exists>new. m_fibers s' = m_fibers s @ new))"
proof (cases "\<exists>t \<in> set (m_fibers s). eligible tid (fstate s) t")
  case False
  have "fstate (tickle s) idle \<noteq> EXEC" using assms(3) by simp
  then obtain s' where s': "run_idle user idle (tickle s) = Inr (Break s') \<or>
        run_idle user idle (tickle s) = Inr (Continue s')"
      "extends (tickle s) s'" "m_activeThreadNum s' = m_activeThreadNum (tickle s)"
    using run_idle_calm [OF assms(2)] by blast
  have "run_iter tid user idle fresh cbf s = Inr (Break (cbf, s')) \<or>
      run_iter tid user idle fresh cbf s = Inr (Continue (cbf, s'))"
    using s'(1) pick_none [OF assms(1)] False by (auto simp: run_iter_def)
  moreover have "extends s s'" using s'(2) by (simp add: extends_def)
  ultimately show ?thesis
    using False s'(3) queue_inv_extends [OF assms(1)]
    by (intro exI [of _ cbf] exI [of _ s']) (auto simp: extends_def)
next
  case True
  then obtain us t vs where q: "m_fibers s = us @ t # vs" "\<forall>u \<in> set us. \<not> eligible tid (fstate s) u"
      "eligible tid (fstate s) t"
    using split_first_eligible [of "m_fibers s" "eligible tid (fstate s)"] by blast
  let ?s1 = "s\<lparr>m_fibers := us @ vs, m_activeThreadNum := Suc (m_activeThreadNum s)\<rparr>"
  let ?n = "\<exists>u \<in> set us. bound_elsewhere tid u"
  let ?s2 = "if ?n then tickle ?s1 else ?s1"
  have p: "pick tid s = Inr (?n, Some t, ?s1)" by (rule pick_some [OF assms(1) q])
  have s2: "fstate ?s2 = fstate s" "m_fibers ?s2 = us @ vs" "m_activeThreadNum ?s2 = Suc (m_activeThreadNum s)"
    by simp_all
  have "\<exists>c s'. run_iter tid user idle fresh cbf s = Inr (Continue (c, s')) \<and> extends ?s2 s' \<and>
      m_activeThreadNum s' = usub (m_activeThreadNum ?s2) 1"
  proof (cases "\<exists>f. task_fiber t = Some f \<and> \<not> over (fstate s f)")
    case fib: True
    then obtain f where f: "task_fiber t = Some f" "\<not> over (fstate s f)" by blast
    then have "fstate ?s2 f \<noteq> EXEC" using q(3) s2(1) by (auto simp: eligible_def)
    then obtain s' where "run_fiber user f (thread_id t) ?s2 = Inr s'" "extends ?s2 s'"
        "m_activeThreadNum s' = usub (m_activeThreadNum ?s2) 1"
      using run_fiber_calm [OF assms(2)] by blast
    then show ?thesis
      using f s2(1) by (simp add: run_iter_def p Let_def)
  next
    case nofib: False
    show ?thesis
    proof (cases "task_cb t")
      case None
      have "run_iter tid user idle fresh cbf s = Inr (Continue (cbf, leave ?s2))"
        using nofib None s2(1) by (cases "task_fiber t") (simp_all add: run_iter_def p Let_def)
      then show ?thesis by (auto intro: extends_same)
    next
      case (Some c)
      obtain c' s' where "run_cb user fresh cbf c (thread_id t) ?s2 = Inr (c', s')" "extends ?s2 s'"
          "m_activeThreadNum s' = usub (m_activeThreadNum ?s2) 1"
        using run_cb_calm [OF assms(2), of cbf ?s2 fresh c "thread_id t"] assms(4) s2(1) by auto
      then show ?thesis
        using nofib Some s2(1) by (cases "task_fiber t") (simp_all add: run_iter_def p Let_def)
    qed
  qed
  then obtain c s' where s': "run_iter tid user idle fresh cbf s = Inr (Continue (c, s'))" "extends ?s2 s'"
      "m_activeThreadNum s' = m_activeThreadNum s"
    unfolding s2(3) by auto
  have "queue_inv ?s2" using assms(1) q(1) by (auto simp: queue_inv_def)
  then have inv: "queue_inv s'" using s'(2) by (rule queue_inv_extends)
  obtain new where "m_fibers s' = us @ vs @ new"
    using s'(2) s2(2) by (auto simp: extends_def)
  then show ?thesis
    using True q s'(1,3) inv by (intro exI [of _ c] exI [of _ s']) auto
qed

definition two_tasks :: "nat scheduler" where
  "two_tasks = (case Scheduler 2 True 100 0 5 of Inr s \<Rightarrow>
      s\<lparr>m_fibers := [FiberTask None (Some 1) 7, FiberTask None (Some 2) (-1)]\<rparr>)"

lemma two_tasks_facts:
  "queue_inv two_tasks" "fstate two_tasks f = INIT" "m_activeThreadNum two_tasks = 0"
  "m_fibers two_tasks = [FiberTask None (Some 1) 7, FiberTask None (Some 2) (-1)]"
  by (simp_all add: two_tasks_def Scheduler_def queue_inv_def FiberTask_def)

theorem turn_takes_first_eligible_witness:
  "\<exists>c s'. (run_iter 100 idle_user 9 8 None two_tasks = Inr (Break (c, s')) \<or>
           run_iter 100 idle_user 9 8 None two_tasks = Inr (Continue (c, s'))) \<and>
     m_activeThreadNum s' = 0"
  using turn_takes_first_eligible [OF two_tasks_facts(1) calm_idle_user, of 9 None 100 8]
  by (auto simp: two_tasks_facts)

section \<open>Before the worker idles\<close>

lemma idle_fiber_turn:
  assumes "queue_inv s" and "\<forall>t \<in> set (m_fibers s). \<not> eligible tid (fstate s) t"
    and "fstate s idle \<noteq> Term" and "fstate s idle \<noteq> EXEC"
  shows "\<exists>s1 s2. run_iter tid user idle fresh cbf s = Inr (Continue (cbf, s2)) \<and>
           tickles s1 = Suc (tickles s) \<and> m_fibers s1 = m_fibers s \<and> fstate s1 idle = EXEC \<and>
           m_fibers s2 = m_fibers (user idle s1)"
proof -
  let ?s1 = "set_fstate idle EXEC ((tickle s)\<lparr>m_idelThreadNum := Suc (m_idelThreadNum (tickle s))\<rparr>)"
  let ?s2 = "hold_unless_over idle ((user idle ?s1)
      \<lparr>m_idelThreadNum := usub (m_idelThreadNum (user idle ?s1)) 1\<rparr>)"
  have "run_iter tid user idle fresh cbf s = Inr (Continue (cbf, ?s2))"
    using assms(3,4) pick_none [OF assms(1,2)] by (simp add: run_iter_def run_idle_def swap_in_def Let_def)
  then show ?thesis
    by (intro exI [of _ ?s1] exI [of _ ?s2]) simp
qed

section \<open>Stopping\<close>

text \<open>\<^verbatim>\<open>stop\<close> leaves the scheduler stopped: when it returns, the running flag is down, the
  auto-stop flag is up, and either everything is done or the main fiber has been called to run the
  rest. It fails its assertion when called from the wrong thread, and a scheduler that was built
  without the calling thread dereferences its null main fiber when work is left after the workers
  have gone.\<close>

theorem stop_outcome:
  assumes "\<forall>s. m_autoStop (joined s) = m_autoStop s \<and> m_running (joined s) = m_running s \<and>
             m_mainFiber (joined s) = m_mainFiber s"
  shows "(stop own joined s = Inr (called, s') \<longrightarrow>
            m_autoStop s' \<and> \<not> m_running s' \<and> called = (\<not> stopping s') \<and>
            (called \<longrightarrow> m_mainFiber s' \<noteq> None)) \<and>
         (m_mainFiber s = None \<and> (m_rootThread s \<noteq> -1) \<noteq> own \<longrightarrow> stop own joined s = Inl Assertion) \<and>
         (m_mainFiber s = None \<and> (m_rootThread s \<noteq> -1) = own \<and>
          m_fibers (joined (s\<lparr>m_autoStop := True, m_running := False, m_threads := []\<rparr>)) \<noteq> [] \<longrightarrow>
            stop own joined s = Inl Null_fiber)"
proof (intro conjI impI)
  assume run: "stop own joined s = Inr (called, s')"
  let ?s1 = "s\<lparr>m_autoStop := True\<rparr>"
  define early where "early = (case m_mainFiber ?s1 of None \<Rightarrow> False
      | Some f \<Rightarrow> (fstate ?s1 f = Term \<or> fstate ?s1 f = INIT) \<and> m_threadNum ?s1 = 0)"
  define s2 where "s2 = (if early then ?s1\<lparr>m_running := False\<rparr> else ?s1)"
  define s3 where "s3 = joined (s2\<lparr>m_running := False, m_threads := []\<rparr>)"
  define s4 where "s4 = (if m_mainFiber s3 \<noteq> None then tickle s3 else s3)"
  have flags: "m_autoStop s4" "\<not> m_running s4" "stopping s4 = stopping s3" "m_mainFiber s4 = m_mainFiber s3"
    using assms by (auto simp: s4_def s3_def s2_def tickle_def stopping_def)
  have unf: "stop own joined s =
      (if early \<and> stopping s2 then Inr (False, s2)
       else if (m_rootThread s2 \<noteq> -1) \<noteq> own then Inl Assertion
       else if \<not> stopping s4 then (case m_mainFiber s4 of None \<Rightarrow> Inl Null_fiber | Some f \<Rightarrow> Inr (True, s4))
       else Inr (False, s4))"
    unfolding stop_def Let_def early_def s2_def s3_def s4_def ..
  have "m_autoStop s' \<and> \<not> m_running s' \<and> called = (\<not> stopping s') \<and> (called \<longrightarrow> m_mainFiber s' \<noteq> None)"
    using run flags unfolding unf
    by (auto simp: s2_def split: if_splits option.splits)
  then show "m_autoStop s'" "\<not> m_running s'" "called = (\<not> stopping s')" "called \<Longrightarrow> m_mainFiber s' \<noteq> None"
    by blast+
qed (use assms in \<open>auto simp: stop_def Let_def stopping_def\<close>)

theorem stop_outcome_witness:
  "stop False id (two_tasks\<lparr>m_mainFiber := None, m_rootThread := -1\<rparr>) = Inl Null_fiber"
  using stop_outcome [of id False "two_tasks\<lparr>m_mainFiber := None, m_rootThread := -1\<rparr>"]
  by (simp add: two_tasks_facts)

section \<open>Load\<close>

inductive load_step :: "load_counter \<Rightarrow> load_counter \<Rightarrow> bool" where
  load_sleep: "load_step l (startSleep now l)"
| load_work: "load_step l (startWork now l)"

lemma load_step_bound:
  "load_step l l' \<Longrightarrow> length (m_records l) \<le> m_max_size l \<Longrightarrow>
    length (m_records l') \<le> m_max_size l' \<and> m_max_size l' = m_max_size l"
  by (induction rule: load_step.induct)
     (auto simp: startSleep_def startWork_def push_record_def Let_def)

lemma load_reachable:
  "load_step\<^sup>*\<^sup>* (LoadCounter now n) l \<Longrightarrow> length (m_records l) \<le> n \<and> m_max_size l = n"
  by (induction rule: rtranclp_induct) (use load_step_bound in \<open>fastforce simp: LoadCounter_def\<close>)+

lemma percent_bound:
  fixes a b :: u64
  assumes "unat a + unat b < 2 ^ 64" and "100 * unat b < 2 ^ 64"
  shows "100 * b div (a + b) \<le> 100"
proof -
  have "unat (a + b) = unat a + unat b" and "unat (100 * b) = 100 * unat b"
    using assms by (simp_all add: unat_word_ariths)
  then have "unat (100 * b div (a + b)) = 100 * unat b div (unat a + unat b)"
    by (simp add: unat_div_distrib)
  also have "\<dots> \<le> 100"
    by (cases "unat a + unat b = 0") (auto intro!: div_le_dividend less_mult_imp_div_less
        simp: less_Suc_eq_le [symmetric] algebra_simps)
  finally show ?thesis by (simp add: word_le_nat_alt)
qed

text \<open>The load statistics never hold more records than asked for, whatever the sequence of
  sleeps and wake-ups, and the load is a percentage as long as the sums of the times do not
  overflow.\<close>

theorem load_is_percentage:
  assumes "load_step\<^sup>*\<^sup>* (LoadCounter t0 n) l"
    and "unat (totalSleepTime now l) + unat (totalRunTime now l) < 2 ^ 64"
    and "100 * unat (totalRunTime now l) < 2 ^ 64"
  shows "length (m_records l) \<le> n \<and> 0 \<le> getLoad now l \<and> getLoad now l \<le> 100"
proof -
  have "as_int w = uint w \<and> uint w \<le> 100" if "w \<le> 100" for w :: u64
    using that as_int_small [of w] by (simp add: word_le_def)
  then show ?thesis
    using load_reachable [OF assms(1)] percent_bound [OF assms(2,3)]
    by (simp add: getLoad_def Let_def)
qed

theorem load_is_percentage_witness:
  "getLoad 40 (startSleep 30 (LoadCounter 10 5)) \<le> 100"
proof -
  have "load_step\<^sup>*\<^sup>* (LoadCounter 10 5) (startSleep 30 (LoadCounter 10 5))"
    by (intro r_into_rtranclp load_sleep)
  from load_is_percentage [OF this, of 40] show ?thesis
    by (simp add: totalSleepTime_def totalRunTime_def startSleep_def push_record_def LoadCounter_def
        total_time_def Let_def)
qed

end
