(* ===== verification/EventPoller.thy ===== *)
theory EventPoller
  imports Scheduler Timer
begin

text \<open>
  \<^verbatim>\<open>src/src/eventpoller/eventpoller.{h,cpp}\<close>: the I/O scheduler. Per descriptor it keeps which events
  are awaited and who waits, a fiber or a function with the scheduler to put it on; it hands
  the interest to \<^verbatim>\<open>epoll\<close> and schedules the waiters when events arrive or are cancelled.

  Schedulers are numbered, \<open>scheds\<close> holds the state of each, and \<open>self\<close> is the poller seen as a
  scheduler; \<open>tm\<close> is the poller seen as a timer manager. \<^verbatim>\<open>epoll_ctl\<close> is the argument \<open>ctl\<close>, which
  says whether the call succeeds; \<^verbatim>\<open>epoll_wait\<close>'s answer is an argument of the handlers. A byte is
  in the self-pipe for every \<^verbatim>\<open>tickle\<close> not yet read. \<open>readers\<close> counts the shared holders of
  \<^verbatim>\<open>m_mtx\<close>, so that an unlock too many shows.
\<close>

unbundle bit_operations_syntax

section \<open>State\<close>

definition READ :: u32 where "READ = 0x1"
definition WRITE :: u32 where "WRITE = 0x4"
definition EPOLLIN :: u32 where "EPOLLIN = 0x1"
definition EPOLLOUT :: u32 where "EPOLLOUT = 0x4"
definition EPOLLERR :: u32 where "EPOLLERR = 0x8"
definition EPOLLHUP :: u32 where "EPOLLHUP = 0x10"
definition EPOLLET :: u32 where "EPOLLET = 0x80000000"

datatype poller_error =
    Assert_failed
  | Index_out_of_bounds
  | Self_deadlock       \<comment> \<open>a mutex the thread already holds is locked again\<close>
  | Null_scheduler
  | No_return_value     \<comment> \<open>flowing off the end of a function that returns a value\<close>

datatype epoll_op = EPOLL_CTL_ADD | EPOLL_CTL_MOD | EPOLL_CTL_DEL

type_synonym epoll_ctl = "epoll_op \<Rightarrow> int \<Rightarrow> u32 \<Rightarrow> bool"

record 'c event_ctx =
  ec_scheduler :: "nat option"
  ec_fiber :: "fid option"
  ec_cb :: "'c func option"

record 'c fd_context =
  ctx_read :: "'c event_ctx"
  ctx_write :: "'c event_ctx"
  ctx_fd :: nat
  ctx_events :: u32

record 'c poller =
  scheds :: "nat \<Rightarrow> 'c func scheduler"
  self :: nat
  tm :: "'c timer_manager"
  m_pendingEventCount :: nat
  m_fdContexts :: "'c fd_context list"
  drained :: nat
  readers :: int

definition resetContext :: "'c event_ctx \<Rightarrow> 'c event_ctx" where
  "resetContext c = c\<lparr>ec_scheduler := None, ec_fiber := None, ec_cb := None\<rparr>"

definition no_waiter :: "'c event_ctx" where
  "no_waiter = \<lparr>ec_scheduler = None, ec_fiber = None, ec_cb = None\<rparr>"

definition getContext :: "u32 \<Rightarrow> 'c fd_context \<Rightarrow> poller_error + 'c event_ctx" where
  "getContext event c =
     (if event = READ then Inr (ctx_read c) else if event = WRITE then Inr (ctx_write c)
      else Inl Assert_failed)"

definition setContext :: "u32 \<Rightarrow> 'c event_ctx \<Rightarrow> 'c fd_context \<Rightarrow> 'c fd_context" where
  "setContext event e c = (if event = READ then c\<lparr>ctx_read := e\<rparr> else c\<lparr>ctx_write := e\<rparr>)"

text \<open>\<^verbatim>\<open>contextResize\<close>: new contexts carry their index.\<close>

definition contextResize :: "nat \<Rightarrow> 'c poller \<Rightarrow> 'c poller" where
  "contextResize sz s =
     (if sz \<le> length (m_fdContexts s) then s
      else s\<lparr>m_fdContexts := m_fdContexts s @
               map (\<lambda>i. \<lparr>ctx_read = no_waiter, ctx_write = no_waiter, ctx_fd = i, ctx_events = 0\<rparr>)
                 [length (m_fdContexts s)..<sz]\<rparr>)"

definition put_ctx :: "nat \<Rightarrow> 'c fd_context \<Rightarrow> 'c poller \<Rightarrow> 'c poller" where
  "put_ctx i c s = s\<lparr>m_fdContexts := (m_fdContexts s)[i := c]\<rparr>"

definition on_sched :: "nat \<Rightarrow> ('c func scheduler \<Rightarrow> 'c func scheduler) \<Rightarrow> 'c poller \<Rightarrow> 'c poller" where
  "on_sched k f s = s\<lparr>scheds := (scheds s)(k := f (scheds s k))\<rparr>"

definition poller_tickle :: "'c poller \<Rightarrow> 'c poller" where
  "poller_tickle s = on_sched (self s) tickle s"

definition pipe_bytes :: "'c poller \<Rightarrow> nat" where
  "pipe_bytes s = tickles (scheds s (self s)) - drained s"

text \<open>The constructor, after \<^verbatim>\<open>epoll_create\<close>, \<^verbatim>\<open>pipe\<close> and \<^verbatim>\<open>epoll_ctl\<close> have succeeded.\<close>

definition EventPoller :: "'c func scheduler \<Rightarrow> int list \<Rightarrow> (addr \<Rightarrow> 'c timer) \<Rightarrow> 'c poller" where
  "EventPoller sch ids h =
     on_sched 0 (start ids)
       (contextResize 32
          \<lparr>scheds = (\<lambda>_. sch), self = 0, tm = new_manager h, m_pendingEventCount = 0,
           m_fdContexts = [], drained = 0, readers = 0\<rparr>)"

section \<open>Registering and cancelling\<close>

text \<open>\<^verbatim>\<open>FdContext::triggerEvent\<close>: the waiter is swapped out of the context into the task.\<close>

definition triggerEvent :: "u32 \<Rightarrow> nat \<Rightarrow> 'c poller \<Rightarrow> poller_error + 'c poller" where
  "triggerEvent event i s =
     (let c = m_fdContexts s ! i
      in if ctx_events c AND event = 0 then Inl Assert_failed
         else let c1 = c\<lparr>ctx_events := ctx_events c AND NOT event\<rparr>
         in rbind (getContext event c1) (\<lambda>e.
            case ec_scheduler e of None \<Rightarrow> Inl Null_scheduler
            | Some k \<Rightarrow>
                let (task, e1) = (if ec_cb e \<noteq> None
                                  then (FiberTask None (ec_cb e) (-1), e\<lparr>ec_cb := None\<rparr>)
                                  else (FiberTask (ec_fiber e) None (-1), e\<lparr>ec_fiber := None\<rparr>))
                in Inr (put_ctx i (setContext event (e1\<lparr>ec_scheduler := None\<rparr>) c1)
                          (on_sched k (schedule task) s))))"

definition pending_dec :: "'c poller \<Rightarrow> 'c poller" where
  "pending_dec s = s\<lparr>m_pendingEventCount := usub (m_pendingEventCount s) 1\<rparr>"

text \<open>
  \<^verbatim>\<open>addEvent\<close>, called on scheduler \<open>this\<close> (\<open>None\<close> when the thread has none) by the fiber \<open>cur\<close>, which
  is running or not (\<open>exec\<close>). When the descriptor has no context yet, the function locks \<^verbatim>\<open>m_mtx\<close> and
  calls \<^verbatim>\<open>contextResize\<close>, which locks it again.
\<close>

definition addEvent ::
  "epoll_ctl \<Rightarrow> nat option \<Rightarrow> fid \<Rightarrow> bool \<Rightarrow> int \<Rightarrow> u32 \<Rightarrow> 'c func option \<Rightarrow> 'c poller \<Rightarrow>
    poller_error + int \<times> 'c poller" where
  "addEvent ctl this cur exec fd event cb s =
     (if \<not> fd < int (length (m_fdContexts s)) then Inl Self_deadlock
      else if fd < 0 then Inl Index_out_of_bounds
      else let i = nat fd; c = m_fdContexts s ! i
      in if ctx_events c AND event \<noteq> 0 then Inl Assert_failed
         else let op = (if ctx_events c \<noteq> 0 then EPOLL_CTL_MOD else EPOLL_CTL_ADD)
         in if \<not> ctl op fd (EPOLLET OR ctx_events c OR event) then Inr (-1, s)
            else let s1 = s\<lparr>m_pendingEventCount := Suc (m_pendingEventCount s)\<rparr>;
                     c1 = c\<lparr>ctx_events := ctx_events c OR event\<rparr>
            in rbind (getContext event c1) (\<lambda>e.
               if ec_scheduler e \<noteq> None \<or> ec_fiber e \<noteq> None \<or> ec_cb e \<noteq> None then Inl Assert_failed
               else let e1 = e\<lparr>ec_scheduler := this\<rparr>
               in if cb \<noteq> None then Inr (0, put_ctx i (setContext event (e1\<lparr>ec_cb := cb\<rparr>) c1) s1)
                  else if \<not> exec then Inl Assert_failed
                  else Inr (0, put_ctx i (setContext event (e1\<lparr>ec_fiber := Some cur\<rparr>) c1) s1)))"

text \<open>
  The three removals take a \<^verbatim>\<open>shared_lock\<close>, then unlock the mutex by hand; the lock object unlocks
  it again when the function returns, whatever path it takes from there.
\<close>

definition unlock_twice :: "'c poller \<Rightarrow> 'c poller" where
  "unlock_twice s = s\<lparr>readers := readers s + 1 - 1 - 1\<rparr>"

definition delEvent :: "epoll_ctl \<Rightarrow> int \<Rightarrow> u32 \<Rightarrow> 'c poller \<Rightarrow> poller_error + bool \<times> 'c poller" where
  "delEvent ctl fd event s =
     (if int (length (m_fdContexts s)) \<le> fd then Inr (False, s)
      else if fd < 0 then Inl Index_out_of_bounds
      else let i = nat fd; c = m_fdContexts s ! i; s0 = unlock_twice s
      in if ctx_events c AND event = 0 then Inr (False, s0)
         else let new_events = ctx_events c AND NOT event;
                  op = (if new_events \<noteq> 0 then EPOLL_CTL_MOD else EPOLL_CTL_DEL)
         in if \<not> ctl op fd (EPOLLET OR new_events) then Inr (False, s0)
            else let s1 = pending_dec s0; c1 = c\<lparr>ctx_events := new_events\<rparr>
            in rbind (getContext event c1) (\<lambda>e.
               Inr (True, put_ctx i (setContext event (resetContext e) c1) s1)))"

definition cancelEvent :: "epoll_ctl \<Rightarrow> int \<Rightarrow> u32 \<Rightarrow> 'c poller \<Rightarrow> poller_error + bool \<times> 'c poller" where
  "cancelEvent ctl fd event s =
     (if int (length (m_fdContexts s)) \<le> fd then Inr (False, s)
      else if fd < 0 then Inl Index_out_of_bounds
      else let i = nat fd; c = m_fdContexts s ! i; s0 = unlock_twice s
      in if ctx_events c AND event = 0 then Inr (False, s0)
         else let new_events = ctx_events c AND NOT event;
                  op = (if new_events \<noteq> 0 then EPOLL_CTL_MOD else EPOLL_CTL_DEL)
         in if \<not> ctl op fd (EPOLLET OR new_events) then Inr (False, s0)
            else rbind (triggerEvent event i (pending_dec s0)) (\<lambda>s1. Inr (True, s1)))"

text \<open>Triggering one event if its bit is set, with the count, as \<^verbatim>\<open>cancelAll\<close> and \<^verbatim>\<open>idle\<close> do.\<close>

definition trigger_if :: "bool \<Rightarrow> u32 \<Rightarrow> nat \<Rightarrow> 'c poller \<Rightarrow> poller_error + 'c poller" where
  "trigger_if b event i s =
     (if b then rbind (triggerEvent event i s) (\<lambda>s1. Inr (pending_dec s1)) else Inr s)"

definition cancelAll :: "epoll_ctl \<Rightarrow> int \<Rightarrow> 'c poller \<Rightarrow> poller_error + bool \<times> 'c poller" where
  "cancelAll ctl fd s =
     (if int (length (m_fdContexts s)) \<le> fd then Inr (False, s)
      else if fd < 0 then Inl Index_out_of_bounds
      else let i = nat fd; s0 = unlock_twice s
      in if ctx_events (m_fdContexts s ! i) = 0 then Inr (False, s0)
         else if \<not> ctl EPOLL_CTL_DEL fd 0 then Inr (False, s0)
         else rbind (trigger_if (ctx_events (m_fdContexts s0 ! i) AND READ \<noteq> 0) READ i s0) (\<lambda>s1.
              rbind (trigger_if (ctx_events (m_fdContexts s1 ! i) AND WRITE \<noteq> 0) WRITE i s1) (\<lambda>s2.
              if ctx_events (m_fdContexts s2 ! i) \<noteq> 0 then Inl Assert_failed else Inr (True, s2))))"

section \<open>The idle loop\<close>

definition MAX_TIMEOUT :: u64 where "MAX_TIMEOUT = 3000"

text \<open>\<^verbatim>\<open>stopping(uint64_t& timeout)\<close>, and the override that calls it and returns nothing.\<close>

definition stopping_timeout :: "u64 \<Rightarrow> 'c poller \<Rightarrow> bool \<times> u64 \<times> 'c poller" where
  "stopping_timeout now s =
     (let (timeout, tm') = getNextTimer now (tm s)
      in (m_pendingEventCount s = 0 \<and> timeout = NOT 0 \<and> stopping (scheds s (self s)),
          timeout, s\<lparr>tm := tm'\<rparr>))"

definition poller_stopping :: "u64 \<Rightarrow> 'c poller \<Rightarrow> poller_error + bool" where
  "poller_stopping now s = (let _ = stopping_timeout now s in Inl No_return_value)"

text \<open>The timeout given to \<^verbatim>\<open>epoll_wait\<close>.\<close>

definition wait_time :: "u64 \<Rightarrow> u64" where
  "wait_time next_timeout =
     (if next_timeout = 0 then MAX_TIMEOUT
      else if MAX_TIMEOUT < next_timeout then MAX_TIMEOUT else next_timeout)"

text \<open>One reported event of a descriptor.\<close>

definition real_events :: "u32 \<Rightarrow> u32 \<Rightarrow> u32" where
  "real_events reported registered =
     (let ev = (if reported AND (EPOLLERR OR EPOLLHUP) \<noteq> 0
                then reported OR ((EPOLLIN OR EPOLLOUT) AND registered) else reported)
      in (if ev AND EPOLLIN \<noteq> 0 then READ else 0) OR (if ev AND EPOLLOUT \<noteq> 0 then WRITE else 0))"

definition handle_event :: "epoll_ctl \<Rightarrow> nat \<Rightarrow> u32 \<Rightarrow> 'c poller \<Rightarrow> poller_error + 'c poller" where
  "handle_event ctl i reported s =
     (let c = m_fdContexts s ! i; real = real_events reported (ctx_events c)
      in if ctx_events c AND real = 0 then Inr s
         else let left_events = ctx_events c AND NOT real;
                  op = (if left_events \<noteq> 0 then EPOLL_CTL_MOD else EPOLL_CTL_DEL)
         in if \<not> ctl op (int (ctx_fd c)) (EPOLLET OR left_events) then Inr s
            else rbind (trigger_if (real AND READ \<noteq> 0) READ i s) (\<lambda>s1.
                 trigger_if (real AND WRITE \<noteq> 0) WRITE i s1))"

text \<open>What \<^verbatim>\<open>epoll_wait\<close> reports: the self-pipe, or a descriptor context with its events.\<close>

datatype reported = Tickled | Ready nat u32

primrec handle_events :: "epoll_ctl \<Rightarrow> reported list \<Rightarrow> 'c poller \<Rightarrow> poller_error + 'c poller" where
  "handle_events ctl [] s = Inr s"
| "handle_events ctl (r # rs) s =
     rbind (case r of Tickled \<Rightarrow> Inr (s\<lparr>drained := tickles (scheds s (self s))\<rparr>)
            | Ready i ev \<Rightarrow> handle_event ctl i ev s) (handle_events ctl rs)"

text \<open>
  One turn of the loop, with the clock at the check for stopping and after the wait, the address
  of the temporary of \<^verbatim>\<open>listExpiredCb\<close> and the answer of \<^verbatim>\<open>epoll_wait\<close>: \<open>None\<close> when the loop is left,
  otherwise the timeout given to \<^verbatim>\<open>epoll_wait\<close>. The timers that are due go to the poller's queue.
\<close>

definition idle_turn ::
  "epoll_ctl \<Rightarrow> u64 \<Rightarrow> u64 \<Rightarrow> addr \<Rightarrow> reported list \<Rightarrow> 'c poller \<Rightarrow>
    poller_error + u64 option \<times> 'c poller" where
  "idle_turn ctl now1 now2 c rs s =
     (let (stop, timeout, s1) = stopping_timeout now1 s
      in if stop then Inr (None, s1)
         else let (cbs, tm') = listExpiredCb now2 c (tm s1);
                  s2 = s1\<lparr>tm := tm'\<rparr>;
                  s3 = (if cbs \<noteq> [] then on_sched (self s2) (schedule_range cbs) s2 else s2)
              in rbind (handle_events ctl rs s3) (\<lambda>s4. Inr (Some (wait_time timeout), s4)))"

definition poller_flushTimer :: "'c poller \<Rightarrow> 'c poller" where
  "poller_flushTimer s = poller_tickle s"

end
