(* ===== verification/EventPoller_Facts.thy ===== *)
theory EventPoller_Facts
  imports EventPoller
begin

text \<open>
  The invariant of the descriptor contexts: an event's bit is set exactly when somebody waits for
  it, and the counter of pending events is the number of bits set. Every operation keeps it.
\<close>

unbundle bit_operations_syntax

section \<open>Event masks\<close>

lemma bit_READ: "bit READ n \<longleftrightarrow> n = 0"
  by (cases n) (simp_all add: READ_def bit_1_iff)

lemma bit_WRITE: "bit WRITE n \<longleftrightarrow> n = 2"
proof -
  have w: "WRITE = push_bit 2 1" by (simp add: WRITE_def)
  show ?thesis unfolding w by (simp only: bit_push_bit_iff bit_1_iff) (auto simp: possible_bit_word)
qed

lemma and_single_zero:
  fixes x :: u32
  assumes "\<And>n. bit e n \<longleftrightarrow> n = k"
  shows "x AND e = 0 \<longleftrightarrow> \<not> bit x k"
proof
  assume "x AND e = 0"
  then have "\<not> bit (x AND e) k" by simp
  then show "\<not> bit x k" by (simp add: bit_and_iff assms)
next
  assume "\<not> bit x k"
  then show "x AND e = 0" by (intro bit_word_eqI) (auto simp: bit_and_iff assms)
qed

lemmas and_READ_zero = and_single_zero [OF bit_READ]
lemmas and_WRITE_zero = and_single_zero [OF bit_WRITE]

text \<open>The two events, with the number of their bit.\<close>

definition is_event :: "u32 \<Rightarrow> nat \<Rightarrow> bool" where
  "is_event e k \<longleftrightarrow> (e = READ \<and> k = 0) \<or> (e = WRITE \<and> k = 2)"

lemma is_event_bit: "is_event e k \<Longrightarrow> bit e n \<longleftrightarrow> n = k"
  by (auto simp: is_event_def bit_READ bit_WRITE)

lemma is_event_and: "is_event e k \<Longrightarrow> x AND e = 0 \<longleftrightarrow> \<not> bit x k"
  by (auto simp: is_event_def and_READ_zero and_WRITE_zero)

lemma READ_neq_WRITE [simp]: "READ \<noteq> WRITE" "WRITE \<noteq> READ"
  by (simp_all add: READ_def WRITE_def)

section \<open>The invariant\<close>

definition waits :: "bool \<Rightarrow> 'c event_ctx \<Rightarrow> bool" where
  "waits b e \<longleftrightarrow> (if b then ec_scheduler e \<noteq> None \<and> (ec_cb e = None) \<noteq> (ec_fiber e = None)
                  else e = no_waiter)"

definition fd_ok :: "'c fd_context \<Rightarrow> bool" where
  "fd_ok c \<longleftrightarrow> (\<forall>n. bit (ctx_events c) n \<longrightarrow> n = 0 \<or> n = 2) \<and>
     waits (bit (ctx_events c) 0) (ctx_read c) \<and> waits (bit (ctx_events c) 2) (ctx_write c)"

definition fd_count :: "'c fd_context \<Rightarrow> nat" where
  "fd_count c = of_bool (bit (ctx_events c) 0) + of_bool (bit (ctx_events c) 2)"

definition ctxs_ok :: "'c poller \<Rightarrow> bool" where
  "ctxs_ok s \<longleftrightarrow> (\<forall>c \<in> set (m_fdContexts s). fd_ok c) \<and> map ctx_fd (m_fdContexts s) = [0..<length (m_fdContexts s)]"

definition registered :: "'c poller \<Rightarrow> nat" where
  "registered s = sum_list (map fd_count (m_fdContexts s))"

definition ep_inv :: "'c poller \<Rightarrow> bool" where
  "ep_inv s \<longleftrightarrow> ctxs_ok s \<and> m_pendingEventCount s = registered s"

text \<open>The context of event \<open>k\<close> and the task that is waiting in it.\<close>

definition ctx_of :: "nat \<Rightarrow> 'c fd_context \<Rightarrow> 'c event_ctx" where
  "ctx_of k c = (if k = 0 then ctx_read c else ctx_write c)"

definition waiting_task :: "'c event_ctx \<Rightarrow> 'c func task" where
  "waiting_task e = FiberTask (ec_fiber e) (ec_cb e) (-1)"

definition cleared :: "u32 \<Rightarrow> 'c fd_context \<Rightarrow> 'c fd_context" where
  "cleared e c = setContext e no_waiter (c\<lparr>ctx_events := ctx_events c AND NOT e\<rparr>)"

lemma fd_ok_nth: "ctxs_ok s \<Longrightarrow> i < length (m_fdContexts s) \<Longrightarrow> fd_ok (m_fdContexts s ! i)"
  by (simp add: ctxs_ok_def)

lemma ctx_fd_nth: "ctxs_ok s \<Longrightarrow> i < length (m_fdContexts s) \<Longrightarrow> ctx_fd (m_fdContexts s ! i) = i"
  unfolding ctxs_ok_def by (metis add.left_neutral length_map nth_map nth_upt)

lemma getContext_event: "is_event e k \<Longrightarrow> getContext e c = Inr (ctx_of k c)"
  by (auto simp: is_event_def getContext_def ctx_of_def)

lemma event_and_not: "is_event e k \<Longrightarrow> bit (x AND NOT e :: u32) n \<longleftrightarrow> bit x n \<and> n \<noteq> k"
proof -
  assume e: "is_event e k"
  have "bit x n \<Longrightarrow> n < 32" using bit_imp_le_length [of x n] by simp
  then show ?thesis by (auto simp: bit_and_iff bit_not_iff is_event_bit [OF e])
qed

lemma fd_ok_cleared:
  assumes "fd_ok c" and "is_event e k"
  shows "fd_ok (cleared e c)" and "fd_count (cleared e c) = fd_count c - of_bool (bit (ctx_events c) k)"
    and "ctx_fd (cleared e c) = ctx_fd c"
proof -
  have ev: "ctx_events (cleared e c) = ctx_events c AND NOT e"
    by (simp add: cleared_def setContext_def)
  have cx: "ctx_read (cleared e c) = (if k = 0 then no_waiter else ctx_read c)"
      "ctx_write (cleared e c) = (if k = 2 then no_waiter else ctx_write c)"
    using assms(2) by (auto simp: cleared_def setContext_def is_event_def)
  have bits: "bit (ctx_events (cleared e c)) n \<longleftrightarrow> bit (ctx_events c) n \<and> n \<noteq> k" for n
    unfolding ev by (rule event_and_not [OF assms(2)])
  show "fd_ok (cleared e c)"
    using assms(1) unfolding fd_ok_def bits cx by (auto simp: waits_def)
  show "fd_count (cleared e c) = fd_count c - of_bool (bit (ctx_events c) k)"
    using assms(2) unfolding fd_count_def bits by (auto simp: is_event_def)
  show "ctx_fd (cleared e c) = ctx_fd c"
    by (simp add: cleared_def setContext_def)
qed

lemma fd_count_pos: "is_event e k \<Longrightarrow> bit (ctx_events c) k \<Longrightarrow> 0 < fd_count c"
  by (auto simp: is_event_def fd_count_def)

section \<open>Putting a context back\<close>

lemma put_ctx_ok:
  assumes "ctxs_ok s" and "i < length (m_fdContexts s)" and "fd_ok c" and "ctx_fd c = i"
  shows "ctxs_ok (put_ctx i c s)"
proof -
  have "map ctx_fd ((m_fdContexts s)[i := c]) = map ctx_fd (m_fdContexts s)"
    using assms(1,2,4) ctx_fd_nth [OF assms(1,2)]
    by (metis list_update_id map_update)
  then show ?thesis
    using assms by (auto simp: ctxs_ok_def put_ctx_def dest: subsetD [OF set_update_subset_insert])
qed

lemma registered_put:
  assumes "i < length (m_fdContexts s)"
  shows "registered (put_ctx i c s) + fd_count (m_fdContexts s ! i) = registered s + fd_count c"
proof -
  have "fd_count (m_fdContexts s ! i) \<le> sum_list (map fd_count (m_fdContexts s))"
    using elem_le_sum_list [of i "map fd_count (m_fdContexts s)"] assms by simp
  then show ?thesis
    using assms by (simp add: registered_def put_ctx_def map_update sum_list_update)
qed

lemma on_sched_simps [simp]:
  "m_fdContexts (on_sched k f s) = m_fdContexts s"
  "m_pendingEventCount (on_sched k f s) = m_pendingEventCount s"
  "readers (on_sched k f s) = readers s" "tm (on_sched k f s) = tm s" "self (on_sched k f s) = self s"
  "drained (on_sched k f s) = drained s"
  "scheds (on_sched k f s) = (scheds s)(k := f (scheds s k))"
  by (simp_all add: on_sched_def)

lemma put_ctx_simps [simp]:
  "m_fdContexts (put_ctx i c s) = (m_fdContexts s)[i := c]"
  "m_pendingEventCount (put_ctx i c s) = m_pendingEventCount s"
  "readers (put_ctx i c s) = readers s" "scheds (put_ctx i c s) = scheds s"
  "tm (put_ctx i c s) = tm s" "self (put_ctx i c s) = self s" "drained (put_ctx i c s) = drained s"
  by (simp_all add: put_ctx_def)

lemma same_ctxs:
  "m_fdContexts s' = m_fdContexts s \<Longrightarrow> ctxs_ok s' = ctxs_ok s \<and> registered s' = registered s"
  by (simp add: ctxs_ok_def registered_def)

section \<open>Triggering\<close>

lemma triggerEvent_ok:
  assumes "ctxs_ok s" and "i < length (m_fdContexts s)" and "is_event e k"
    and "bit (ctx_events (m_fdContexts s ! i)) k"
  shows "\<exists>q. ec_scheduler (ctx_of k (m_fdContexts s ! i)) = Some q \<and>
    triggerEvent e i s = Inr (put_ctx i (cleared e (m_fdContexts s ! i))
      (on_sched q (schedule (waiting_task (ctx_of k (m_fdContexts s ! i)))) s))"
proof -
  let ?c = "m_fdContexts s ! i"
  let ?c1 = "?c\<lparr>ctx_events := ctx_events ?c AND NOT e\<rparr>"
  have w: "waits True (ctx_of k ?c)"
    using fd_ok_nth [OF assms(1,2)] assms(3,4) by (auto simp: fd_ok_def ctx_of_def is_event_def)
  then obtain q where q: "ec_scheduler (ctx_of k ?c) = Some q"
      "(ec_cb (ctx_of k ?c) = None) \<noteq> (ec_fiber (ctx_of k ?c) = None)"
    by (auto simp: waits_def)
  have e1: "ctx_of k ?c1 = ctx_of k ?c" by (simp add: ctx_of_def)
  have nz: "\<not> ctx_events ?c AND e = 0"
    using assms(4) is_event_and [OF assms(3)] by simp
  have nw: "(ctx_of k ?c)\<lparr>ec_cb := None, ec_scheduler := None\<rparr> = no_waiter"
    if "ec_cb (ctx_of k ?c) \<noteq> None"
    using q(2) that by (cases "ctx_of k ?c") (simp add: no_waiter_def)
  have nw': "(ctx_of k ?c)\<lparr>ec_fiber := None, ec_scheduler := None\<rparr> = no_waiter"
    if "ec_cb (ctx_of k ?c) = None"
    using that by (cases "ctx_of k ?c") (simp add: no_waiter_def)
  show ?thesis
  proof (cases "ec_cb (ctx_of k ?c)")
    case None
    then have "waiting_task (ctx_of k ?c) = FiberTask (ec_fiber (ctx_of k ?c)) None (-1)"
      by (simp add: waiting_task_def)
    then show ?thesis
      using None q(1) nz nw'
      by (simp add: triggerEvent_def Let_def getContext_event [OF assms(3)] e1 cleared_def)
  next
    case (Some f)
    then have "waiting_task (ctx_of k ?c) = FiberTask None (Some f) (-1)"
      using q(2) by (simp add: waiting_task_def)
    then show ?thesis
      using Some q(1) nz nw
      by (simp add: triggerEvent_def Let_def getContext_event [OF assms(3)] e1 cleared_def)
  qed
qed

lemma trigger_counts:
  assumes "ctxs_ok s" and "i < length (m_fdContexts s)" and "is_event e k"
    and "bit (ctx_events (m_fdContexts s ! i)) k" and "triggerEvent e i s = Inr s'"
  shows "ctxs_ok s'" and "Suc (registered s') = registered s"
    and "m_pendingEventCount s' = m_pendingEventCount s" and "readers s' = readers s"
    and "length (m_fdContexts s') = length (m_fdContexts s)"
    and "m_fdContexts s' ! i = cleared e (m_fdContexts s ! i)"
proof -
  let ?c = "m_fdContexts s ! i"
  obtain q where s': "s' = put_ctx i (cleared e ?c) (on_sched q (schedule (waiting_task (ctx_of k ?c))) s)"
    using triggerEvent_ok [OF assms(1-4)] assms(5) by auto
  let ?s = "on_sched q (schedule (waiting_task (ctx_of k ?c))) s"
  have same: "ctxs_ok ?s" "registered ?s = registered s"
    using same_ctxs [of ?s s] assms(1) by simp_all
  note cl = fd_ok_cleared [OF fd_ok_nth [OF assms(1,2)] assms(3)]
  show "ctxs_ok s'"
    unfolding s' using assms(2) cl ctx_fd_nth [OF assms(1,2)] by (intro put_ctx_ok same) simp_all
  show "Suc (registered s') = registered s"
    unfolding s' using registered_put [of i ?s "cleared e ?c"] assms(2,4) cl(2) same(2)
      fd_count_pos [OF assms(3,4)] by simp
qed (use triggerEvent_ok [OF assms(1-4)] assms(2,5) in auto)

lemma pending_dec_simps [simp]:
  "m_fdContexts (pending_dec s) = m_fdContexts s" "readers (pending_dec s) = readers s"
  "scheds (pending_dec s) = scheds s" "tm (pending_dec s) = tm s"
  "m_pendingEventCount (pending_dec s) = usub (m_pendingEventCount s) 1"
  by (simp_all add: pending_dec_def)

lemma unlock_twice_simps [simp]:
  "m_fdContexts (unlock_twice s) = m_fdContexts s" "scheds (unlock_twice s) = scheds s"
  "m_pendingEventCount (unlock_twice s) = m_pendingEventCount s" "tm (unlock_twice s) = tm s"
  "readers (unlock_twice s) = readers s - 1"
  by (simp_all add: unlock_twice_def)

lemma ep_inv_unlock [simp]: "ep_inv (unlock_twice s) = ep_inv s"
  using same_ctxs [of "unlock_twice s" s] by (simp add: ep_inv_def)

lemma trigger_if_ok:
  assumes "ep_inv s" and "i < length (m_fdContexts s)" and "is_event e k"
    and "b \<Longrightarrow> bit (ctx_events (m_fdContexts s ! i)) k"
  shows "\<exists>s'. trigger_if b e i s = Inr s' \<and> ep_inv s' \<and> readers s' = readers s \<and>
    length (m_fdContexts s') = length (m_fdContexts s) \<and>
    m_fdContexts s' ! i = (if b then cleared e (m_fdContexts s ! i) else m_fdContexts s ! i)"
proof (cases b)
  case False
  then show ?thesis using assms(1) by (simp add: trigger_if_def)
next
  case True
  have ok: "ctxs_ok s" "m_pendingEventCount s = registered s" using assms(1) by (simp_all add: ep_inv_def)
  have b: "bit (ctx_events (m_fdContexts s ! i)) k" using assms(4) True by blast
  obtain s1 where s1: "triggerEvent e i s = Inr s1"
    using triggerEvent_ok [OF ok(1) assms(2,3) b] by blast
  note t = trigger_counts [OF ok(1) assms(2,3) b s1]
  have "ep_inv (pending_dec s1)"
    using t ok(2) same_ctxs [of "pending_dec s1" s1] by (auto simp: ep_inv_def)
  then show ?thesis
    using True s1 t by (simp add: trigger_if_def)
qed

section \<open>The operations\<close>

lemma fd_ok_registered:
  assumes "fd_ok c" and "is_event e k" and "\<not> bit (ctx_events c) k"
    and "waits True x"
  defines "c' \<equiv> setContext e x (c\<lparr>ctx_events := ctx_events c OR e\<rparr>)"
  shows "fd_ok c'" and "fd_count c' = Suc (fd_count c)" and "ctx_fd c' = ctx_fd c" and "ctx_of k c' = x"
    and "bit (ctx_events c') k"
proof -
  have ev: "ctx_events c' = ctx_events c OR e"
    by (simp add: c'_def setContext_def)
  have cx: "ctx_read c' = (if k = 0 then x else ctx_read c)"
      "ctx_write c' = (if k = 2 then x else ctx_write c)"
    using assms(2) by (auto simp: c'_def setContext_def is_event_def)
  have bits: "bit (ctx_events c') n \<longleftrightarrow> bit (ctx_events c) n \<or> n = k" for n
    unfolding ev by (simp add: bit_or_iff is_event_bit [OF assms(2)])
  have k: "k = 0 \<or> k = 2" using assms(2) by (auto simp: is_event_def)
  show "fd_ok c'"
    using assms(1,4) k unfolding fd_ok_def bits cx by (auto simp: waits_def)
  show "fd_count c' = Suc (fd_count c)"
    using assms(3) k unfolding fd_count_def bits by auto
  show "ctx_fd c' = ctx_fd c" by (simp add: c'_def setContext_def)
  show "ctx_of k c' = x" using k by (auto simp: ctx_of_def cx)
  show "bit (ctx_events c') k" by (simp add: bits)
qed

lemma addEvent_new:
  assumes inv: "ep_inv s" and e: "is_event e k" and fd: "0 \<le> fd" "nat fd < length (m_fdContexts s)"
    and nb: "\<not> bit (ctx_events (m_fdContexts s ! nat fd)) k"
    and ctl: "ctl (if ctx_events (m_fdContexts s ! nat fd) \<noteq> 0 then EPOLL_CTL_MOD else EPOLL_CTL_ADD) fd
        (EPOLLET OR ctx_events (m_fdContexts s ! nat fd) OR e)"
    and run: "cb \<noteq> None \<or> exec" and ths: "this = Some q"
  shows "\<exists>s'. addEvent ctl this cur exec fd e cb s = Inr (0, s') \<and> ep_inv s' \<and>
    bit (ctx_events (m_fdContexts s' ! nat fd)) k \<and>
    ctx_of k (m_fdContexts s' ! nat fd) =
      \<lparr>ec_scheduler = Some q, ec_fiber = (if cb = None then Some cur else None), ec_cb = cb\<rparr> \<and>
    (\<forall>j. j \<noteq> nat fd \<longrightarrow> m_fdContexts s' ! j = m_fdContexts s ! j) \<and>
    readers s' = readers s \<and> scheds s' = scheds s"
proof -
  let ?i = "nat fd" and ?c = "m_fdContexts s ! nat fd"
  let ?x = "\<lparr>ec_scheduler = Some q, ec_fiber = (if cb = None then Some cur else None), ec_cb = cb\<rparr>"
  have ok: "ctxs_ok s" "m_pendingEventCount s = registered s" using inv by (simp_all add: ep_inv_def)
  have fok: "fd_ok ?c" by (rule fd_ok_nth [OF ok(1) fd(2)])
  have none: "ctx_of k ?c = no_waiter"
    using fok nb e by (auto simp: fd_ok_def waits_def ctx_of_def is_event_def)
  have w: "waits True ?x" by (simp add: waits_def)
  note reg = fd_ok_registered [OF fok e nb w]
  let ?c' = "setContext e ?x (?c\<lparr>ctx_events := ctx_events ?c OR e\<rparr>)"
  let ?s' = "put_ctx ?i ?c' (s\<lparr>m_pendingEventCount := Suc (m_pendingEventCount s)\<rparr>)"
  have "ctx_events ?c AND e = 0" using nb is_event_and [OF e] by simp
  moreover have "getContext e (?c\<lparr>ctx_events := ctx_events ?c OR e\<rparr>) = Inr no_waiter"
  proof -
    have "ctx_of k (?c\<lparr>ctx_events := ctx_events ?c OR e\<rparr>) = ctx_of k ?c" by (simp add: ctx_of_def)
    then show ?thesis using none by (simp add: getContext_event [OF e])
  qed
  ultimately have "addEvent ctl this cur exec fd e cb s = Inr (0, ?s')"
    using fd ctl run ths by (cases cb) (simp_all add: addEvent_def Let_def no_waiter_def)
  moreover have "ep_inv ?s'"
  proof -
    let ?s = "s\<lparr>m_pendingEventCount := Suc (m_pendingEventCount s)\<rparr>"
    have same: "ctxs_ok ?s" "registered ?s = registered s"
      using same_ctxs [of ?s s] ok(1) by simp_all
    have "ctxs_ok ?s'"
      using fd reg ctx_fd_nth [OF ok(1) fd(2)] by (intro put_ctx_ok same) simp_all
    moreover have "registered ?s' = Suc (registered s)"
      using registered_put [of ?i ?s ?c'] fd(2) reg(2) same(2) by simp
    ultimately show ?thesis using ok(2) by (simp add: ep_inv_def)
  qed
  ultimately show ?thesis
    using reg fd(2) by (intro exI [of _ ?s']) simp
qed

lemma addEvent_refused:
  assumes "is_event e k" and "0 \<le> fd" and "nat fd < length (m_fdContexts s)"
  shows "bit (ctx_events (m_fdContexts s ! nat fd)) k \<Longrightarrow>
      addEvent ctl this cur exec fd e cb s = Inl Assert_failed"
    and "\<not> bit (ctx_events (m_fdContexts s ! nat fd)) k \<Longrightarrow>
      \<not> ctl (if ctx_events (m_fdContexts s ! nat fd) \<noteq> 0 then EPOLL_CTL_MOD else EPOLL_CTL_ADD) fd
        (EPOLLET OR ctx_events (m_fdContexts s ! nat fd) OR e) \<Longrightarrow>
      addEvent ctl this cur exec fd e cb s = Inr (-1, s)"
  using assms is_event_and [OF assms(1)] by (auto simp: addEvent_def Let_def)

text \<open>The outcome of a removal whose bit is set and that \<^verbatim>\<open>epoll_ctl\<close> accepts.\<close>

definition removal_ok :: "epoll_ctl \<Rightarrow> int \<Rightarrow> u32 \<Rightarrow> 'c poller \<Rightarrow> bool" where
  "removal_ok ctl fd e s \<longleftrightarrow>
     (let new = ctx_events (m_fdContexts s ! nat fd) AND NOT e
      in ctl (if new \<noteq> 0 then EPOLL_CTL_MOD else EPOLL_CTL_DEL) fd (EPOLLET OR new))"

lemma removal_refused:
  assumes "is_event e k" and "0 \<le> fd" and "nat fd < length (m_fdContexts s)"
    and "\<not> bit (ctx_events (m_fdContexts s ! nat fd)) k \<or> \<not> removal_ok ctl fd e s"
  shows "delEvent ctl fd e s = Inr (False, unlock_twice s)"
    and "cancelEvent ctl fd e s = Inr (False, unlock_twice s)"
  using assms is_event_and [OF assms(1)]
  by (auto simp: delEvent_def cancelEvent_def removal_ok_def Let_def)

lemma delEvent_ok:
  assumes inv: "ep_inv s" and e: "is_event e k" and fd: "0 \<le> fd" "nat fd < length (m_fdContexts s)"
    and b: "bit (ctx_events (m_fdContexts s ! nat fd)) k" and ctl: "removal_ok ctl fd e s"
  shows "\<exists>s'. delEvent ctl fd e s = Inr (True, s') \<and> ep_inv s' \<and>
    m_fdContexts s' = (m_fdContexts s)[nat fd := cleared e (m_fdContexts s ! nat fd)] \<and>
    scheds s' = scheds s \<and> readers s' = readers s - 1"
proof -
  let ?i = "nat fd" and ?c = "m_fdContexts s ! nat fd"
  let ?s1 = "pending_dec (unlock_twice s)"
  let ?s' = "put_ctx ?i (cleared e ?c) ?s1"
  have ok: "ctxs_ok s" "m_pendingEventCount s = registered s" using inv by (simp_all add: ep_inv_def)
  have same: "ctxs_ok ?s1" "registered ?s1 = registered s"
    using same_ctxs [of ?s1 s] ok(1) by simp_all
  note cl = fd_ok_cleared [OF fd_ok_nth [OF ok(1) fd(2)] e]
  have "resetContext x = no_waiter" for x :: "'a event_ctx"
    by (cases x) (simp add: resetContext_def no_waiter_def)
  then have "delEvent ctl fd e s = Inr (True, ?s')"
    using fd ctl b is_event_and [OF e, of "ctx_events ?c"]
    by (simp add: delEvent_def Let_def removal_ok_def getContext_event [OF e] cleared_def)
  moreover have "ep_inv ?s'"
  proof -
    have "ctxs_ok ?s'"
      using fd cl ctx_fd_nth [OF ok(1) fd(2)] by (intro put_ctx_ok same) simp_all
    moreover have "Suc (registered ?s') = registered s"
      using registered_put [of ?i ?s1 "cleared e ?c"] fd(2) cl(2) same(2) b fd_count_pos [OF e b]
      by simp linarith
    ultimately show ?thesis using ok(2) by (simp add: ep_inv_def)
  qed
  ultimately show ?thesis by (intro exI [of _ ?s']) simp
qed

lemma cancelEvent_ok:
  assumes inv: "ep_inv s" and e: "is_event e k" and fd: "0 \<le> fd" "nat fd < length (m_fdContexts s)"
    and b: "bit (ctx_events (m_fdContexts s ! nat fd)) k" and ctl: "removal_ok ctl fd e s"
  shows "\<exists>s' q. cancelEvent ctl fd e s = Inr (True, s') \<and> ep_inv s' \<and>
    m_fdContexts s' = (m_fdContexts s)[nat fd := cleared e (m_fdContexts s ! nat fd)] \<and>
    ec_scheduler (ctx_of k (m_fdContexts s ! nat fd)) = Some q \<and>
    scheds s' = (scheds s)(q := schedule (waiting_task (ctx_of k (m_fdContexts s ! nat fd))) (scheds s q)) \<and>
    readers s' = readers s - 1"
proof -
  let ?i = "nat fd" and ?c = "m_fdContexts s ! nat fd"
  let ?s1 = "pending_dec (unlock_twice s)"
  have ok: "ctxs_ok s" "m_pendingEventCount s = registered s" using inv by (simp_all add: ep_inv_def)
  have same: "ctxs_ok ?s1" "registered ?s1 = registered s"
    using same_ctxs [of ?s1 s] ok(1) by simp_all
  have i: "?i < length (m_fdContexts ?s1)" and b1: "bit (ctx_events (m_fdContexts ?s1 ! ?i)) k"
    using fd b by simp_all
  obtain q where q: "ec_scheduler (ctx_of k ?c) = Some q"
      "triggerEvent e ?i ?s1 = Inr (put_ctx ?i (cleared e ?c) (on_sched q (schedule (waiting_task (ctx_of k ?c))) ?s1))"
    using triggerEvent_ok [OF same(1) i e b1] by auto
  let ?s' = "put_ctx ?i (cleared e ?c) (on_sched q (schedule (waiting_task (ctx_of k ?c))) ?s1)"
  note t = trigger_counts [OF same(1) i e b1 q(2)]
  have "cancelEvent ctl fd e s = Inr (True, ?s')"
    using fd ctl b is_event_and [OF e, of "ctx_events ?c"] q(2)
    by (simp add: cancelEvent_def Let_def removal_ok_def)
  moreover have "ep_inv ?s'"
    using t(1,2) same(2) ok(2)
    by (simp add: ep_inv_def)
  ultimately show ?thesis
    using q(1) by (intro exI [of _ ?s'] exI [of _ q]) simp
qed

lemma is_event_READ: "is_event READ 0" and is_event_WRITE: "is_event WRITE 2"
  by (simp_all add: is_event_def)

lemma events_zero: "fd_ok c \<Longrightarrow> ctx_events c = 0 \<longleftrightarrow> \<not> bit (ctx_events c) 0 \<and> \<not> bit (ctx_events c) 2"
proof
  assume "fd_ok c" and "\<not> bit (ctx_events c) 0 \<and> \<not> bit (ctx_events c) 2"
  then show "ctx_events c = 0"
    by (intro bit_word_eqI) (auto simp: fd_ok_def)
qed simp

lemma cleared_bits:
  "is_event e k \<Longrightarrow> bit (ctx_events (cleared e c)) n \<longleftrightarrow> bit (ctx_events c) n \<and> n \<noteq> k"
proof -
  assume e: "is_event e k"
  have ev: "ctx_events (cleared e c) = ctx_events c AND NOT e"
    by (simp add: cleared_def setContext_def)
  show ?thesis unfolding ev by (rule event_and_not [OF e])
qed

lemma two_triggers:
  assumes inv: "ep_inv s" and i: "i < length (m_fdContexts s)"
    and r: "r \<Longrightarrow> bit (ctx_events (m_fdContexts s ! i)) 0" and w: "w \<Longrightarrow> bit (ctx_events (m_fdContexts s ! i)) 2"
  shows "\<exists>s1 s2. trigger_if r READ i s = Inr s1 \<and> trigger_if w WRITE i s1 = Inr s2 \<and> ep_inv s2 \<and>
    ctx_events (m_fdContexts s1 ! i) =
      (if r then ctx_events (m_fdContexts s ! i) AND NOT READ else ctx_events (m_fdContexts s ! i)) \<and>
    readers s2 = readers s \<and> length (m_fdContexts s2) = length (m_fdContexts s) \<and>
    (\<forall>n. bit (ctx_events (m_fdContexts s2 ! i)) n \<longleftrightarrow>
       bit (ctx_events (m_fdContexts s ! i)) n \<and> \<not> (r \<and> n = 0) \<and> \<not> (w \<and> n = 2))"
proof -
  obtain s1 where s1: "trigger_if r READ i s = Inr s1" "ep_inv s1" "readers s1 = readers s"
      "length (m_fdContexts s1) = length (m_fdContexts s)"
      "m_fdContexts s1 ! i = (if r then cleared READ (m_fdContexts s ! i) else m_fdContexts s ! i)"
    using trigger_if_ok [OF inv i is_event_READ r] by auto
  have w1: "bit (ctx_events (m_fdContexts s1 ! i)) 2" if w
    using w [OF that] by (simp add: s1(5) cleared_bits [OF is_event_READ])
  obtain s2 where s2: "trigger_if w WRITE i s1 = Inr s2" "ep_inv s2" "readers s2 = readers s1"
      "length (m_fdContexts s2) = length (m_fdContexts s1)"
      "m_fdContexts s2 ! i = (if w then cleared WRITE (m_fdContexts s1 ! i) else m_fdContexts s1 ! i)"
    using trigger_if_ok [OF s1(2) _ is_event_WRITE w1] i s1(4) by auto
  have e1: "ctx_events (m_fdContexts s1 ! i) =
      (if r then ctx_events (m_fdContexts s ! i) AND NOT READ else ctx_events (m_fdContexts s ! i))"
    by (simp add: s1(5) cleared_def setContext_def)
  have "bit (ctx_events (m_fdContexts s2 ! i)) n \<longleftrightarrow>
       bit (ctx_events (m_fdContexts s ! i)) n \<and> \<not> (r \<and> n = 0) \<and> \<not> (w \<and> n = 2)" for n
    by (auto simp: s2(5) s1(5) cleared_bits [OF is_event_READ] cleared_bits [OF is_event_WRITE])
  then show ?thesis
    using s1(1,3,4) s2(1-4) e1 by - (rule exI [of _ s1], rule exI [of _ s2], simp)
qed

lemma cancelAll_ok:
  assumes inv: "ep_inv s" and fd: "0 \<le> fd" "nat fd < length (m_fdContexts s)"
    and nz: "ctx_events (m_fdContexts s ! nat fd) \<noteq> 0" and ctl: "ctl EPOLL_CTL_DEL fd 0"
  shows "\<exists>s'. cancelAll ctl fd s = Inr (True, s') \<and> ep_inv s' \<and>
    ctx_events (m_fdContexts s' ! nat fd) = 0 \<and> readers s' = readers s - 1"
proof -
  let ?i = "nat fd" and ?s = "unlock_twice s"
  let ?ev = "ctx_events (m_fdContexts s ! ?i)"
  obtain s1 s2 where t: "trigger_if (bit ?ev 0) READ ?i ?s = Inr s1" "trigger_if (bit ?ev 2) WRITE ?i s1 = Inr s2"
      "ep_inv s2" "ctx_events (m_fdContexts s1 ! ?i) = (if bit ?ev 0 then ?ev AND NOT READ else ?ev)"
      "readers s2 = readers ?s" "length (m_fdContexts s2) = length (m_fdContexts s)"
      "\<forall>n. bit (ctx_events (m_fdContexts s2 ! ?i)) n \<longleftrightarrow> bit ?ev n \<and> \<not> (bit ?ev 0 \<and> n = 0) \<and> \<not> (bit ?ev 2 \<and> n = 2)"
    using two_triggers [of ?s ?i "bit ?ev 0" "bit ?ev 2"] inv fd by auto
  have w: "bit (ctx_events (m_fdContexts s1 ! ?i)) 2 = bit ?ev 2"
    using event_and_not [OF is_event_READ, of ?ev 2] by (simp add: t(4))
  have "fd_ok (m_fdContexts s2 ! ?i)"
    using t(3,6) fd by (intro fd_ok_nth) (simp_all add: ep_inv_def)
  then have z: "ctx_events (m_fdContexts s2 ! ?i) = 0"
    using t(7) by (simp add: events_zero)
  have "cancelAll ctl fd s = Inr (True, s2)"
    using fd nz ctl t(1,2) z w by (simp add: cancelAll_def Let_def and_READ_zero and_WRITE_zero)
  then show ?thesis
    using t(3,5) z by (intro exI [of _ s2]) simp
qed

section \<open>Reported events\<close>

lemma bit_epoll_masks:
  "bit EPOLLIN n \<longleftrightarrow> n = 0" "bit EPOLLOUT n \<longleftrightarrow> n = 2"
  "bit (EPOLLERR OR EPOLLHUP) n \<longleftrightarrow> n = 3 \<or> n = 4"
proof -
  show "bit EPOLLIN n \<longleftrightarrow> n = 0" "bit EPOLLOUT n \<longleftrightarrow> n = 2"
    using bit_READ [of n] bit_WRITE [of n]
    by (simp_all add: EPOLLIN_def EPOLLOUT_def READ_def WRITE_def)
  have e: "EPOLLERR = push_bit 3 1" and h: "EPOLLHUP = push_bit 4 1"
    by (simp_all add: EPOLLERR_def EPOLLHUP_def)
  show "bit (EPOLLERR OR EPOLLHUP) n \<longleftrightarrow> n = 3 \<or> n = 4"
    unfolding e h by (simp only: bit_or_iff bit_push_bit_iff bit_1_iff) (auto simp: possible_bit_word)
qed

lemma and_errors_zero: "x AND (EPOLLERR OR EPOLLHUP) = 0 \<longleftrightarrow> \<not> bit x 3 \<and> \<not> bit x 4"
proof
  assume z: "x AND (EPOLLERR OR EPOLLHUP) = 0"
  have "\<not> bit (x AND (EPOLLERR OR EPOLLHUP)) n" for n unfolding z by simp
  from this [of 3] this [of 4] show "\<not> bit x 3 \<and> \<not> bit x 4"
    by (simp add: bit_and_iff bit_epoll_masks)
next
  assume "\<not> bit x 3 \<and> \<not> bit x 4"
  then show "x AND (EPOLLERR OR EPOLLHUP) = 0"
    by (intro bit_word_eqI) (auto simp: bit_and_iff bit_epoll_masks)
qed

text \<open>The events acted on: those reported, and after an error or a hang-up all that are awaited.\<close>

definition wanted :: "u32 \<Rightarrow> u32 \<Rightarrow> nat \<Rightarrow> bool" where
  "wanted reported reg k \<longleftrightarrow> bit reported k \<or> ((bit reported 3 \<or> bit reported 4) \<and> bit reg k)"

lemma bit_real_events:
  "bit (real_events rep reg) n \<longleftrightarrow> (n = 0 \<and> wanted rep reg 0) \<or> (n = 2 \<and> wanted rep reg 2)"
proof -
  let ?ev = "if rep AND (EPOLLERR OR EPOLLHUP) \<noteq> 0
             then rep OR ((EPOLLIN OR EPOLLOUT) AND reg) else rep"
  have ev: "bit ?ev k = wanted rep reg k" if "k = 0 \<or> k = 2" for k
    using that by (auto simp: and_errors_zero wanted_def bit_or_iff bit_and_iff bit_epoll_masks(1,2))
  have zin: "?ev AND EPOLLIN = 0 \<longleftrightarrow> \<not> bit ?ev 0"
    by (rule and_single_zero) (rule bit_epoll_masks)
  have zout: "?ev AND EPOLLOUT = 0 \<longleftrightarrow> \<not> bit ?ev 2"
    by (rule and_single_zero) (rule bit_epoll_masks)
  show ?thesis
    unfolding real_events_def Let_def zin zout using ev [of 0] ev [of 2]
    by (simp add: bit_or_iff bit_READ bit_WRITE)
qed

lemma real_and: "real_events rep reg AND READ \<noteq> 0 \<longleftrightarrow> wanted rep reg 0"
    "real_events rep reg AND WRITE \<noteq> 0 \<longleftrightarrow> wanted rep reg 2"
  by (simp_all add: and_READ_zero and_WRITE_zero bit_real_events)

lemma events_and_real:
  assumes "\<forall>n. bit reg n \<longrightarrow> n = 0 \<or> n = 2"
  shows "reg AND real_events rep reg = 0 \<longleftrightarrow> \<not> (bit reg 0 \<and> wanted rep reg 0) \<and> \<not> (bit reg 2 \<and> wanted rep reg 2)"
proof
  assume z: "reg AND real_events rep reg = 0"
  have "\<not> bit (reg AND real_events rep reg) n" for n unfolding z by simp
  from this [of 0] this [of 2]
  show "\<not> (bit reg 0 \<and> wanted rep reg 0) \<and> \<not> (bit reg 2 \<and> wanted rep reg 2)"
    by (simp add: bit_and_iff bit_real_events)
next
  assume "\<not> (bit reg 0 \<and> wanted rep reg 0) \<and> \<not> (bit reg 2 \<and> wanted rep reg 2)"
  then show "reg AND real_events rep reg = 0"
    by (intro bit_word_eqI) (auto simp: bit_and_iff bit_real_events)
qed

text \<open>A report is stale when it names an event that is no longer awaited.\<close>

definition stale :: "u32 \<Rightarrow> u32 \<Rightarrow> bool" where
  "stale rep reg \<longleftrightarrow> (bit rep 0 \<and> \<not> bit reg 0) \<or> (bit rep 2 \<and> \<not> bit reg 2)"

definition handled_ctl :: "epoll_ctl \<Rightarrow> nat \<Rightarrow> u32 \<Rightarrow> u32 \<Rightarrow> bool" where
  "handled_ctl ctl i rep reg \<longleftrightarrow>
     (let left = reg AND NOT (real_events rep reg)
      in ctl (if left \<noteq> 0 then EPOLL_CTL_MOD else EPOLL_CTL_DEL) (int i) (EPOLLET OR left))"

lemma handle_event_eq:
  assumes inv: "ep_inv s" and i: "i < length (m_fdContexts s)"
  defines "reg \<equiv> ctx_events (m_fdContexts s ! i)"
  shows "handle_event ctl i rep s =
    (if \<not> (bit reg 0 \<and> wanted rep reg 0) \<and> \<not> (bit reg 2 \<and> wanted rep reg 2) then Inr s
     else if \<not> handled_ctl ctl i rep reg then Inr s
     else rbind (trigger_if (wanted rep reg 0) READ i s) (trigger_if (wanted rep reg 2) WRITE i))"
proof -
  have ok: "ctxs_ok s" using inv by (simp add: ep_inv_def)
  have bits: "\<forall>n. bit reg n \<longrightarrow> n = 0 \<or> n = 2"
    using fd_ok_nth [OF ok i] by (simp add: fd_ok_def reg_def)
  have fd: "ctx_fd (m_fdContexts s ! i) = i" by (rule ctx_fd_nth [OF ok i])
  show ?thesis
    unfolding handle_event_def Let_def fd reg_def [symmetric] events_and_real [OF bits] real_and
      handled_ctl_def
    by simp
qed

lemma handle_event_ok:
  assumes inv: "ep_inv s" and i: "i < length (m_fdContexts s)"
    and fresh: "\<not> stale rep (ctx_events (m_fdContexts s ! i))"
  shows "\<exists>s'. handle_event ctl i rep s = Inr s' \<and> ep_inv s' \<and> length (m_fdContexts s') = length (m_fdContexts s) \<and>
    (s' = s \<or> (\<forall>k. (k = 0 \<or> k = 2) \<longrightarrow> bit (ctx_events (m_fdContexts s' ! i)) k =
        (bit (ctx_events (m_fdContexts s ! i)) k \<and> \<not> wanted rep (ctx_events (m_fdContexts s ! i)) k)))"
proof -
  let ?reg = "ctx_events (m_fdContexts s ! i)"
  have sub: "wanted rep ?reg 0 \<Longrightarrow> bit ?reg 0" "wanted rep ?reg 2 \<Longrightarrow> bit ?reg 2"
    using fresh by (auto simp: stale_def wanted_def)
  obtain s1 s2 where "trigger_if (wanted rep ?reg 0) READ i s = Inr s1"
      "trigger_if (wanted rep ?reg 2) WRITE i s1 = Inr s2" "ep_inv s2"
      "length (m_fdContexts s2) = length (m_fdContexts s)"
      "\<forall>n. bit (ctx_events (m_fdContexts s2 ! i)) n \<longleftrightarrow>
         bit ?reg n \<and> \<not> (wanted rep ?reg 0 \<and> n = 0) \<and> \<not> (wanted rep ?reg 2 \<and> n = 2)"
    using two_triggers [OF inv i, of "wanted rep ?reg 0" "wanted rep ?reg 2"] sub by auto
  then show ?thesis
    using inv by (auto simp: handle_event_eq [OF inv i])
qed

lemma handle_event_stale:
  assumes inv: "ep_inv s" and i: "i < length (m_fdContexts s)"
    and one: "bit (ctx_events (m_fdContexts s ! i)) 0" "bit rep 0"
    and gone: "\<not> bit (ctx_events (m_fdContexts s ! i)) 2" "bit rep 2"
    and ctl: "handled_ctl ctl i rep (ctx_events (m_fdContexts s ! i))"
  shows "handle_event ctl i rep s = Inl Assert_failed"
proof -
  let ?reg = "ctx_events (m_fdContexts s ! i)"
  have w: "wanted rep ?reg 0" "wanted rep ?reg 2" using one gone by (simp_all add: wanted_def)
  obtain s1 where s1: "trigger_if True READ i s = Inr s1" "m_fdContexts s1 ! i = cleared READ (m_fdContexts s ! i)"
    using trigger_if_ok [OF inv i is_event_READ, of True] one(1) by auto
  have "\<not> bit (ctx_events (m_fdContexts s1 ! i)) 2"
    using gone(1) by (simp add: s1(2) cleared_bits [OF is_event_READ])
  then have "trigger_if True WRITE i s1 = Inl Assert_failed"
    by (simp add: trigger_if_def triggerEvent_def Let_def and_WRITE_zero)
  then show ?thesis
    using w one(1) ctl s1(1) by (simp add: handle_event_eq [OF inv i])
qed

end
