(* ===== verification/EventPoller_Properties.thy ===== *)
theory EventPoller_Properties
  imports EventPoller_Facts Timer_Properties Scheduler_Properties
begin

text \<open>
  The properties of the event poller, some of them together with the timers and the scheduler it
  is built on.
\<close>

section \<open>Every history of the poller\<close>

text \<open>
  The steps: registrations from a thread of some scheduler, for one of the two events, by a
  running fiber or with a function; removals; reported events that are still awaited; and the
  steps that do not touch the contexts.
\<close>

inductive ep_step :: "'c poller \<Rightarrow> 'c poller \<Rightarrow> bool" where
  ep_add: "is_event e k \<Longrightarrow> this \<noteq> None \<Longrightarrow> cb \<noteq> None \<or> exec \<Longrightarrow>
    addEvent ctl this cur exec fd e cb s = Inr (r, s') \<Longrightarrow> ep_step s s'"
| ep_del: "is_event e k \<Longrightarrow> delEvent ctl fd e s = Inr (b, s') \<Longrightarrow> ep_step s s'"
| ep_cancel: "is_event e k \<Longrightarrow> cancelEvent ctl fd e s = Inr (b, s') \<Longrightarrow> ep_step s s'"
| ep_cancelAll: "cancelAll ctl fd s = Inr (b, s') \<Longrightarrow> ep_step s s'"
| ep_handle: "i < length (m_fdContexts s) \<Longrightarrow> \<not> stale ev (ctx_events (m_fdContexts s ! i)) \<Longrightarrow>
    handle_event ctl i ev s = Inr s' \<Longrightarrow> ep_step s s'"
| ep_tickle: "ep_step s (poller_tickle s)"
| ep_drain: "ep_step s (s\<lparr>drained := tickles (scheds s (self s))\<rparr>)"
| ep_check: "ep_step s (snd (snd (stopping_timeout now s)))"
| ep_timers: "listExpiredCb now c (tm s) = (cbs, tm') \<Longrightarrow>
    ep_step s (on_sched (self s) (schedule_range cbs) (s\<lparr>tm := tm'\<rparr>))"

lemma ep_inv_same:
  "m_fdContexts s' = m_fdContexts s \<Longrightarrow> m_pendingEventCount s' = m_pendingEventCount s \<Longrightarrow>
    ep_inv s' = ep_inv s"
  using same_ctxs [of s' s] by (simp add: ep_inv_def)

lemma fd_in_range:
  "addEvent ctl this cur exec fd e cb s = Inr r \<Longrightarrow> 0 \<le> fd \<and> nat fd < length (m_fdContexts s)"
  by (auto simp: addEvent_def split: if_splits)

lemma ep_step_inv: "ep_step s s' \<Longrightarrow> ep_inv s \<Longrightarrow> ep_inv s'"
proof (induction rule: ep_step.induct)
  case (ep_add e k this cb exec ctl cur fd s r s')
  note fd = fd_in_range [OF ep_add(4)]
  let ?c = "m_fdContexts s ! nat fd"
  obtain q where q: "this = Some q" using ep_add(2) by blast
  show ?case
  proof (cases "bit (ctx_events ?c) k")
    case True
    then show ?thesis
      using ep_add(4) addEvent_refused(1) [OF ep_add(1) _ _ True] fd by auto
  next
    case False
    show ?thesis
    proof (cases "ctl (if ctx_events ?c \<noteq> 0 then EPOLL_CTL_MOD else EPOLL_CTL_ADD) fd (EPOLLET OR ctx_events ?c OR e)")
      case True
      then obtain s'' where "addEvent ctl this cur exec fd e cb s = Inr (0, s'')" and "ep_inv s''"
        using addEvent_new [where ctl=ctl and cur=cur, OF ep_add(5,1) _ _ False _ ep_add(3) q] fd by blast
      then show ?thesis using ep_add(4) by simp
    next
      case no: False
      then show ?thesis
        using addEvent_refused(2) [where ctl=ctl, OF ep_add(1) _ _ False no] ep_add(4,5) fd by auto
    qed
  qed
next
  case (ep_del e k ctl fd s b s')
  show ?case
  proof (cases "0 \<le> fd \<and> nat fd < length (m_fdContexts s)")
    case True
    then show ?thesis
      using removal_refused(1) [OF ep_del(1), of fd s ctl] delEvent_ok [OF ep_del(3,1), of fd ctl]
        ep_del(2,3) by (cases "bit (ctx_events (m_fdContexts s ! nat fd)) k \<and> removal_ok ctl fd e s") auto
  next
    case False
    then show ?thesis using ep_del(2,3) by (auto simp: delEvent_def split: if_splits)
  qed
next
  case (ep_cancel e k ctl fd s b s')
  show ?case
  proof (cases "0 \<le> fd \<and> nat fd < length (m_fdContexts s)")
    case True
    then show ?thesis
      using removal_refused(2) [OF ep_cancel(1), of fd s ctl] cancelEvent_ok [OF ep_cancel(3,1), of fd ctl]
        ep_cancel(2,3) by (cases "bit (ctx_events (m_fdContexts s ! nat fd)) k \<and> removal_ok ctl fd e s") auto
  next
    case False
    then show ?thesis using ep_cancel(2,3) by (auto simp: cancelEvent_def split: if_splits)
  qed
next
  case (ep_cancelAll ctl fd s b s')
  show ?case
  proof (cases "0 \<le> fd \<and> nat fd < length (m_fdContexts s) \<and> ctx_events (m_fdContexts s ! nat fd) \<noteq> 0 \<and>
      ctl EPOLL_CTL_DEL fd 0")
    case True
    then show ?thesis using cancelAll_ok [OF ep_cancelAll(2), of fd ctl] ep_cancelAll(1) by auto
  next
    case False
    then show ?thesis using ep_cancelAll by (auto simp: cancelAll_def Let_def split: if_splits)
  qed
next
  case (ep_handle i s ev ctl s')
  then show ?case using handle_event_ok [OF ep_handle(4,1,2), of ctl] by auto
next
  case (ep_tickle s)
  then show ?case using ep_inv_same [of "poller_tickle s" s] by (simp add: poller_tickle_def)
next
  case (ep_drain s)
  then show ?case using ep_inv_same [of "s\<lparr>drained := tickles (scheds s (self s))\<rparr>" s] by simp
next
  case (ep_check s now)
  have "m_fdContexts (snd (snd (stopping_timeout now s))) = m_fdContexts s"
      "m_pendingEventCount (snd (snd (stopping_timeout now s))) = m_pendingEventCount s"
    by (simp_all add: stopping_timeout_def case_prod_beta)
  then show ?case using ep_check ep_inv_same by blast
next
  case (ep_timers now c s cbs tm')
  then show ?case
    using ep_inv_same [of "on_sched (self s) (schedule_range cbs) (s\<lparr>tm := tm'\<rparr>)" s] by simp
qed

lemma ep_inv_new: "ep_inv (EventPoller sch ids h)"
proof -
  let ?blank = "\<lambda>i. \<lparr>ctx_read = no_waiter, ctx_write = no_waiter, ctx_fd = i, ctx_events = 0 :: u32\<rparr> :: 'a fd_context"
  have ctxs: "m_fdContexts (EventPoller sch ids h) = map ?blank [0..<32]"
    by (simp add: EventPoller_def contextResize_def del: upt_rec_numeral)
  have "fd_ok (?blank i)" "fd_count (?blank i) = 0" for i
    by (simp_all add: fd_ok_def waits_def fd_count_def)
  then have "ctxs_ok (EventPoller sch ids h)" "registered (EventPoller sch ids h) = 0"
    unfolding ctxs_ok_def registered_def ctxs
    by (auto simp: o_def simp del: upt_rec_numeral)
  moreover have "m_pendingEventCount (EventPoller sch ids h) = 0"
    by (simp add: EventPoller_def contextResize_def)
  ultimately show ?thesis by (simp add: ep_inv_def)
qed

lemma new_poller_ctx:
  "length (m_fdContexts (EventPoller sch ids h)) = 32"
  "i < 32 \<Longrightarrow> m_fdContexts (EventPoller sch ids h) ! i =
     \<lparr>ctx_read = no_waiter, ctx_write = no_waiter, ctx_fd = i, ctx_events = 0\<rparr>"
  "tm (EventPoller sch ids h) = new_manager h" "self (EventPoller sch ids h) = 0"
  by (simp_all add: EventPoller_def contextResize_def on_sched_def del: upt_rec_numeral)

text \<open>A poller with one worker thread and no timers, for the witnesses.\<close>

definition a_poller :: "nat poller" where
  "a_poller = EventPoller (case Scheduler 2 True 100 0 (Func 5) of Inr s \<Rightarrow> s) [101] (\<lambda>_. new_deadline 0)"

lemma a_poller_ctx:
  "length (m_fdContexts a_poller) = 32"
  "i < 32 \<Longrightarrow> m_fdContexts a_poller ! i =
     \<lparr>ctx_read = no_waiter, ctx_write = no_waiter, ctx_fd = i, ctx_events = 0\<rparr>"
  by (simp_all add: a_poller_def new_poller_ctx)

text \<open>C2. In every reachable state of the poller, the bit of an event is set in a descriptor's
  context exactly when a scheduler and exactly one of a fiber or a function wait for it, the
  contexts carry their own descriptor, and \<^verbatim>\<open>m_pendingEventCount\<close> is the number of bits set.\<close>

theorem poller_invariant:
  assumes "ep_step\<^sup>*\<^sup>* (EventPoller sch ids h) s"
  shows "ctxs_ok s \<and> m_pendingEventCount s = registered s"
  using assms
proof (induction rule: rtranclp_induct)
  case base
  then show ?case using ep_inv_new by (simp add: ep_inv_def)
next
  case (step y z)
  then show ?case using ep_step_inv [of y z] by (simp add: ep_inv_def)
qed

theorem poller_invariant_witness:
  "registered (poller_tickle a_poller) = 0"
proof -
  have "ep_step\<^sup>*\<^sup>* a_poller (poller_tickle a_poller)" by (intro r_into_rtranclp ep_tickle)
  then have "m_pendingEventCount (poller_tickle a_poller) = registered (poller_tickle a_poller)"
    using poller_invariant unfolding a_poller_def by blast
  then show ?thesis
    by (simp add: poller_tickle_def a_poller_def EventPoller_def contextResize_def)
qed

text \<open>C12. What \<^verbatim>\<open>addEvent\<close> does for one of the two events: a descriptor beyond the table locks the
  table's mutex twice in the same thread; an event that is already awaited fails the assertion; if
  \<^verbatim>\<open>epoll_ctl\<close> refuses, -1 is returned and nothing has changed; otherwise exactly this waiter is
  recorded, every other context stays as it was, and the invariant is kept.\<close>

theorem addEvent_outcome:
  assumes "ep_inv s" and "is_event e k" and "this = Some q" and "cb \<noteq> None \<or> exec" and "0 \<le> fd"
    and "c = m_fdContexts s ! nat fd"
  shows "if length (m_fdContexts s) \<le> nat fd then addEvent ctl this cur exec fd e cb s = Inl Self_deadlock
         else if bit (ctx_events c) k then addEvent ctl this cur exec fd e cb s = Inl Assert_failed
         else if \<not> ctl (if ctx_events c \<noteq> 0 then EPOLL_CTL_MOD else EPOLL_CTL_ADD) fd
                     (EPOLLET OR ctx_events c OR e)
              then addEvent ctl this cur exec fd e cb s = Inr (-1, s)
         else (\<exists>s'. addEvent ctl this cur exec fd e cb s = Inr (0, s') \<and> ep_inv s' \<and>
                bit (ctx_events (m_fdContexts s' ! nat fd)) k \<and>
                ctx_of k (m_fdContexts s' ! nat fd) =
                  \<lparr>ec_scheduler = Some q, ec_fiber = (if cb = None then Some cur else None), ec_cb = cb\<rparr> \<and>
                (\<forall>j. j \<noteq> nat fd \<longrightarrow> m_fdContexts s' ! j = m_fdContexts s ! j))"
proof (cases "length (m_fdContexts s) \<le> nat fd")
  case True
  then have "\<not> fd < int (length (m_fdContexts s))" using assms(5) by linarith
  then show ?thesis using True by (simp add: addEvent_def)
next
  case False
  then have fd: "nat fd < length (m_fdContexts s)" by simp
  have new: "\<exists>s'. addEvent ctl this cur exec fd e cb s = Inr (0, s') \<and> ep_inv s' \<and>
      bit (ctx_events (m_fdContexts s' ! nat fd)) k \<and>
      ctx_of k (m_fdContexts s' ! nat fd) =
        \<lparr>ec_scheduler = Some q, ec_fiber = (if cb = None then Some cur else None), ec_cb = cb\<rparr> \<and>
      (\<forall>j. j \<noteq> nat fd \<longrightarrow> m_fdContexts s' ! j = m_fdContexts s ! j)"
    if nb: "\<not> bit (ctx_events c) k"
      and yes: "ctl (if ctx_events c \<noteq> 0 then EPOLL_CTL_MOD else EPOLL_CTL_ADD) fd (EPOLLET OR ctx_events c OR e)"
    using addEvent_new [where ctl=ctl and cur=cur, OF assms(1,2,5) fd _ _ assms(4,3)] nb yes
    unfolding assms(6) by blast
  note refused = addEvent_refused [OF assms(2,5) fd, of ctl this cur exec cb, folded assms(6)]
  show ?thesis
    using False refused new by argo
qed

theorem addEvent_outcome_witness:
  "addEvent (\<lambda>_ _ _. True) (Some 0) 7 True 40 READ None a_poller = Inl Self_deadlock"
proof -
  have "ep_inv a_poller" unfolding a_poller_def by (rule ep_inv_new)
  from addEvent_outcome [where ctl="\<lambda>_ _ _. True" and cur=7 and q=0 and cb=None and exec=True and fd=40,
      OF this is_event_READ refl _ _ refl]
  show ?thesis using a_poller_ctx(1) by simp
qed

text \<open>C11. Removing an awaited event that \<^verbatim>\<open>epoll_ctl\<close> lets go clears it: \<^verbatim>\<open>cancelEvent\<close> puts the
  waiter on its scheduler's queue, exactly once, \<^verbatim>\<open>delEvent\<close> drops it, and no other context
  changes. In both, and also when nothing is removed, the shared lock taken at the start is
  released twice.\<close>

theorem removal_outcome:
  assumes "ep_inv s" and "is_event e k" and "0 \<le> fd" and "nat fd < length (m_fdContexts s)"
    and "c = m_fdContexts s ! nat fd"
  shows "if bit (ctx_events c) k \<and> removal_ok ctl fd e s
         then (\<exists>s1 s2 q. delEvent ctl fd e s = Inr (True, s1) \<and> ep_inv s1 \<and> scheds s1 = scheds s \<and>
                 m_fdContexts s1 = (m_fdContexts s)[nat fd := cleared e c] \<and> readers s1 = readers s - 1 \<and>
                 cancelEvent ctl fd e s = Inr (True, s2) \<and> ep_inv s2 \<and>
                 ec_scheduler (ctx_of k c) = Some q \<and>
                 scheds s2 = (scheds s)(q := schedule (waiting_task (ctx_of k c)) (scheds s q)) \<and>
                 m_fdContexts s2 = (m_fdContexts s)[nat fd := cleared e c] \<and> readers s2 = readers s - 1)
         else delEvent ctl fd e s = Inr (False, s\<lparr>readers := readers s - 1\<rparr>) \<and>
              cancelEvent ctl fd e s = Inr (False, s\<lparr>readers := readers s - 1\<rparr>)"
proof (cases "bit (ctx_events c) k \<and> removal_ok ctl fd e s")
  case True
  then show ?thesis
    using delEvent_ok [OF assms(1-4), of ctl] cancelEvent_ok [OF assms(1-4), of ctl] assms(5) by auto
next
  case False
  then show ?thesis
    using removal_refused [OF assms(2-4), of ctl] assms(5) by (auto simp: unlock_twice_def)
qed

theorem removal_outcome_witness:
  "delEvent (\<lambda>_ _ _. True) 3 READ a_poller = Inr (False, a_poller\<lparr>readers := -1\<rparr>)"
proof -
  have "ep_inv a_poller" unfolding a_poller_def by (rule ep_inv_new)
  moreover have "readers a_poller = 0"
    by (simp add: a_poller_def EventPoller_def contextResize_def)
  moreover have "nat 3 < length (m_fdContexts a_poller)" "m_fdContexts a_poller ! nat 3 =
      \<lparr>ctx_read = no_waiter, ctx_write = no_waiter, ctx_fd = 3, ctx_events = 0\<rparr>"
    by (simp_all add: a_poller_ctx)
  ultimately show ?thesis
    using removal_outcome [where ctl="\<lambda>_ _ _. True" and fd=3 and s=a_poller, OF _ is_event_READ _ _ refl]
    by simp
qed





section \<open>With timers and scheduler\<close>

text \<open>How long the poller waits: with no timer, and also with a timer that is already due, it
  gives \<^verbatim>\<open>epoll_wait\<close> the full 3000 milliseconds, so that a due timer may be that late; otherwise
  it never waits past the next deadline. With no timer the loop is never left, whatever \<^verbatim>\<open>stop\<close>
  has done, because \<^verbatim>\<open>stopping\<close> asks for a wait of \<^verbatim>\<open>~0ull\<close>, which means a timer at that distance.\<close>

theorem idle_wait:
  assumes "tm_inv (tm s)" and "t \<notin> set (m_timers (tm s))"
    and "(quit, timeout, s1) = stopping_timeout now s"
  shows "((\<exists>a \<in> set (m_timers (tm s)). m_next (heap (tm s) a) \<le> now) \<longrightarrow> wait_time timeout = 3000) \<and>
         (m_timers (tm s) = [] \<longrightarrow> wait_time timeout = 3000 \<and> \<not> quit \<and>
            (\<forall>ctl now2 c rs s'. idle_turn ctl now now2 c rs s \<noteq> Inr (None, s'))) \<and>
         ((\<forall>a \<in> set (m_timers (tm s)). now < m_next (heap (tm s) a)) \<and> m_timers (tm s) \<noteq> [] \<longrightarrow>
            wait_time timeout \<noteq> 0 \<and> wait_time timeout \<le> 3000 \<and>
            (\<forall>e < wait_time timeout. fst (listExpiredCb (now + e) t (tm s1)) = []))"
proof -
  obtain d tm' where d: "getNextTimer now (tm s) = (d, tm')" by fastforce
  have s1: "timeout = d" "tm s1 = tm'"
    "quit = (m_pendingEventCount s = 0 \<and> d = NOT 0 \<and> stopping (scheds s (self s)))"
    using assms(3) by (simp_all add: stopping_timeout_def d)
  have due: "d = 0" if "a \<in> set (m_timers (tm s))" "m_next (heap (tm s) a) \<le> now" for a
    using timers.wait_due [of "tm s" t a now] that assms(1,2) d by simp
  have none: "d = 0" if "m_timers (tm s) = []"
    using timers.wait_none [of "tm s" t now] that assms(1) d by simp
  have le: "wait_time d \<le> 3000" "d \<noteq> 0 \<Longrightarrow> wait_time d \<le> d" "d \<noteq> 0 \<Longrightarrow> wait_time d \<noteq> 0" "wait_time 0 = 3000"
    by (auto simp: wait_time_def MAX_TIMEOUT_def)
  have later: "d \<noteq> 0 \<and> (\<forall>e < d. fst (listExpiredCb (now + e) t tm') = [])"
    if "\<forall>a \<in> set (m_timers (tm s)). now < m_next (heap (tm s) a)" "m_timers (tm s) \<noteq> []"
    using timers.wait_exact [of "tm s" t now d tm'] that assms(1,2) d by auto
  have never: "idle_turn ctl now now2 c rs s \<noteq> Inr (None, s')" if "m_timers (tm s) = []" for ctl now2 c rs s'
  proof -
    have "d \<noteq> NOT 0" using none [OF that] by simp
    then have "stopping_timeout now s = (False, d, s1)" using assms(3) s1 by simp
    then show ?thesis
      by (auto simp: idle_turn_def Let_def rbind_eq_Inr split: prod.splits)
  qed
  have "timeout = 0" if "\<exists>a \<in> set (m_timers (tm s)). m_next (heap (tm s) a) \<le> now" 
    using that due s1(1) by blast
  moreover have "timeout = 0 \<and> \<not> quit" if "m_timers (tm s) = []"
    using none [OF that] s1 by simp
  moreover have "wait_time timeout \<noteq> 0 \<and> wait_time timeout \<le> 3000 \<and>
        (\<forall>e < wait_time timeout. fst (listExpiredCb (now + e) t (tm s1)) = [])"
    if "(\<forall>a \<in> set (m_timers (tm s)). now < m_next (heap (tm s) a)) \<and> m_timers (tm s) \<noteq> []"
    using later that le s1(1,2) by (metis order.strict_trans2)
  ultimately show ?thesis
    using le(4) never by auto
qed

theorem idle_wait_witness:
  "wait_time (fst (snd (stopping_timeout 200 (a_poller\<lparr>tm := one_timer\<rparr>)))) = 3000"
proof -
  obtain quit d s1 where e: "(quit, d, s1) = stopping_timeout 200 (a_poller\<lparr>tm := one_timer\<rparr>)"
    by (metis prod.collapse)
  then have "wait_time d = 3000"
    using idle_wait [OF _ _ e, of 0] by (simp add: one_timer_facts one_timer_list)
  then show ?thesis using e by (metis fst_conv snd_conv)
qed

text \<open>A worker that finds nothing to run never gets to sleep: before it switches to the idle
  fiber it tickles its own poller, so that the self-pipe holds a byte when the idle fiber waits
  for events, and \<^verbatim>\<open>epoll_wait\<close> returns at once.\<close>

theorem idle_worker_wakes_itself:
  assumes "queue_inv (scheds s (self s))" and "drained s \<le> tickles (scheds s (self s))"
    and "\<forall>t \<in> set (m_fibers (scheds s (self s))). \<not> eligible tid (fstate (scheds s (self s))) t"
    and "fstate (scheds s (self s)) idle \<noteq> Term" and "fstate (scheds s (self s)) idle \<noteq> EXEC"
  shows "\<exists>s1 s2. run_iter tid user idle fresh cbf (scheds s (self s)) = Inr (Continue (cbf, s2)) \<and>
           m_fibers s2 = m_fibers (user idle s1) \<and> fstate s1 idle = EXEC \<and>
           pipe_bytes (s\<lparr>scheds := (scheds s)(self s := s1)\<rparr>) = Suc (pipe_bytes s)"
proof -
  obtain s1 s2 where "run_iter tid user idle fresh cbf (scheds s (self s)) = Inr (Continue (cbf, s2))"
      "tickles s1 = Suc (tickles (scheds s (self s)))" "fstate s1 idle = EXEC"
      "m_fibers s2 = m_fibers (user idle s1)"
    using idle_fiber_turn [OF assms(1,3,4,5), of user fresh cbf] by blast
  then show ?thesis
    using assms(2) by (intro exI [of _ s1] exI [of _ s2]) (simp add: pipe_bytes_def)
qed

theorem idle_worker_wakes_itself_witness:
  "\<exists>s1 s2. run_iter 101 idle_user 9 8 None (scheds a_poller 0) = Inr (Continue (None, s2)) \<and>
     pipe_bytes (a_poller\<lparr>scheds := (scheds a_poller)(0 := s1)\<rparr>) = 1"
proof -
  have f: "self a_poller = 0" "m_fibers (scheds a_poller 0) = []" "fstate (scheds a_poller 0) f = INIT"
      "tickles (scheds a_poller 0) = 0" "drained a_poller = 0" for f
    by (simp_all add: a_poller_def EventPoller_def contextResize_def Scheduler_def start_def)
  then show ?thesis
    using idle_worker_wakes_itself [of a_poller 101 9 idle_user 8 None]
    by (auto simp: queue_inv_def pipe_bytes_def)
qed

end
