(* ===== verification/Text.thy ===== *)
theory Text
  imports Prelude
begin

text \<open>
  The text that output streams write for numbers, in any base up to sixteen, and what the
  components that print and parse share: reading the digits back, which characters occur,
  C strings, and cutting a string at the first occurrence of a character, as \<^verbatim>\<open>memchr\<close> finds it.
\<close>

section \<open>Digits\<close>

definition digit_char :: "nat \<Rightarrow> char" where
  "digit_char d = char_of (if d < 10 then 48 + d else 87 + d)"

definition digit_value :: "char \<Rightarrow> nat" where
  "digit_value c = (if of_char c < (58 :: nat) then of_char c - 48 else of_char c - 87)"

fun to_base :: "nat \<Rightarrow> nat \<Rightarrow> string" where
  "to_base b n = (if n < b \<or> b < 2 then [digit_char n] else to_base b (n div b) @ [digit_char (n mod b)])"

declare to_base.simps [simp del]

definition read_base :: "nat \<Rightarrow> string \<Rightarrow> nat" where
  "read_base b ds = foldl (\<lambda>a d. a * b + digit_value d) 0 ds"

definition dec :: "nat \<Rightarrow> string" where
  "dec n = to_base 10 n"

definition dec_int :: "int \<Rightarrow> string" where
  "dec_int k = (if k < 0 then CHR ''-'' # dec (nat (- k)) else dec (nat k))"

definition hexa :: "nat \<Rightarrow> string" where
  "hexa n = to_base 16 n"

lemma digit_value_char [simp]: "d < 16 \<Longrightarrow> digit_value (digit_char d) = d"
  by (simp add: digit_value_def digit_char_def)

lemma read_to_base: "2 \<le> b \<Longrightarrow> b \<le> 16 \<Longrightarrow> read_base b (to_base b n) = n"
proof (induction b n rule: to_base.induct)
  case (1 b n)
  show ?case
  proof (cases "n < b")
    case True
    then show ?thesis using 1(3) by (subst to_base.simps) (simp add: read_base_def)
  next
    case False
    have "n mod b < 16" using 1(2,3) mod_less_divisor [of b n] by linarith
    then show ?thesis
      using False 1 by (subst to_base.simps) (auto simp: read_base_def)
  qed
qed

lemma to_base_inject: "2 \<le> b \<Longrightarrow> b \<le> 16 \<Longrightarrow> to_base b m = to_base b n \<longleftrightarrow> m = n"
  using read_to_base by metis

lemma set_to_base: "2 \<le> b \<Longrightarrow> set (to_base b n) \<subseteq> digit_char ` {..<b}"
proof (induction b n rule: to_base.induct)
  case (1 b n)
  then show ?case by (subst to_base.simps) auto
qed

lemma digit_char_range: "d < 16 \<Longrightarrow> of_char (digit_char d) \<in> {48..<58} \<union> {97..<103::nat}"
  by (auto simp: digit_char_def)

lemma no_digit:
  assumes "2 \<le> b" and "b \<le> 16" and "of_char c \<notin> {48..<58} \<union> {97..<103::nat}"
  shows "c \<notin> set (to_base b n)"
proof
  assume "c \<in> set (to_base b n)"
  then obtain d where "d < b" "c = digit_char d" using set_to_base [OF assms(1)] by blast
  then show False using digit_char_range [of d] assms(2,3) by simp
qed

lemma no_digit_dec [simp]:
  "CHR '':'' \<notin> set (dec n)" "CHR ''.'' \<notin> set (dec n)"
  by (simp_all add: dec_def no_digit)

lemma no_digit_hexa [simp]: "CHR '':'' \<notin> set (hexa n)"
  by (simp add: hexa_def no_digit)

lemma dec_inject [simp]: "dec m = dec n \<longleftrightarrow> m = n"
  by (simp add: dec_def to_base_inject)

lemma hexa_inject [simp]: "hexa m = hexa n \<longleftrightarrow> m = n"
  by (simp add: hexa_def to_base_inject)

lemma to_base_nonempty [simp]: "to_base b n \<noteq> []"
  by (subst to_base.simps) simp

lemma dec_nonempty [simp]: "dec n \<noteq> []" and hexa_nonempty [simp]: "hexa n \<noteq> []"
  by (simp_all add: dec_def hexa_def)

section \<open>Cutting strings\<close>

text \<open>Two strings cut at the same character agree in both parts when it occurs in neither head.\<close>

lemma cut_inject:
  assumes "c \<notin> set as" and "c \<notin> set bs"
  shows "as @ c # xs = bs @ c # ys \<longleftrightarrow> as = bs \<and> xs = ys"
  using assms by (auto simp: append_eq_append_conv2 append_eq_Cons_conv Cons_eq_append_conv)

text \<open>What \<^verbatim>\<open>c_str\<close> hands to a C function, which stops at the first null character.\<close>

definition cstr :: "string \<Rightarrow> string" where
  "cstr s = takeWhile (\<lambda>c. c \<noteq> CHR 0x00) s"

lemma cstr_id: "CHR 0x00 \<notin> set s \<Longrightarrow> cstr s = s"
  by (auto simp: cstr_def takeWhile_eq_all_conv)

lemma cstr_append_null: "CHR 0x00 \<notin> set s \<Longrightarrow> cstr (s @ CHR 0x00 # t) = s"
  by (auto simp: cstr_def takeWhile_append takeWhile_eq_all_conv)

text \<open>The part before the first \<open>c\<close> and the part after it.\<close>

fun cut :: "char \<Rightarrow> string \<Rightarrow> (string \<times> string) option" where
  "cut c [] = None"
| "cut c (x # xs) = (if x = c then Some ([], xs) else map_option (apfst ((#) x)) (cut c xs))"

lemma cut_None: "cut c s = None \<longleftrightarrow> c \<notin> set s"
  by (induction c s rule: cut.induct) auto

lemma cut_append: "c \<notin> set as \<Longrightarrow> cut c (as @ c # bs) = Some (as, bs)"
  by (induction as) auto

lemma cut_Some: "cut c s = Some (as, bs) \<longleftrightarrow> s = as @ c # bs \<and> c \<notin> set as"
proof
  show "cut c s = Some (as, bs) \<Longrightarrow> s = as @ c # bs \<and> c \<notin> set as"
    by (induction c s arbitrary: as rule: cut.induct) (auto split: if_splits)
qed (auto simp: cut_append)

section \<open>Joining strings\<close>

fun join :: "string \<Rightarrow> string list \<Rightarrow> string" where
  "join sep [] = []"
| "join sep [x] = x"
| "join sep (x # y # ys) = x @ sep @ join sep (y # ys)"

lemma join_snoc: "join sep (xs @ [x]) = (if xs = [] then x else join sep xs @ sep @ x)"
  by (induction sep xs rule: join.induct) auto

section \<open>A position and what follows it\<close>

lemma drop_ConsD:
  assumes "drop n p = x # xs"
  shows "n < length p" and "p ! n = x" and "drop (Suc n) p = xs"
proof -
  show n: "n < length p" using assms by (cases "n < length p") auto
  show "p ! n = x" "drop (Suc n) p = xs"
    using Cons_nth_drop_Suc [OF n] assms by simp_all
qed

lemma drop_suffix: "drop n p = xs @ ys \<Longrightarrow> n \<le> length p \<Longrightarrow> drop (n + length xs) p = ys"
  by (metis add.commute append_eq_conv_conj drop_drop)

end
