(* ===== verification/Address.thy ===== *)
theory Address
  imports Endian Text
begin

text \<open>
  \<^verbatim>\<open>src/src/socket/address.{h,cpp}\<close>: socket addresses. The structures of the system are records of
  their fields as stored, so ports and IPv4 addresses are in network byte order, on a host of
  either byte order (\<open>endian\<close>). A pointer to a \<^verbatim>\<open>sockaddr\<close> is the memory readable there. A shared
  pointer that may be null is an option. \<^verbatim>\<open>getaddrinfo\<close>, \<^verbatim>\<open>getifaddrs\<close> and \<^verbatim>\<open>inet_pton\<close> are
  arguments.
\<close>

unbundle bit_operations_syntax

section \<open>Data\<close>

datatype addr_error =
    Undefined        \<comment> \<open>a shift by too much, a signed overflow, a missing return value\<close>
  | Out_of_bounds    \<comment> \<open>memory outside the object is read or written\<close>
  | Null_address
  | Path_too_long    \<comment> \<open>the exception \<open>std::logic_error\<close>\<close>

definition AF_UNSPEC :: u16 where "AF_UNSPEC = 0"
definition AF_UNIX :: u16 where "AF_UNIX = 1"
definition AF_INET :: u16 where "AF_INET = 2"
definition AF_INET6 :: u16 where "AF_INET6 = 10"

record sockaddr =
  sa_family :: u16
  sa_data :: "u8 list"

record sockaddr_in =
  sin_family :: u16
  sin_port :: u16
  sin_addr :: u32
  sin_zero :: "u8 list"

record sockaddr_in6 =
  sin6_family :: u16
  sin6_port :: u16
  sin6_flowinfo :: u32
  s6_addr :: "u8 list"
  sin6_scope_id :: u32

record sockaddr_un =
  sun_family :: u16
  sun_path :: string
  m_length :: u32

datatype address =
    IPv4 sockaddr_in
  | IPv6 sockaddr_in6
  | Unix sockaddr_un
  | Unknown sockaddr

text \<open>The structures in memory.\<close>

definition in_bytes :: "endian \<Rightarrow> sockaddr_in \<Rightarrow> u8 list" where
  "in_bytes h a = mem_bytes h (sin_family a) @ mem_bytes h (sin_port a) @ mem_bytes h (sin_addr a) @ sin_zero a"

definition in_of :: "endian \<Rightarrow> u8 list \<Rightarrow> sockaddr_in" where
  "in_of h bs = \<lparr>sin_family = mem_word h (take 2 bs), sin_port = mem_word h (take 2 (drop 2 bs)),
     sin_addr = mem_word h (take 4 (drop 4 bs)), sin_zero = take 8 (drop 8 bs)\<rparr>"

definition in6_bytes :: "endian \<Rightarrow> sockaddr_in6 \<Rightarrow> u8 list" where
  "in6_bytes h a = mem_bytes h (sin6_family a) @ mem_bytes h (sin6_port a) @ mem_bytes h (sin6_flowinfo a) @
     s6_addr a @ mem_bytes h (sin6_scope_id a)"

definition in6_of :: "endian \<Rightarrow> u8 list \<Rightarrow> sockaddr_in6" where
  "in6_of h bs = \<lparr>sin6_family = mem_word h (take 2 bs), sin6_port = mem_word h (take 2 (drop 2 bs)),
     sin6_flowinfo = mem_word h (take 4 (drop 4 bs)), s6_addr = take 16 (drop 8 bs),
     sin6_scope_id = mem_word h (take 4 (drop 24 bs))\<rparr>"

definition un_bytes :: "endian \<Rightarrow> sockaddr_un \<Rightarrow> u8 list" where
  "un_bytes h a = mem_bytes h (sun_family a) @ map of_char (sun_path a)"

definition sa_bytes :: "endian \<Rightarrow> sockaddr \<Rightarrow> u8 list" where
  "sa_bytes h a = mem_bytes h (sa_family a) @ sa_data a"

definition sa_of :: "endian \<Rightarrow> u8 list \<Rightarrow> sockaddr" where
  "sa_of h bs = \<lparr>sa_family = mem_word h (take 2 bs), sa_data = take 14 (drop 2 bs)\<rparr>"

text \<open>\<^verbatim>\<open>getAddr\<close>, \<^verbatim>\<open>getAddrLen\<close> and \<^verbatim>\<open>getFamily\<close>.\<close>

primrec getAddr :: "endian \<Rightarrow> address \<Rightarrow> u8 list" where
  "getAddr h (IPv4 a) = in_bytes h a"
| "getAddr h (IPv6 a) = in6_bytes h a"
| "getAddr h (Unix a) = un_bytes h a"
| "getAddr h (Unknown a) = sa_bytes h a"

primrec getAddrLen :: "address \<Rightarrow> nat" where
  "getAddrLen (IPv4 a) = 16"
| "getAddrLen (IPv6 a) = 28"
| "getAddrLen (Unix a) = unat (m_length a)"
| "getAddrLen (Unknown a) = 16"

definition getFamily :: "endian \<Rightarrow> address \<Rightarrow> u16" where
  "getFamily h a = mem_word h (take 2 (getAddr h a))"

definition is_ip :: "address \<Rightarrow> bool" where
  "is_ip a = (case a of IPv4 x \<Rightarrow> True | IPv6 x \<Rightarrow> True | Unix x \<Rightarrow> False | Unknown x \<Rightarrow> False)"

section \<open>Construction\<close>

text \<open>\<^verbatim>\<open>Address::Create\<close> looks at the family only, not at \<^verbatim>\<open>addrlen\<close>, and copies that structure.\<close>

definition Address_Create :: "endian \<Rightarrow> u8 list option \<Rightarrow> addr_error + address option" where
  "Address_Create h addr =
     (case addr of None \<Rightarrow> Inr None
      | Some mem \<Rightarrow>
          if length mem < 16 then Inl Out_of_bounds
          else let fam = sa_family (sa_of h mem)
          in if fam = AF_INET then Inr (Some (IPv4 (in_of h mem)))
             else if fam = AF_INET6
             then if length mem < 28 then Inl Out_of_bounds else Inr (Some (IPv6 (in6_of h mem)))
             else Inr (Some (Unknown (sa_of h mem))))"

definition IPv4Address :: "endian \<Rightarrow> u32 \<Rightarrow> u16 \<Rightarrow> sockaddr_in" where
  "IPv4Address h addr port =
     \<lparr>sin_family = AF_INET, sin_port = byteswapOnLittleEndian h port,
      sin_addr = byteswapOnLittleEndian h addr, sin_zero = replicate 8 0\<rparr>"

definition IPv6Address :: "endian \<Rightarrow> u8 list \<Rightarrow> u16 \<Rightarrow> sockaddr_in6" where
  "IPv6Address h addr port =
     \<lparr>sin6_family = AF_INET6, sin6_port = byteswapOnLittleEndian h port, sin6_flowinfo = 0,
      s6_addr = addr, sin6_scope_id = 0\<rparr>"

definition IPv6Address_default :: sockaddr_in6 where
  "IPv6Address_default =
     \<lparr>sin6_family = AF_INET6, sin6_port = 0, sin6_flowinfo = 0, s6_addr = replicate 16 0, sin6_scope_id = 0\<rparr>"

text \<open>\<^verbatim>\<open>inet_pton\<close> gives the address as stored, or fails.\<close>

definition IPv4Address_Create :: "endian \<Rightarrow> (string \<Rightarrow> u32 option) \<Rightarrow> string \<Rightarrow> u16 \<Rightarrow> sockaddr_in option" where
  "IPv4Address_Create h inet_pton addr port =
     map_option (\<lambda>a. (IPv4Address h 0 0)\<lparr>sin_port := byteswapOnLittleEndian h port, sin_addr := a\<rparr>)
       (inet_pton (cstr addr))"

definition IPv6Address_Create :: "endian \<Rightarrow> (string \<Rightarrow> u8 list option) \<Rightarrow> string \<Rightarrow> u16 \<Rightarrow> sockaddr_in6 option" where
  "IPv6Address_Create h inet_pton addr port =
     map_option (\<lambda>a. IPv6Address_default\<lparr>sin6_port := byteswapOnLittleEndian h port, s6_addr := a\<rparr>)
       (inet_pton (cstr addr))"

primrec getPort :: "endian \<Rightarrow> address \<Rightarrow> u32" where
  "getPort h (IPv4 a) = ucast (byteswapOnLittleEndian h (sin_port a))"
| "getPort h (IPv6 a) = ucast (byteswapOnLittleEndian h (sin6_port a))"
| "getPort h (Unix a) = 0"
| "getPort h (Unknown a) = 0"

primrec setPort :: "endian \<Rightarrow> u16 \<Rightarrow> address \<Rightarrow> address" where
  "setPort h v (IPv4 a) = IPv4 (a\<lparr>sin_port := byteswapOnLittleEndian h v\<rparr>)"
| "setPort h v (IPv6 a) = IPv6 (a\<lparr>sin6_port := byteswapOnLittleEndian h v\<rparr>)"
| "setPort h v (Unix a) = Unix a"
| "setPort h v (Unknown a) = Unknown a"

text \<open>\<^verbatim>\<open>IPAddress::Create\<close>: the first answer for a numeric host.\<close>

definition IPAddress_Create ::
  "endian \<Rightarrow> (string \<Rightarrow> u8 list list option) \<Rightarrow> string \<Rightarrow> u16 \<Rightarrow> addr_error + address option" where
  "IPAddress_Create h numeric addr port =
     (case numeric (cstr addr) of
        None \<Rightarrow> Inr None
      | Some [] \<Rightarrow> Inl Null_address
      | Some (a # as) \<Rightarrow> rbind (Address_Create h (Some a)) (\<lambda>r.
          Inr (case r of Some x \<Rightarrow> if is_ip x then Some (setPort h port x) else None | None \<Rightarrow> None)))"

section \<open>Prefixes\<close>

text \<open>
  \<^verbatim>\<open>CreateMask<T>(bits)\<close> for a \<^verbatim>\<open>T\<close> of \<open>w\<close> bits: \<^verbatim>\<open>1\<close> is an \<^verbatim>\<open>int\<close> and the shift count a \<^verbatim>\<open>size_t\<close>. From a
  count of 32 on the shift is undefined, and for 31 subtracting one overflows.
\<close>

definition CreateMask :: "nat \<Rightarrow> nat \<Rightarrow> addr_error + u32" where
  "CreateMask w bits =
     (let k = usub w bits in if k < 31 then Inr (push_bit k 1 - 1) else Inl Undefined)"

function CountBytes_loop :: "'a::len word \<Rightarrow> nat \<Rightarrow> nat" where
  "CountBytes_loop value result =
     (if value = 0 then result else CountBytes_loop (value AND (value - 1)) (Suc result))"
  by auto
termination
proof (relation "measure (\<lambda>(v, r). unat v)")
  fix v :: "'a::len word" and r :: nat
  assume "v \<noteq> 0"
  then have "v - 1 < v" by (simp add: word_less_nat_alt unat_minus_one unat_gt_0)
  then have "v AND (v - 1) < v" by (meson le_less_trans word_and_le1)
  then show "((v AND (v - 1), Suc r), (v, r)) \<in> measure (\<lambda>(v, r). unat v)"
    by (simp add: word_less_nat_alt)
qed simp

declare CountBytes_loop.simps [simp del]

definition CountBytes :: "'a::len word \<Rightarrow> nat" where
  "CountBytes value = CountBytes_loop value 0"

definition ipv4_broadcastAddress :: "endian \<Rightarrow> u32 \<Rightarrow> sockaddr_in \<Rightarrow> addr_error + sockaddr_in option" where
  "ipv4_broadcastAddress h prefix_len a =
     (if 32 < prefix_len then Inr None
      else rbind (CreateMask 32 (unat prefix_len)) (\<lambda>m.
           Inr (Some (a\<lparr>sin_addr := sin_addr a OR byteswapOnLittleEndian h m\<rparr>))))"

definition ipv4_networkAddress :: "endian \<Rightarrow> u32 \<Rightarrow> sockaddr_in \<Rightarrow> addr_error + sockaddr_in option" where
  "ipv4_networkAddress h prefix_len a =
     (if 32 < prefix_len then Inr None
      else rbind (CreateMask 32 (unat prefix_len)) (\<lambda>m.
           Inr (Some (a\<lparr>sin_addr := sin_addr a AND byteswapOnLittleEndian h m\<rparr>))))"

definition ipv4_subnetMask :: "endian \<Rightarrow> u32 \<Rightarrow> addr_error + sockaddr_in" where
  "ipv4_subnetMask h prefix_len =
     rbind (CreateMask 32 (unat prefix_len)) (\<lambda>m.
       Inr \<lparr>sin_family = AF_INET, sin_port = 0, sin_addr = NOT (byteswapOnLittleEndian h m),
            sin_zero = replicate 8 0\<rparr>)"

text \<open>The byte-wise versions. \<open>set_bytes\<close> is the loop that stores \<open>v\<close> at the indices of a range.\<close>

definition set_bytes :: "nat list \<Rightarrow> u8 \<Rightarrow> u8 list \<Rightarrow> u8 list" where
  "set_bytes is v bs = foldl (\<lambda>b i. b[i := v]) bs is"

definition ipv6_broadcastAddress :: "endian \<Rightarrow> u32 \<Rightarrow> sockaddr_in6 \<Rightarrow> addr_error + sockaddr_in6 option" where
  "ipv6_broadcastAddress h prefix_len a =
     (let p = unat prefix_len; i = p div 8; bs = s6_addr a
      in if 16 \<le> i then Inl Out_of_bounds
         else rbind (CreateMask 8 (p mod 8)) (\<lambda>m.
              Inr (Some (a\<lparr>s6_addr := set_bytes [i + 1..<16] 0xff (bs[i := bs ! i OR ucast m])\<rparr>))))"

definition ipv6_networkAddress :: "endian \<Rightarrow> u32 \<Rightarrow> sockaddr_in6 \<Rightarrow> addr_error + sockaddr_in6 option" where
  "ipv6_networkAddress h prefix_len a =
     (let p = unat prefix_len; i = p div 8; bs = s6_addr a
      in if 32 < prefix_len then Inr None
         else rbind (CreateMask 8 (p mod 8)) (\<lambda>m.
              Inr (Some (a\<lparr>s6_addr := set_bytes [i + 1..<16] 0 (bs[i := bs ! i AND ucast m])\<rparr>))))"

definition ipv6_subnetMask :: "endian \<Rightarrow> u32 \<Rightarrow> addr_error + sockaddr_in6" where
  "ipv6_subnetMask h prefix_len =
     (let p = unat prefix_len; i = p div 8
      in if 16 \<le> i then Inl Out_of_bounds
         else rbind (CreateMask 8 (p mod 8)) (\<lambda>m.
              Inr (IPv6Address_default\<lparr>s6_addr := set_bytes [0..<i] 0xff ((replicate 16 0)[i := NOT (ucast m)])\<rparr>)))"

end
