(* ===== verification/Address_Text.thy ===== *)
theory Address_Text
  imports Address
begin

text \<open>
  The rest of \<^verbatim>\<open>src/src/socket/address.cpp\<close>: Unix-domain paths, printing, comparison, and finding
  addresses by name or by interface.
\<close>

unbundle bit_operations_syntax

section \<open>Unix-domain addresses\<close>

text \<open>\<^verbatim>\<open>sun_path\<close> has 108 bytes at offset 2.\<close>

definition UnixAddress_default :: sockaddr_un where
  "UnixAddress_default = \<lparr>sun_family = AF_UNIX, sun_path = replicate 108 (CHR 0x00), m_length = 2 + 107\<rparr>"

definition UnixAddress :: "string \<Rightarrow> addr_error + sockaddr_un" where
  "UnixAddress path =
     (let len = (of_nat (length path) + 1 :: u32);
          len1 = (if path \<noteq> [] \<and> hd path = CHR 0x00 then len - 1 else len)
      in if 108 < len1 then Inl Path_too_long
         else Inr \<lparr>sun_family = AF_UNIX,
                   sun_path = overwrite 0 (take (unat len1) (path @ [CHR 0x00])) (replicate 108 (CHR 0x00)),
                   m_length = len1 + 2\<rparr>)"

definition setAddrLen :: "u32 \<Rightarrow> sockaddr_un \<Rightarrow> sockaddr_un" where
  "setAddrLen v a = a\<lparr>m_length := v\<rparr>"

text \<open>
  An abstract path, which starts with a null character, is shown with a backslash and a zero for it and all the
  characters the length counts; reading more than the structure holds is out of bounds. A path
  that fills \<^verbatim>\<open>sun_path\<close> has no terminator.
\<close>

definition getPath :: "sockaddr_un \<Rightarrow> addr_error + string" where
  "getPath a =
     (if 2 < m_length a \<and> hd (sun_path a) = CHR 0x00
      then if 110 < m_length a then Inl Out_of_bounds
           else Inr (CHR 0x5C # CHR ''0'' # take (unat (m_length a) - 3) (tl (sun_path a)))
      else if CHR 0x00 \<in> set (sun_path a) then Inr (cstr (sun_path a)) else Inl Out_of_bounds)"

section \<open>Printing\<close>

definition ipv4_print :: "endian \<Rightarrow> sockaddr_in \<Rightarrow> string" where
  "ipv4_print h a =
     (let addr = byteswapOnLittleEndian h (sin_addr a)
      in dec (unat (drop_bit 24 addr AND 0xff)) @ ''.'' @ dec (unat (drop_bit 16 addr AND 0xff)) @ ''.'' @
         dec (unat (drop_bit 8 addr AND 0xff)) @ ''.'' @ dec (unat (addr AND 0xff)) @ '':'' @
         dec (unat (byteswapOnLittleEndian h (sin_port a))))"

text \<open>The address read as eight 16-bit integers, and one turn of the loop over them.\<close>

definition groups :: "endian \<Rightarrow> u8 list \<Rightarrow> u16 list" where
  "groups h bs = map (\<lambda>i. mem_word h (take 2 (drop (2 * i) bs))) [0..<8]"

definition print_group :: "endian \<Rightarrow> u16 list \<Rightarrow> string \<times> bool \<Rightarrow> nat \<Rightarrow> string \<times> bool" where
  "print_group h addr st i =
     (let (os, used_zeros) = st
      in if addr ! i = 0 \<and> \<not> used_zeros then (os, used_zeros)
         else let (os1, used1) = (if i \<noteq> 0 \<and> addr ! (i - 1) = 0 \<and> \<not> used_zeros
                                  then (os @ '':'', True) else (os, used_zeros));
                  os2 = (if i \<noteq> 0 then os1 @ '':'' else os1)
              in (os2 @ hexa (unat (byteswapOnLittleEndian h (addr ! i))), used1))"

definition print_groups :: "endian \<Rightarrow> u16 list \<Rightarrow> string" where
  "print_groups h addr =
     (let (os, used_zeros) = foldl (print_group h addr) ('''', False) [0..<8]
      in if \<not> used_zeros \<and> addr ! 7 = 0 then os @ ''::'' else os)"

definition ipv6_print :: "endian \<Rightarrow> sockaddr_in6 \<Rightarrow> string" where
  "ipv6_print h a =
     ''['' @ print_groups h (groups h (s6_addr a)) @ '']:'' @
     dec (unat (byteswapOnLittleEndian h (sin6_port a)))"

primrec Address_toString :: "endian \<Rightarrow> address \<Rightarrow> addr_error + string" where
  "Address_toString h (IPv4 a) = Inr (ipv4_print h a)"
| "Address_toString h (IPv6 a) = Inr (ipv6_print h a)"
| "Address_toString h (Unix a) = getPath a"
| "Address_toString h (Unknown a) = Inr (''[UnknownAddress family='' @ dec (unat (sa_family a)) @ '']'')"

section \<open>Comparison\<close>

fun memcmp :: "u8 list \<Rightarrow> u8 list \<Rightarrow> int" where
  "memcmp (x # xs) (y # ys) = (if x < y then -1 else if y < x then 1 else memcmp xs ys)"
| "memcmp xs ys = 0"

text \<open>The bytes both operators look at; a length beyond the object is out of bounds.\<close>

definition readable :: "endian \<Rightarrow> address \<Rightarrow> nat \<Rightarrow> bool" where
  "readable h a n \<longleftrightarrow> n \<le> length (getAddr h a)"

definition addr_less :: "endian \<Rightarrow> address \<Rightarrow> address \<Rightarrow> addr_error + bool" where
  "addr_less h a b =
     (let mn = min (getAddrLen a) (getAddrLen b)
      in if \<not> readable h a mn \<or> \<not> readable h b mn then Inl Out_of_bounds
         else let result = memcmp (take mn (getAddr h a)) (take mn (getAddr h b))
              in Inr (if result < 0 then True else if 0 < result then False
                      else getAddrLen a < getAddrLen b))"

definition addr_equal :: "endian \<Rightarrow> address \<Rightarrow> address \<Rightarrow> addr_error + bool" where
  "addr_equal h a b =
     (if getAddrLen a \<noteq> getAddrLen b then Inr False
      else if \<not> readable h a (getAddrLen a) \<or> \<not> readable h b (getAddrLen a) then Inl Out_of_bounds
      else Inr (memcmp (take (getAddrLen a) (getAddr h a)) (take (getAddrLen a) (getAddr h b)) = 0))"

section \<open>Lookup\<close>

text \<open>
  How \<^verbatim>\<open>Lookup\<close> takes a host apart: the node and the service passed to \<^verbatim>\<open>getaddrinfo\<close>, as C strings.
  \<^verbatim>\<open>memchr\<close> searches the whole string, null characters included.
\<close>

definition split_host :: "string \<Rightarrow> string \<times> string option" where
  "split_host host =
     (let (node1, service1) =
            (case host of [] \<Rightarrow> ('''', None)
             | c # rest \<Rightarrow>
                 if c = CHR ''['' then
                   (case cut (CHR '']'') rest of None \<Rightarrow> ('''', None)
                    | Some (inner, after) \<Rightarrow>
                        (inner, if after \<noteq> [] \<and> hd after = CHR '':'' then Some (tl after) else None))
                 else ('''', None));
          (node2, service2) =
            (if node1 = '''' then
               (case cut (CHR '':'') host of None \<Rightarrow> ('''', None)
                | Some (before, after) \<Rightarrow> (before, Some after))
             else (node1, service1));
          node3 = (if node2 = '''' then host else node2)
      in (cstr node3, map_option cstr service2))"

text \<open>
  \<^verbatim>\<open>getaddrinfo\<close> gives the memory of the addresses found, or fails. The addresses are appended to
  the caller's vector.
\<close>

primrec create_all :: "endian \<Rightarrow> u8 list list \<Rightarrow> address option list \<Rightarrow> addr_error + address option list" where
  "create_all h [] result = Inr result"
| "create_all h (a # as) result =
     rbind (Address_Create h (Some a)) (\<lambda>r. create_all h as (result @ [r]))"

type_synonym resolver = "string \<Rightarrow> string option \<Rightarrow> u8 list list option"

definition Lookup ::
  "endian \<Rightarrow> resolver \<Rightarrow> string \<Rightarrow> address option list \<Rightarrow> addr_error + bool \<times> address option list" where
  "Lookup h getaddrinfo host result =
     (let (node, service) = split_host host
      in case getaddrinfo node service of
           None \<Rightarrow> Inr (False, result)
         | Some found \<Rightarrow> rbind (create_all h found result) (\<lambda>r. Inr (True, r)))"

definition LookupAny :: "endian \<Rightarrow> resolver \<Rightarrow> string \<Rightarrow> addr_error + address option" where
  "LookupAny h getaddrinfo host =
     rbind (Lookup h getaddrinfo host []) (\<lambda>(ok, result).
       if ok then (case result of [] \<Rightarrow> Inl Out_of_bounds | r # rs \<Rightarrow> Inr r) else Inr None)"

text \<open>Without an IP address among the results the function ends without a return value.\<close>

definition LookupAnyIPAddress :: "endian \<Rightarrow> resolver \<Rightarrow> string \<Rightarrow> addr_error + address" where
  "LookupAnyIPAddress h getaddrinfo host =
     rbind (Lookup h getaddrinfo host []) (\<lambda>(ok, results).
       case (if ok then filter (\<lambda>r. case r of None \<Rightarrow> False | Some a \<Rightarrow> is_ip a) results else []) of
         Some a # rs \<Rightarrow> Inr a
       | rs \<Rightarrow> Inl Undefined)"

section \<open>Interfaces\<close>

text \<open>The multimap of the results keeps equal names in the order of insertion.\<close>

record ifaddr =
  ifa_name :: string
  ifa_addr :: "u8 list option"
  ifa_netmask :: "u8 list option"

type_synonym interfaces = "(string \<times> address \<times> u32) list"

definition prefix_len4 :: "endian \<Rightarrow> u8 list option \<Rightarrow> addr_error + u32" where
  "prefix_len4 h netmask =
     (case netmask of None \<Rightarrow> Inl Null_address
      | Some m \<Rightarrow> Inr (of_nat (CountBytes (sin_addr (in_of h m)))))"

definition prefix_len6 :: "endian \<Rightarrow> u8 list option \<Rightarrow> addr_error + u32" where
  "prefix_len6 h netmask =
     (case netmask of None \<Rightarrow> Inl Null_address
      | Some m \<Rightarrow> Inr (foldl (\<lambda>p i. p + of_nat (CountBytes (s6_addr (in6_of h m) ! i))) 0 [0..<16]))"

definition add_interface :: "endian \<Rightarrow> u16 \<Rightarrow> ifaddr \<Rightarrow> interfaces \<Rightarrow> addr_error + interfaces" where
  "add_interface h family it result =
     (case ifa_addr it of None \<Rightarrow> Inl Null_address
      | Some mem \<Rightarrow>
          let fam = sa_family (sa_of h mem)
          in if family \<noteq> AF_UNSPEC \<and> family \<noteq> fam then Inr result
             else if fam \<noteq> AF_INET \<and> fam \<noteq> AF_INET6 then Inr result
             else rbind (Address_Create h (Some mem)) (\<lambda>a.
                  rbind (if fam = AF_INET then prefix_len4 h (ifa_netmask it)
                         else prefix_len6 h (ifa_netmask it)) (\<lambda>p.
                  Inr (case a of None \<Rightarrow> result | Some x \<Rightarrow> result @ [(ifa_name it, x, p)]))))"

primrec add_interfaces :: "endian \<Rightarrow> u16 \<Rightarrow> ifaddr list \<Rightarrow> interfaces \<Rightarrow> addr_error + interfaces" where
  "add_interfaces h family [] result = Inr result"
| "add_interfaces h family (it # its) result =
     rbind (add_interface h family it result) (add_interfaces h family its)"

definition GetInterfaceAddresses ::
  "endian \<Rightarrow> ifaddr list option \<Rightarrow> u16 \<Rightarrow> interfaces \<Rightarrow> addr_error + bool \<times> interfaces" where
  "GetInterfaceAddresses h ifaddrs family result =
     (case ifaddrs of None \<Rightarrow> Inr (False, result)
      | Some its \<Rightarrow> rbind (add_interfaces h family its result) (\<lambda>r. Inr (True, r)))"

definition GetInterfaceByName ::
  "endian \<Rightarrow> ifaddr list option \<Rightarrow> string \<Rightarrow> u16 \<Rightarrow> (address \<times> u32) list \<Rightarrow>
    addr_error + bool \<times> (address \<times> u32) list" where
  "GetInterfaceByName h ifaddrs iface family result =
     (if iface = '''' \<or> iface = ''*'' then
        let r1 = (if family = AF_INET \<or> family = AF_UNSPEC then result @ [(IPv4 (IPv4Address h 0 0), 0)] else result);
            r2 = (if family = AF_INET6 \<or> family = AF_UNSPEC then r1 @ [(IPv6 IPv6Address_default, 0)] else r1)
        in Inr (True, r2)
      else rbind (GetInterfaceAddresses h ifaddrs family []) (\<lambda>(ok, found).
           if \<not> ok then Inr (False, result)
           else Inr (True, result @ map snd (filter (\<lambda>e. fst e = iface) found))))"

end
