(* ===== verification/Address_Properties.thy ===== *)
theory Address_Properties
  imports Address_Text
begin

text \<open>
  The properties of the addresses: the arithmetic of prefixes, the text of addresses, the order
  on them, and how hosts are taken apart.
\<close>

unbundle bit_operations_syntax

section \<open>Masks and counted bits\<close>

lemma CreateMask_ok:
  assumes "bits \<le> w" and "w - bits < 31"
  obtains m where "CreateMask w bits = Inr m" and "\<And>i. bit m i \<longleftrightarrow> i < w - bits"
proof
  show "CreateMask w bits = Inr (mask (w - bits))"
    using assms by (simp add: CreateMask_def Let_def mask_eq_exp_minus_1 push_bit_eq_mult)
  show "bit (mask (w - bits) :: u32) i \<longleftrightarrow> i < w - bits" for i
    using assms by (auto simp: bit_simps)
qed

lemma CreateMask_undefined: "w - bits \<ge> 31 \<or> w < bits \<and> bits < 2 ^ 63 \<Longrightarrow> CreateMask w bits = Inl Undefined"
  by (auto simp: CreateMask_def Let_def usub_def)

text \<open>Subtracting one clears the lowest bit that is set and sets those below it.\<close>

lemma clear_lowest:
  fixes v :: "'a::len word"
  assumes k: "bit v k" and low: "\<And>j. j < k \<Longrightarrow> \<not> bit v j"
  shows "v AND (v - 1) = v AND NOT (push_bit k 1)"
proof -
  have kl: "k < LENGTH('a)" using k by (rule bit_imp_le_length)
  let ?u = "v AND NOT (push_bit k 1)"
  have disj: "?u AND mask k = 0"
    by (rule bit_word_eqI) (use low in \<open>auto simp: bit_simps\<close>)
  have "?u AND push_bit k 1 = 0" by (rule bit_word_eqI) (auto simp: bit_simps)
  then have "?u + push_bit k 1 = ?u OR push_bit k 1" by (simp add: disjunctive_add_eq_or)
  also have "\<dots> = v" by (rule bit_word_eqI) (use k kl in \<open>auto simp: bit_simps\<close>)
  finally have "v - 1 = ?u + mask k"
    by (metis add_diff_eq mask_eq_exp_minus_1 mult.left_neutral push_bit_eq_mult)
  also have "\<dots> = ?u OR mask k" using disj by (simp add: disjunctive_add_eq_or)
  finally show ?thesis
    by (intro bit_word_eqI) (use low in \<open>auto simp: bit_simps\<close>)
qed

definition bits_of :: "'a::len word \<Rightarrow> nat set" where
  "bits_of w = {n. bit w n}"

lemma finite_bits_of [simp]: "finite (bits_of (w :: 'a::len word))"
  by (rule finite_subset [of _ "{..<LENGTH('a)}"]) (auto simp: bits_of_def dest: bit_imp_le_length)

lemma CountBytes_loop_card: "CountBytes_loop v r = r + card (bits_of v)"
proof (induction v r rule: CountBytes_loop.induct)
  case (1 v r)
  show ?case
  proof (cases "v = 0")
    case True
    then show ?thesis by (simp add: CountBytes_loop.simps bits_of_def)
  next
    case False
    then have "bits_of v \<noteq> {}" using bit_word_eqI [of v 0] by (auto simp: bits_of_def)
    then obtain k where k: "bit v k" "\<And>j. j < k \<Longrightarrow> \<not> bit v j"
      using exists_least_iff [of "bit v"] by (auto simp: bits_of_def)
    have "bits_of (v AND (v - 1)) = bits_of v - {k}"
      using k(1) by (subst clear_lowest [OF k]) (auto simp: bits_of_def bit_simps dest: bit_imp_le_length)
    moreover have "card (bits_of v) = Suc (card (bits_of v - {k}))"
      using k(1) by (intro card.remove) (simp_all add: bits_of_def)
    ultimately show ?thesis
      using False 1 by (subst CountBytes_loop.simps) simp
  qed
qed

lemma card_bits_of_byteswap:
  assumes "8 dvd LENGTH('a)"
  shows "card (bits_of (byteswap w :: 'a::len word)) = card (bits_of w)"
proof -
  let ?r = "\<lambda>n. LENGTH('a) - 8 - 8 * (n div 8) + n mod 8"
  obtain m where m: "LENGTH('a) = 8 * m" using assms by (auto elim!: dvdE)
  have r: "?r n < LENGTH('a) \<and> ?r (?r n) = n" if n: "n < LENGTH('a)" for n
  proof -
    obtain a b where "n = 8 * a + b" "b < 8" by (metis mod_less_divisor mult_div_mod_eq zero_less_numeral)
    moreover from this have "a < m" using n m by linarith
    ultimately show ?thesis
      using m by (simp add: diff_mult_distrib2 [symmetric] flip: mult_Suc_right)
  qed
  have "bij_betw ?r (bits_of (byteswap w :: 'a word)) (bits_of w)"
  proof (rule bij_betw_byWitness [where f'="?r"])
    show "?r ` bits_of (byteswap w :: 'a word) \<subseteq> bits_of w"
    proof
      fix x assume "x \<in> ?r ` bits_of (byteswap w :: 'a word)"
      then obtain n where n: "bit (byteswap w :: 'a word) n" "x = ?r n" by (auto simp: bits_of_def)
      have "n < LENGTH('a)" using n(1) by (rule bit_imp_le_length)
      then show "x \<in> bits_of w"
        using n bit_byteswap [OF assms, of n w] by (simp add: bits_of_def)
    qed
    show "?r ` bits_of w \<subseteq> bits_of (byteswap w :: 'a word)"
    proof
      fix x assume "x \<in> ?r ` bits_of w"
      then obtain n where n: "bit w n" "x = ?r n" by (auto simp: bits_of_def)
      have "n < LENGTH('a)" using n(1) by (rule bit_imp_le_length)
      then show "x \<in> bits_of (byteswap w :: 'a word)"
        using r [of n] n bit_byteswap [OF assms, of x w] by (simp add: bits_of_def)
    qed
  qed (use r in \<open>auto simp: bits_of_def dest!: bit_imp_le_length\<close>)
  then show ?thesis by (rule bij_betw_same_card)
qed

text \<open>The bits of an IPv4 address in host order.\<close>

definition ipv4_value :: "endian \<Rightarrow> sockaddr_in \<Rightarrow> u32" where
  "ipv4_value h a = byteswapOnLittleEndian h (sin_addr a)"

lemma swap32 [simp]:
  "byteswapOnLittleEndian h (a OR byteswapOnLittleEndian h m) = byteswapOnLittleEndian h a OR (m :: u32)"
  "byteswapOnLittleEndian h (a AND byteswapOnLittleEndian h m) = byteswapOnLittleEndian h a AND (m :: u32)"
  "byteswapOnLittleEndian h (NOT (byteswapOnLittleEndian h m)) = NOT (m :: u32)"
  by (cases h; simp add: byteswapOnLittleEndian_def byteswapOnLittleEndian_bitwise byteswap_byteswap)+

section \<open>Prefixes\<close>

lemma ipv4_prefix_ok:
  fixes p :: u32
  assumes "2 \<le> p \<and> p \<le> 32"
  shows "\<exists>b n m. ipv4_broadcastAddress h p a = Inr (Some b) \<and> ipv4_networkAddress h p a = Inr (Some n) \<and>
      ipv4_subnetMask h p = Inr m \<and> sin_port b = sin_port a \<and> sin_port n = sin_port a \<and>
      (\<forall>i < 32. bit (ipv4_value h b) i = (bit (ipv4_value h a) i \<or> i < 32 - unat p)) \<and>
      (\<forall>i < 32. bit (ipv4_value h n) i = (bit (ipv4_value h a) i \<and> i < 32 - unat p)) \<and>
      (\<forall>i < 32. bit (ipv4_value h m) i = (32 - unat p \<le> i))"
proof -
  have p: "2 \<le> unat p" "unat p \<le> 32" "\<not> 32 < p"
    using assms by (simp_all add: word_less_nat_alt word_le_nat_alt)
  then have "32 - unat p < 31" by simp
  then obtain m where m: "CreateMask 32 (unat p) = Inr m" "\<And>i. bit m i \<longleftrightarrow> i < 32 - unat p"
    using CreateMask_ok [of "unat p" 32] p(2) by metis
  show ?thesis
    using p(3)
    by (simp add: ipv4_broadcastAddress_def ipv4_networkAddress_def ipv4_subnetMask_def m ipv4_value_def
        bit_simps not_less)
qed

text \<open>The prefixes of an IPv4 address. From two bits on, the broadcast address sets exactly the
  host bits and the mask is exactly the prefix; but the network address keeps the host bits and
  clears the prefix, the reverse of what the name says. For prefixes of zero and one bits the
  three functions are undefined, and more than 32 bits are refused except for the mask.\<close>

theorem ipv4_prefixes:
  fixes p :: u32 and a :: sockaddr_in
  shows "(p < 2 \<longrightarrow> ipv4_broadcastAddress h p a = Inl Undefined \<and>
            ipv4_networkAddress h p a = Inl Undefined \<and> ipv4_subnetMask h p = Inl Undefined) \<and>
         (2 \<le> p \<and> p \<le> 32 \<longrightarrow> (\<exists>b n m.
            ipv4_broadcastAddress h p a = Inr (Some b) \<and> ipv4_networkAddress h p a = Inr (Some n) \<and>
            ipv4_subnetMask h p = Inr m \<and> sin_port b = sin_port a \<and> sin_port n = sin_port a \<and>
            (\<forall>i < 32. bit (ipv4_value h b) i = (bit (ipv4_value h a) i \<or> i < 32 - unat p)) \<and>
            (\<forall>i < 32. bit (ipv4_value h n) i = (bit (ipv4_value h a) i \<and> i < 32 - unat p)) \<and>
            (\<forall>i < 32. bit (ipv4_value h m) i = (32 - unat p \<le> i)))) \<and>
         (32 < p \<longrightarrow> ipv4_broadcastAddress h p a = Inr None \<and> ipv4_networkAddress h p a = Inr None \<and>
            ipv4_subnetMask h p = Inl Undefined)"
proof (intro conjI impI)
  assume "p < 2"
  then have "unat p < 2" by (simp add: word_less_nat_alt)
  then have u: "CreateMask 32 (unat p) = Inl Undefined" by (intro CreateMask_undefined) simp
  have "\<not> 32 < p" using \<open>p < 2\<close> by (simp add: word_less_nat_alt)
  then show "ipv4_broadcastAddress h p a = Inl Undefined" "ipv4_networkAddress h p a = Inl Undefined"
      "ipv4_subnetMask h p = Inl Undefined"
    by (simp_all add: ipv4_broadcastAddress_def ipv4_networkAddress_def ipv4_subnetMask_def u)
next
  assume "2 \<le> p \<and> p \<le> 32"
  from ipv4_prefix_ok [OF this] show "\<exists>b n m. ipv4_broadcastAddress h p a = Inr (Some b) \<and>
      ipv4_networkAddress h p a = Inr (Some n) \<and>
      ipv4_subnetMask h p = Inr m \<and> sin_port b = sin_port a \<and> sin_port n = sin_port a \<and>
      (\<forall>i < 32. bit (ipv4_value h b) i = (bit (ipv4_value h a) i \<or> i < 32 - unat p)) \<and>
      (\<forall>i < 32. bit (ipv4_value h n) i = (bit (ipv4_value h a) i \<and> i < 32 - unat p)) \<and>
      (\<forall>i < 32. bit (ipv4_value h m) i = (32 - unat p \<le> i))" .
next
  assume "32 < p"
  moreover have "unat p < 2 ^ 63" using unsigned_less [of p, where 'a=nat] by simp
  ultimately show "ipv4_broadcastAddress h p a = Inr None" "ipv4_networkAddress h p a = Inr None"
      "ipv4_subnetMask h p = Inl Undefined"
    by (simp_all add: ipv4_broadcastAddress_def ipv4_networkAddress_def ipv4_subnetMask_def
        CreateMask_undefined word_less_nat_alt)
qed

theorem ipv4_prefixes_witness:
  "\<exists>n. ipv4_networkAddress SYLAR_LITTLE_ENDIAN 24 (IPv4Address SYLAR_LITTLE_ENDIAN 0xC0A80105 80) = Inr (Some n) \<and>
     \<not> bit (ipv4_value SYLAR_LITTLE_ENDIAN n) 31 \<and> bit (ipv4_value SYLAR_LITTLE_ENDIAN n) 0"
proof -
  have v: "ipv4_value SYLAR_LITTLE_ENDIAN (IPv4Address SYLAR_LITTLE_ENDIAN 0xC0A80105 80) = 0xC0A80105"
    by (simp add: ipv4_value_def IPv4Address_def byteswapOnLittleEndian_twice)
  have "bit (0xC0A80105 :: u32) 0" by simp
  then show ?thesis
    using ipv4_prefixes [of 24 SYLAR_LITTLE_ENDIAN "IPv4Address SYLAR_LITTLE_ENDIAN 0xC0A80105 80"]
    unfolding v by (auto simp: word_le_nat_alt)
qed

text \<open>\<^verbatim>\<open>CountBytes\<close>, by which the interfaces' netmasks become prefix lengths, counts the bits that
  are set, in either byte order; on the mask of an IPv4 prefix it gives the prefix back.\<close>

theorem CountBytes_prefix:
  "CountBytes v = card (bits_of v) \<and>
   (2 \<le> p \<and> p \<le> 32 \<longrightarrow> (\<exists>m. ipv4_subnetMask h p = Inr m \<and> CountBytes (sin_addr m) = unat p))"
proof (intro conjI impI)
  show "CountBytes v = card (bits_of v)"
    by (simp add: CountBytes_def CountBytes_loop_card)
  assume p: "2 \<le> p \<and> p \<le> 32"
  obtain m where m: "ipv4_subnetMask h p = Inr m"
      "\<And>i. i < 32 \<Longrightarrow> bit (ipv4_value h m) i = (32 - unat p \<le> i)"
    using ipv4_prefix_ok [OF p, of h undefined] by blast
  have "bits_of (ipv4_value h m) = {32 - unat p..<32}"
  proof -
    have "bit (ipv4_value h m) i \<longleftrightarrow> 32 - unat p \<le> i \<and> i < 32" for i
    proof (cases "i < 32")
      case True
      then show ?thesis by (simp only: m(2)) simp
    next
      case False
      then have "\<not> bit (ipv4_value h m) i" using bit_imp_le_length by fastforce
      with False show ?thesis by blast
    qed
    then have "bits_of (ipv4_value h m) = {i. 32 - unat p \<le> i \<and> i < 32}" by (simp add: bits_of_def)
    then show ?thesis by (simp only: atLeastLessThan_def atLeast_def lessThan_def Int_def mem_Collect_eq)
  qed
  then have "card (bits_of (ipv4_value h m)) = unat p"
    using p by (simp add: word_le_nat_alt)
  moreover have "card (bits_of (ipv4_value h m)) = card (bits_of (sin_addr m))"
    by (cases h) (simp_all add: ipv4_value_def byteswapOnLittleEndian_def card_bits_of_byteswap)
  ultimately show "\<exists>m. ipv4_subnetMask h p = Inr m \<and> CountBytes (sin_addr m) = unat p"
    using m(1) by (simp add: CountBytes_def CountBytes_loop_card)
qed

theorem CountBytes_prefix_witness:
  "\<exists>m. ipv4_subnetMask SYLAR_LITTLE_ENDIAN 24 = Inr m \<and> CountBytes (sin_addr m) = 24"
  using CountBytes_prefix [of "0 :: u8" 24 SYLAR_LITTLE_ENDIAN] by (auto simp: word_le_nat_alt)

section \<open>The bytes of IPv6 prefixes\<close>

lemma length_set_bytes [simp]: "length (set_bytes is v bs) = length bs"
  by (induction "is" arbitrary: bs) (simp_all add: set_bytes_def)

lemma nth_set_bytes: "j < length bs \<Longrightarrow> set_bytes is v bs ! j = (if j \<in> set is then v else bs ! j)"
proof (induction "is" arbitrary: bs)
  case (Cons i "is")
  have "set_bytes (i # is) v bs = set_bytes is v (bs[i := v])" by (simp add: set_bytes_def)
  then show ?case using Cons by (auto simp: nth_list_update)
qed (simp add: set_bytes_def)

text \<open>Bit \<open>j\<close> of an address, counted from the most significant.\<close>

definition ipv6_bit :: "sockaddr_in6 \<Rightarrow> nat \<Rightarrow> bool" where
  "ipv6_bit a j = bit (s6_addr a ! (j div 8)) (7 - j mod 8)"

lemma low_index [simp]: "7 - n < (8 :: nat)"
  by linarith

text \<open>The byte mask of a prefix, bit by bit.\<close>

lemma byte_mask:
  obtains m where "CreateMask 8 (p mod 8) = Inr m"
    and "\<And>j. j div 8 = p div 8 \<Longrightarrow> bit (ucast m :: u8) (7 - j mod 8) \<longleftrightarrow> p \<le> j"
proof -
  have "8 - p mod 8 < 31" "p mod 8 \<le> 8" by (simp_all add: less_imp_le)
  then obtain m where m: "CreateMask 8 (p mod 8) = Inr m" "\<And>i. bit m i \<longleftrightarrow> i < 8 - p mod 8"
    using CreateMask_ok by metis
  show thesis
  proof (rule that [OF m(1)])
    fix j assume j: "j div 8 = p div 8"
    have "bit (ucast m :: u8) (7 - j mod 8) \<longleftrightarrow> 7 - j mod 8 < 8 - p mod 8"
      unfolding bit_ucast_iff m(2) by simp
    also have "\<dots> \<longleftrightarrow> p mod 8 \<le> j mod 8" using mod_less_divisor [of 8 j] mod_less_divisor [of 8 p] by linarith
    also have "\<dots> \<longleftrightarrow> p \<le> j"
      using j mult_div_mod_eq [of 8 p] mult_div_mod_eq [of 8 j] by linarith
    finally show "bit (ucast m :: u8) (7 - j mod 8) \<longleftrightarrow> p \<le> j" .
  qed
qed

lemma byte_ff: "bit (0xff :: u8) (7 - j)"
proof -
  have "bit (mask 8 :: u8) (7 - j)" by (simp only: bit_mask_iff) simp
  then show ?thesis by (simp add: mask_eq_exp_minus_1)
qed

lemma ipv6_bit_less: "j < (128 :: nat) \<Longrightarrow> j div 8 < 16"
  by (simp add: less_mult_imp_div_less)

lemma div8_less: "j div 8 < p div 8 \<Longrightarrow> j < (p :: nat)"
  by (meson div_le_mono not_less)

lemma ipv6_broadcast_bits:
  assumes len: "length (s6_addr a) = 16" and p: "unat p < 128"
  shows "\<exists>b. ipv6_broadcastAddress h p a = Inr (Some b) \<and> sin6_port b = sin6_port a \<and>
    (\<forall>j < 128. ipv6_bit b j = (ipv6_bit a j \<or> unat p \<le> j))"
proof -
  obtain m where m: "CreateMask 8 (unat p mod 8) = Inr m"
      "\<And>j. j div 8 = unat p div 8 \<Longrightarrow> bit (ucast m :: u8) (7 - j mod 8) \<longleftrightarrow> unat p \<le> j"
    using byte_mask by blast
  let ?i = "unat p div 8"
  have i: "?i < 16" using p by (rule ipv6_bit_less)
  let ?b = "a\<lparr>s6_addr := set_bytes [?i + 1..<16] 0xff ((s6_addr a)[?i := s6_addr a ! ?i OR ucast m])\<rparr>"
  have "ipv6_bit ?b j = (ipv6_bit a j \<or> unat p \<le> j)" if j: "j < 128" for j
  proof (cases "j div 8" ?i rule: linorder_cases)
    case less
    then show ?thesis
      using ipv6_bit_less [OF j] len div8_less [OF less] by (simp add: ipv6_bit_def nth_set_bytes)
  next
    case equal
    then show ?thesis
      using ipv6_bit_less [OF j] len m(2) [OF equal] by (simp add: ipv6_bit_def nth_set_bytes bit_or_iff)
  next
    case greater
    then show ?thesis
      using ipv6_bit_less [OF j] len div8_less [OF greater] by (simp add: ipv6_bit_def nth_set_bytes byte_ff del: bit_numeral_word_iff)
  qed
  then show ?thesis
    using i m(1) by (intro exI [of _ ?b]) (simp add: ipv6_broadcastAddress_def Let_def)
qed

lemma ipv6_mask_bits:
  assumes p: "unat p < 128"
  shows "\<exists>m. ipv6_subnetMask h p = Inr m \<and> (\<forall>j < 128. ipv6_bit m j = (j < unat p))"
proof -
  obtain m where m: "CreateMask 8 (unat p mod 8) = Inr m"
      "\<And>j. j div 8 = unat p div 8 \<Longrightarrow> bit (ucast m :: u8) (7 - j mod 8) \<longleftrightarrow> unat p \<le> j"
    using byte_mask by blast
  let ?i = "unat p div 8"
  have i: "?i < 16" using p by (rule ipv6_bit_less)
  let ?m = "IPv6Address_default\<lparr>s6_addr := set_bytes [0..<?i] 0xff ((replicate 16 0)[?i := NOT (ucast m)])\<rparr>"
  have "ipv6_bit ?m j = (j < unat p)" if j: "j < 128" for j
  proof (cases "j div 8" ?i rule: linorder_cases)
    case less
    then show ?thesis
      using ipv6_bit_less [OF j] div8_less [OF less] by (simp add: ipv6_bit_def nth_set_bytes byte_ff del: bit_numeral_word_iff)
  next
    case equal
    then show ?thesis
      using ipv6_bit_less [OF j] m(2) [OF equal] by (simp add: ipv6_bit_def nth_set_bytes bit_simps not_le)
  next
    case greater
    then show ?thesis
      using ipv6_bit_less [OF j] div8_less [OF greater] by (simp add: ipv6_bit_def nth_set_bytes)
  qed
  then show ?thesis
    using i m(1) by (intro exI [of _ ?m]) (simp add: ipv6_subnetMask_def Let_def)
qed

lemma ipv6_network_bits:
  assumes len: "length (s6_addr a) = 16" and p: "p \<le> 32"
  shows "\<exists>n. ipv6_networkAddress h p a = Inr (Some n) \<and> sin6_port n = sin6_port a \<and>
    (\<forall>j < 128. ipv6_bit n j = (ipv6_bit a j \<and>
       (j div 8 < unat p div 8 \<or> j div 8 = unat p div 8 \<and> unat p \<le> j)))"
proof -
  obtain m where m: "CreateMask 8 (unat p mod 8) = Inr m"
      "\<And>j. j div 8 = unat p div 8 \<Longrightarrow> bit (ucast m :: u8) (7 - j mod 8) \<longleftrightarrow> unat p \<le> j"
    using byte_mask by blast
  let ?i = "unat p div 8"
  let ?n = "a\<lparr>s6_addr := set_bytes [?i + 1..<16] 0 ((s6_addr a)[?i := s6_addr a ! ?i AND ucast m])\<rparr>"
  have "ipv6_bit ?n j = (ipv6_bit a j \<and> (j div 8 < ?i \<or> j div 8 = ?i \<and> unat p \<le> j))" if j: "j < 128" for j
  proof (cases "j div 8" ?i rule: linorder_cases)
    case less
    then show ?thesis
      using ipv6_bit_less [OF j] len by (simp add: ipv6_bit_def nth_set_bytes)
  next
    case equal
    then show ?thesis
      using ipv6_bit_less [OF j] len m(2) [OF equal] by (simp add: ipv6_bit_def nth_set_bytes bit_and_iff)
  next
    case greater
    then show ?thesis
      using ipv6_bit_less [OF j] len by (simp add: ipv6_bit_def nth_set_bytes)
  qed
  moreover have "\<not> 32 < p" using p by simp
  ultimately show ?thesis
    using m(1) by (intro exI [of _ ?n]) (simp add: ipv6_networkAddress_def Let_def)
qed

text \<open>C39. The prefixes of an IPv6 address, for every prefix length below 128: the broadcast address
  sets exactly the bits from the prefix on, the mask exactly those before it. The network address
  refuses everything above 32 bits, though prefixes have up to 128, and in the byte the prefix
  ends in it keeps the host bits and clears the prefix bits. From 128 on the functions write
  outside the address.\<close>

theorem ipv6_prefixes:
  fixes p :: u32
  assumes "length (s6_addr a) = 16"
  shows "(unat p < 128 \<longrightarrow>
            (\<exists>b. ipv6_broadcastAddress h p a = Inr (Some b) \<and> sin6_port b = sin6_port a \<and>
               (\<forall>j < 128. ipv6_bit b j = (ipv6_bit a j \<or> unat p \<le> j))) \<and>
            (\<exists>m. ipv6_subnetMask h p = Inr m \<and> (\<forall>j < 128. ipv6_bit m j = (j < unat p)))) \<and>
         (128 \<le> unat p \<longrightarrow> ipv6_broadcastAddress h p a = Inl Out_of_bounds \<and>
            ipv6_subnetMask h p = Inl Out_of_bounds) \<and>
         (p \<le> 32 \<longrightarrow> (\<exists>n. ipv6_networkAddress h p a = Inr (Some n) \<and> sin6_port n = sin6_port a \<and>
            (\<forall>j < 128. ipv6_bit n j = (ipv6_bit a j \<and>
               (j div 8 < unat p div 8 \<or> j div 8 = unat p div 8 \<and> unat p \<le> j))))) \<and>
         (32 < p \<longrightarrow> ipv6_networkAddress h p a = Inr None)"
proof (intro conjI impI)
  assume "128 \<le> unat p"
  then have "16 \<le> unat p div 8" using div_le_mono [of 128 "unat p" 8] by simp
  then show "ipv6_broadcastAddress h p a = Inl Out_of_bounds" "ipv6_subnetMask h p = Inl Out_of_bounds"
    by (simp_all add: ipv6_broadcastAddress_def ipv6_subnetMask_def)
next
  assume "32 < p"
  then show "ipv6_networkAddress h p a = Inr None" by (simp add: ipv6_networkAddress_def)
qed (use ipv6_broadcast_bits [OF assms] ipv6_mask_bits ipv6_network_bits [OF assms] in blast)+

theorem ipv6_prefixes_witness:
  "ipv6_networkAddress SYLAR_LITTLE_ENDIAN 64 IPv6Address_default = Inr None \<and>
   (\<exists>b. ipv6_broadcastAddress SYLAR_LITTLE_ENDIAN 64 IPv6Address_default = Inr (Some b) \<and> ipv6_bit b 64)"
proof -
  have "length (s6_addr IPv6Address_default) = 16" by (simp add: IPv6Address_default_def)
  from ipv6_prefixes [OF this, of 64 SYLAR_LITTLE_ENDIAN] show ?thesis
    by (auto simp: word_less_nat_alt)
qed

section \<open>Addresses from memory\<close>

text \<open>\<^verbatim>\<open>Address::Create\<close> inverts \<^verbatim>\<open>getAddr\<close>: from the bytes of an IPv4 or IPv6 address it makes
  that address, whatever follows them in memory, and a structure of another family becomes an
  unknown address with its family.\<close>

theorem Create_inverts:
  "(sin_family a = AF_INET \<and> length (sin_zero a) = 8 \<longrightarrow>
      Address_Create h (Some (getAddr h (IPv4 a) @ tail)) = Inr (Some (IPv4 a))) \<and>
   (sin6_family b = AF_INET6 \<and> length (s6_addr b) = 16 \<longrightarrow>
      Address_Create h (Some (getAddr h (IPv6 b) @ tail)) = Inr (Some (IPv6 b))) \<and>
   (sa_family c \<noteq> AF_INET \<and> sa_family c \<noteq> AF_INET6 \<and> length (sa_data c) = 14 \<longrightarrow>
      Address_Create h (Some (getAddr h (Unknown c) @ tail)) = Inr (Some (Unknown c)))"
proof (intro conjI impI)
  assume a: "sin_family a = AF_INET \<and> length (sin_zero a) = 8"
  then have "in_of h (in_bytes h a @ tail) = a" "sa_family (sa_of h (in_bytes h a @ tail)) = AF_INET"
    by (simp_all add: in_of_def in_bytes_def sa_of_def)
  then show "Address_Create h (Some (getAddr h (IPv4 a) @ tail)) = Inr (Some (IPv4 a))"
    using a by (simp add: Address_Create_def Let_def in_bytes_def)
next
  assume b: "sin6_family b = AF_INET6 \<and> length (s6_addr b) = 16"
  then have "in6_of h (in6_bytes h b @ tail) = b" "sa_family (sa_of h (in6_bytes h b @ tail)) = AF_INET6"
    by (simp_all add: in6_of_def in6_bytes_def sa_of_def)
  moreover have "AF_INET6 \<noteq> AF_INET" by (simp add: AF_INET_def AF_INET6_def)
  ultimately show "Address_Create h (Some (getAddr h (IPv6 b) @ tail)) = Inr (Some (IPv6 b))"
    using b by (simp add: Address_Create_def Let_def in6_bytes_def)
next
  assume c: "sa_family c \<noteq> AF_INET \<and> sa_family c \<noteq> AF_INET6 \<and> length (sa_data c) = 14"
  then have "sa_of h (sa_bytes h c @ tail) = c" by (simp add: sa_bytes_def sa_of_def)
  then show "Address_Create h (Some (getAddr h (Unknown c) @ tail)) = Inr (Some (Unknown c))"
    using c by (simp add: Address_Create_def Let_def sa_bytes_def)
qed

theorem Create_inverts_witness:
  "Address_Create SYLAR_LITTLE_ENDIAN (Some (getAddr SYLAR_LITTLE_ENDIAN (IPv4 (IPv4Address SYLAR_LITTLE_ENDIAN 1 80)))) =
     Inr (Some (IPv4 (IPv4Address SYLAR_LITTLE_ENDIAN 1 80)))"
  using Create_inverts [of "IPv4Address SYLAR_LITTLE_ENDIAN 1 80" SYLAR_LITTLE_ENDIAN "[]"
      IPv6Address_default "\<lparr>sa_family = AF_UNIX, sa_data = []\<rparr>"]
  by (simp add: IPv4Address_def)

end
