(* ===== verification/Address_Strings.thy ===== *)
theory Address_Strings
  imports Address_Text "HOL-Library.List_Lexorder"
begin

text \<open>
  What the text of an address says, which paths survive a Unix-domain address, how a host is
  taken apart, and that the comparison is an order.
\<close>

unbundle bit_operations_syntax

section \<open>The compressed text of IPv6 groups\<close>

text \<open>
  \<open>shown t xs st\<close>: after the groups \<open>xs\<close> the loop has written their texts, up to a first run of
  zero groups, and after that run a double colon and the rest.
\<close>

definition shown :: "(u16 \<Rightarrow> string) \<Rightarrow> u16 list \<Rightarrow> string \<times> bool \<Rightarrow> bool" where
  "shown t xs st \<longleftrightarrow>
     0 \<notin> set xs \<and> st = (join '':'' (map t xs), False) \<or>
     (\<exists>pre n post. xs = pre @ replicate (Suc n) 0 @ post \<and> 0 \<notin> set pre \<and> (post = [] \<or> hd post \<noteq> 0) \<and>
        st = (if post = [] then (join '':'' (map t pre), False)
              else (join '':'' (map t pre) @ ''::'' @ join '':'' (map t post), True)))"

lemma shown_step:
  assumes "shown (\<lambda>g. hexa (unat (byteswapOnLittleEndian h g))) (take i addr) st" and "i < length addr"
  shows "shown (\<lambda>g. hexa (unat (byteswapOnLittleEndian h g))) (take (Suc i) addr) (print_group h addr st i)"
    (is "shown ?t _ _")
proof -
  let ?x = "addr ! i" and ?xs = "take i addr"
  have snoc: "take (Suc i) addr = ?xs @ [?x]" using assms(2) by (rule take_Suc_conv_app_nth)
  have prev: "i \<noteq> 0 \<Longrightarrow> addr ! (i - 1) = last ?xs" "?xs = [] \<longleftrightarrow> i = 0"
    using assms(2) by (cases i; auto simp: take_Suc_conv_app_nth)+
  consider (none) "0 \<notin> set ?xs" "st = (join '':'' (map ?t ?xs), False)"
    | (run) pre n where "?xs = pre @ replicate (Suc n) 0" "0 \<notin> set pre" "st = (join '':'' (map ?t pre), False)"
    | (rest) pre n post where "?xs = pre @ replicate (Suc n) 0 @ post" "0 \<notin> set pre" "post \<noteq> []" "hd post \<noteq> 0"
        "st = (join '':'' (map ?t pre) @ ''::'' @ join '':'' (map ?t post), True)"
  proof -
    from assms(1) show thesis
      unfolding shown_def
    proof
      assume "0 \<notin> set ?xs \<and> st = (join '':'' (map ?t ?xs), False)"
      then show thesis using none by blast
    next
      assume "\<exists>pre n post. ?xs = pre @ replicate (Suc n) 0 @ post \<and> 0 \<notin> set pre \<and> (post = [] \<or> hd post \<noteq> 0) \<and>
        st = (if post = [] then (join '':'' (map ?t pre), False)
              else (join '':'' (map ?t pre) @ ''::'' @ join '':'' (map ?t post), True))"
      then obtain pre n post where x: "?xs = pre @ replicate (Suc n) 0 @ post" "0 \<notin> set pre"
        and st: "st = (if post = [] then (join '':'' (map ?t pre), False)
          else (join '':'' (map ?t pre) @ ''::'' @ join '':'' (map ?t post), True))"
        and post: "post = [] \<or> hd post \<noteq> 0"
        by blast
      show thesis
      proof (cases "post = []")
        case True
        then show thesis using x st by (intro run [of pre n]) simp_all
      next
        case False
        then show thesis using x st post by (intro rest [of pre n post]) simp_all
      qed
    qed
  qed
  then show ?thesis
  proof cases
    case none
    show ?thesis
    proof (cases "?x = 0")
      case True
      then have "print_group h addr st i = st" by (simp add: print_group_def none)
      then show ?thesis
        using none True unfolding snoc shown_def
        by (intro disjI2 exI [of _ ?xs] exI [of _ 0] exI [of _ "[] :: u16 list"]) simp
    next
      case False
      have "i \<noteq> 0 \<longrightarrow> addr ! (i - 1) \<noteq> 0" using none(1) prev by (metis last_in_set)
      then have "print_group h addr st i = (join '':'' (map ?t (?xs @ [?x])), False)"
        using False prev(2) by (simp add: print_group_def none(2) join_snoc)
      then show ?thesis using none(1) False unfolding snoc shown_def by auto
    qed
  next
    case run
    have i: "i \<noteq> 0" "addr ! (i - 1) = 0" using run(1) prev by (auto simp: replicate_append_same [symmetric])
    show ?thesis
    proof (cases "?x = 0")
      case True
      then have "print_group h addr st i = st" by (simp add: print_group_def run)
      moreover have "?xs @ [?x] = pre @ replicate (Suc (Suc n)) 0 @ []"
        using run(1) True by (simp add: replicate_append_same)
      ultimately show ?thesis using run(2,3) unfolding snoc shown_def by fastforce
    next
      case False
      then have "print_group h addr st i = (join '':'' (map ?t pre) @ ''::'' @ join '':'' (map ?t [?x]), True)"
        using i by (simp add: print_group_def run(3))
      moreover have "?xs @ [?x] = pre @ replicate (Suc n) 0 @ [?x]" using run(1) by simp
      ultimately show ?thesis using run(2) False unfolding snoc shown_def
        by (intro disjI2 exI [of _ pre] exI [of _ n] exI [of _ "[?x]"]) simp
    qed
  next
    case rest
    have "i \<noteq> 0" using rest(1) prev(2) by auto
    then have "print_group h addr st i =
        (join '':'' (map ?t pre) @ ''::'' @ join '':'' (map ?t (post @ [?x])), True)"
      using rest(3) by (simp add: print_group_def rest(5) join_snoc)
    moreover have "?xs @ [?x] = pre @ replicate (Suc n) 0 @ (post @ [?x])" using rest(1) by simp
    ultimately show ?thesis using rest(2-4) unfolding snoc shown_def
      by (intro disjI2 exI [of _ pre] exI [of _ n] exI [of _ "post @ [?x]"]) (simp add: hd_append)
  qed
qed

lemma shown_loop:
  "i \<le> length addr \<Longrightarrow>
    shown (\<lambda>g. hexa (unat (byteswapOnLittleEndian h g))) (take i addr) (foldl (print_group h addr) ('''', False) [0..<i])"
proof (induction i)
  case 0
  show ?case by (simp add: shown_def)
next
  case (Suc i)
  then show ?case using shown_step [of h i addr] by simp
qed

text \<open>The groups as numbers are those of a big-endian host.\<close>

lemma groups_value: "length bs = 16 \<Longrightarrow> map (byteswapOnLittleEndian h) (groups h bs) = groups SYLAR_BIG_ENDIAN bs"
  using mem_word_swap_unless [where 'a=16, of _ SYLAR_BIG_ENDIAN h]
  by (cases h) (auto simp: groups_def byteswapOnLittleEndian_def)

lemma zero_group: "byteswapOnLittleEndian h (g :: u16) = 0 \<longleftrightarrow> g = 0"
proof -
  have "byteswap (0 :: u16) = 0" by (rule bit_word_eqI) (simp add: bit_byteswap)
  then show ?thesis
    by (cases h) (use byteswap_byteswap [of g] in \<open>auto simp: byteswapOnLittleEndian_def\<close>)
qed

text \<open>
  The compressed notation: all the groups, or, when some are zero, those before and after the first
  run of zero groups, around a double colon.
\<close>

abbreviation hex_groups :: "u16 list \<Rightarrow> string" where
  "hex_groups gs \<equiv> join '':'' (map (\<lambda>g. hexa (unat g)) gs)"

inductive compressed :: "u16 list \<Rightarrow> string \<Rightarrow> bool" where
  plain: "0 \<notin> set gs \<Longrightarrow> compressed gs (hex_groups gs)"
| zeros: "0 \<notin> set pre \<Longrightarrow> post = [] \<or> hd post \<noteq> 0 \<Longrightarrow>
    compressed (pre @ replicate (Suc n) 0 @ post) (hex_groups pre @ ''::'' @ hex_groups post)"

lemma print_groups_text:
  assumes "length addr = 8"
  shows "compressed (map (byteswapOnLittleEndian h) addr) (print_groups h addr)"
proof -
  let ?b = "byteswapOnLittleEndian h :: u16 \<Rightarrow> u16"
  let ?t = "\<lambda>g. hexa (unat (?b g))"
  let ?st = "foldl (print_group h addr) ('''', False) [0..<8]"
  have sh: "shown ?t addr ?st" using shown_loop [of 8 addr h] assms(1) by simp
  have z: "0 \<in> set (map ?b xs) \<longleftrightarrow> 0 \<in> set xs" for xs by (force simp: zero_group)
  have b0: "?b 0 = 0" by (simp add: zero_group)
  have last: "addr ! 7 = last addr" using assms(1) by (cases "addr = []") (simp_all add: last_conv_nth)
  show ?thesis
  proof (cases "0 \<in> set addr")
    case False
    then have "?st = (join '':'' (map ?t addr), False)" using sh by (auto simp: shown_def)
    moreover have "addr ! 7 \<noteq> 0" using False assms unfolding last by (metis last_in_set length_0_conv zero_neq_numeral)
    ultimately have "print_groups h addr = hex_groups (map ?b addr)"
      by (simp add: print_groups_def o_def)
    then show ?thesis using False z [of addr] plain by metis
  next
    case True
    then obtain pre n post where x: "addr = pre @ replicate (Suc n) 0 @ post" "0 \<notin> set pre"
        "post = [] \<or> hd post \<noteq> 0" and st: "?st = (if post = [] then (join '':'' (map ?t pre), False)
              else (join '':'' (map ?t pre) @ ''::'' @ join '':'' (map ?t post), True))"
      using sh unfolding shown_def by blast
    have "print_groups h addr = hex_groups (map ?b pre) @ ''::'' @ hex_groups (map ?b post)"
    proof (cases "post = []")
      case True
      then have "addr ! 7 = 0" unfolding last using x(1) by simp
      then show ?thesis using True st by (simp add: print_groups_def o_def)
    next
      case False
      then show ?thesis using st by (simp add: print_groups_def o_def)
    qed
    moreover have "map ?b addr = map ?b pre @ replicate (Suc n) 0 @ map ?b post"
      using x(1) by (simp add: b0)
    moreover have "0 \<notin> set (map ?b pre)" using x(2) z by blast
    moreover have "map ?b post = [] \<or> hd (map ?b post) \<noteq> 0" using x(3) by (auto simp: hd_map zero_group)
    ultimately show ?thesis using zeros [of "map ?b pre" "map ?b post" n] by simp
  qed
qed

text \<open>The text of an IPv6 address is the compressed notation of its eight 16-bit groups, read
  most significant byte first on every host: the groups in hexadecimal joined by colons, with the
  first run of zero groups, and only that one, as a double colon; then the port.\<close>

theorem ipv6_text:
  assumes "length (s6_addr a) = 16"
  shows "\<exists>body. compressed (groups SYLAR_BIG_ENDIAN (s6_addr a)) body \<and>
    ipv6_print h a = ''['' @ body @ '']:'' @ dec (unat (byteswapOnLittleEndian h (sin6_port a)))"
proof -
  have "length (groups h (s6_addr a)) = 8" by (simp add: groups_def)
  from print_groups_text [OF this, of h] show ?thesis
    unfolding groups_value [OF assms] by (auto simp: ipv6_print_def)
qed

theorem ipv6_text_witness:
  "ipv6_print SYLAR_LITTLE_ENDIAN (IPv6Address SYLAR_LITTLE_ENDIAN
     [0, 0, 0, 0, 0, 0, 0, 0, 0, 0, 0, 0, 0, 0, 0, 1] 80) = ''[::1]:80''"
proof -
  let ?a = "IPv6Address SYLAR_LITTLE_ENDIAN [0, 0, 0, 0, 0, 0, 0, 0, 0, 0, 0, 0, 0, 0, 0, 1] 80"
  have gs: "groups SYLAR_BIG_ENDIAN (s6_addr ?a) = [0, 0, 0, 0, 0, 0, 0, 1]"
    by (simp add: IPv6Address_def groups_def mem_word_def upt_rec)
  have port: "byteswapOnLittleEndian SYLAR_LITTLE_ENDIAN (sin6_port ?a) = 80"
    by (simp add: IPv6Address_def byteswapOnLittleEndian_twice)
  have "length (s6_addr ?a) = 16" by (simp add: IPv6Address_def)
  from ipv6_text [OF this, of SYLAR_LITTLE_ENDIAN] obtain body
    where body: "compressed [0, 0, 0, 0, 0, 0, 0, 1] body"
      and shape: "ipv6_print SYLAR_LITTLE_ENDIAN ?a = ''['' @ body @ '']:'' @ dec 80"
    unfolding gs port by auto
  from body have "body = ''::1''"
  proof (cases rule: compressed.cases)
    case plain
    then show ?thesis by simp
  next
    case (zeros pre post n)
    have pre: "pre = []" using zeros(1,3) by (cases pre) auto
    have post: "post = [1]"
    proof -
      have "takeWhile (\<lambda>g. g = 0) (replicate (Suc n) 0 @ post) = replicate (Suc n) 0"
        using zeros(4) by (cases post) (auto simp: takeWhile_append)
      moreover have "takeWhile (\<lambda>g. g = 0) [0, 0, 0, 0, 0, 0, 0, 1 :: u16] = replicate 7 0"
        by (simp add: numeral_eq_Suc)
      ultimately have "Suc n = 7" using zeros(1) pre by (metis append_Nil length_replicate)
      then show ?thesis using zeros(1) pre by (simp add: numeral_eq_Suc)
    qed
    show ?thesis
      using zeros(2) by (simp add: pre post hexa_def to_base.simps digit_char_def char_of_def bit_simps)
  qed
  then show ?thesis
    using shape by (simp add: dec_def to_base.simps digit_char_def char_of_def bit_simps)
qed

section \<open>The text of IPv4 addresses\<close>

lemma cut_join [simp]:
  "CHR ''.'' \<notin> set as \<Longrightarrow> CHR ''.'' \<notin> set bs \<Longrightarrow>
    as @ CHR ''.'' # xs = bs @ CHR ''.'' # ys \<longleftrightarrow> as = bs \<and> xs = ys"
  "CHR '':'' \<notin> set as \<Longrightarrow> CHR '':'' \<notin> set bs \<Longrightarrow>
    as @ CHR '':'' # xs = bs @ CHR '':'' # ys \<longleftrightarrow> as = bs \<and> xs = ys"
  by (simp_all add: cut_inject)

lemma bytes_of_word32:
  fixes x y :: u32
  assumes "drop_bit 24 x AND 0xff = drop_bit 24 y AND 0xff" and "drop_bit 16 x AND 0xff = drop_bit 16 y AND 0xff"
    and "drop_bit 8 x AND 0xff = drop_bit 8 y AND 0xff" and "x AND 0xff = y AND 0xff"
  shows "x = y"
proof (rule bit_word_eqI)
  fix n assume n: "n < LENGTH(32)"
  have ff: "(0xff :: u32) = mask 8" by (simp add: mask_eq_exp_minus_1)
  have "bit (drop_bit (8 * (n div 8)) x AND 0xff) (n mod 8) \<longleftrightarrow> bit (drop_bit (8 * (n div 8)) y AND 0xff) (n mod 8)"
  proof -
    have "n div 8 < 4" using n by (simp add: less_mult_imp_div_less)
    then consider "n div 8 = 0" | "n div 8 = 1" | "n div 8 = 2" | "n div 8 = 3" by linarith
    then show ?thesis using assms by cases simp_all
  qed
  then show "bit x n = bit y n"
    using order.strict_trans [OF mod_less_divisor [of 8 n], of 32] unfolding ff by (simp add: bit_simps)
qed

lemma byteswap_cancel:
  assumes "byteswapOnLittleEndian h v = byteswapOnLittleEndian h (w :: 'a::len word)" and "8 dvd LENGTH('a)"
  shows "v = w"
  using assms byteswapOnLittleEndian_twice by metis

text \<open>The text of an IPv4 address tells the address: two addresses print alike exactly when the
  stored address and the stored port are the same.\<close>

theorem ipv4_text_determines:
  "ipv4_print h a = ipv4_print h b \<longleftrightarrow> sin_addr a = sin_addr b \<and> sin_port a = sin_port b"
proof
  let ?v = "\<lambda>a. byteswapOnLittleEndian h (sin_addr a)"
  assume "ipv4_print h a = ipv4_print h b"
  then have "unat (drop_bit 24 (?v a) AND 0xff) = unat (drop_bit 24 (?v b) AND 0xff)"
      "unat (drop_bit 16 (?v a) AND 0xff) = unat (drop_bit 16 (?v b) AND 0xff)"
      "unat (drop_bit 8 (?v a) AND 0xff) = unat (drop_bit 8 (?v b) AND 0xff)"
      "unat (?v a AND 0xff) = unat (?v b AND 0xff)"
      "unat (byteswapOnLittleEndian h (sin_port a)) = unat (byteswapOnLittleEndian h (sin_port b))"
    by (simp_all add: ipv4_print_def Let_def)
  note eqs = this [folded word_unat_eq_iff]
  have "?v a = ?v b" by (rule bytes_of_word32 [OF eqs(1-4)])
  with eqs(5) show "sin_addr a = sin_addr b \<and> sin_port a = sin_port b"
    by (auto intro: byteswap_cancel [of h])
qed (simp add: ipv4_print_def)

section \<open>Paths of Unix-domain addresses\<close>

lemma overwrite_0 [simp]: "overwrite 0 bs xs = bs @ drop (length bs) xs"
  by (simp add: overwrite_def)

lemma UnixAddress_named:
  assumes "path \<noteq> []" and "CHR 0x00 \<notin> set path" and "length path \<le> 107"
  shows "\<exists>a. UnixAddress path = Inr a \<and> getPath a = Inr path \<and> unat (m_length a) = length path + 3"
proof -
  let ?n = "of_nat (length path) + 1 :: u32"
  have n: "unat ?n = length path + 1" "\<not> 108 < ?n"
    using assms(3) by (simp_all add: unat_word_ariths unat_of_nat word_less_nat_alt)
  have m: "unat (?n + 2) = length path + 3"
    using assms(3) by (simp add: unat_word_ariths unat_of_nat)
  have hd: "hd path \<noteq> CHR 0x00" using assms(1,2) by (metis list.set_sel(1))
  let ?a = "\<lparr>sun_family = AF_UNIX, sun_path = path @ CHR 0x00 # replicate (107 - length path) (CHR 0x00), m_length = ?n + 2\<rparr>"
  have "UnixAddress path = Inr ?a"
    using n hd assms by (simp add: UnixAddress_def Let_def)
  moreover have "getPath ?a = Inr path"
    using hd assms(1,2) by (simp add: getPath_def cstr_append_null)
  ultimately show ?thesis using m by auto
qed

lemma UnixAddress_abstract:
  assumes "path = CHR 0x00 # rest" and "length rest \<le> 107"
  shows "\<exists>a. UnixAddress path = Inr a \<and> getPath a = Inr (CHR 0x5C # CHR ''0'' # rest)"
proof -
  let ?n = "of_nat (length path) :: u32"
  have n: "unat ?n = length rest + 1" "\<not> 108 < ?n" "of_nat (length path) + 1 - 1 = ?n"
    using assms by (simp_all add: unat_of_nat word_less_nat_alt unat_word_ariths)
  have m: "unat (?n + 2) = length rest + 3"
    using assms by (simp add: unat_word_ariths unat_of_nat)
  then have m2: "2 < ?n + 2" "\<not> 110 < ?n + 2" using assms(2) by (simp_all add: word_less_nat_alt)
  let ?a = "\<lparr>sun_family = AF_UNIX, sun_path = path @ replicate (107 - length rest) (CHR 0x00), m_length = ?n + 2\<rparr>"
  have "UnixAddress path = Inr ?a"
    using n assms(1) by (simp add: UnixAddress_def Let_def del: of_nat_Suc)
  moreover have "getPath ?a = Inr (CHR 0x5C # CHR ''0'' # rest)"
    using m m2 assms(1) by (simp add: getPath_def)
  ultimately show ?thesis by auto
qed

lemma UnixAddress_long:
  assumes "length path < 2 ^ 32 - 1" and "108 < length path \<or> length path = 108 \<and> hd path \<noteq> CHR 0x00"
  shows "UnixAddress path = Inl Path_too_long"
proof -
  have "unat (of_nat (length path) + 1 :: u32) = length path + 1" "unat (of_nat (length path) :: u32) = length path"
    using assms(1) by (simp_all add: unat_word_ariths unat_of_nat)
  then show ?thesis
    using assms(2) by (auto simp: UnixAddress_def Let_def word_less_nat_alt)
qed

text \<open>A path survives a Unix-domain address: a named path of up to 107 characters comes back as
  it was, an abstract one of up to 108 comes back with its null character shown as a backslash and
  a zero, and longer ones throw. The empty path is the exception: it comes back as the abstract
  one.\<close>

theorem unix_path_roundtrip:
  "(path \<noteq> [] \<and> CHR 0x00 \<notin> set path \<and> length path \<le> 107 \<longrightarrow>
      (\<exists>a. UnixAddress path = Inr a \<and> getPath a = Inr path \<and> unat (m_length a) = length path + 3)) \<and>
   (path = CHR 0x00 # rest \<and> length rest \<le> 107 \<longrightarrow>
      (\<exists>a. UnixAddress path = Inr a \<and> getPath a = Inr (CHR 0x5C # CHR ''0'' # rest))) \<and>
   (path = [] \<longrightarrow> (\<exists>a. UnixAddress path = Inr a \<and> getPath a = Inr [CHR 0x5C, CHR ''0''])) \<and>
   (length path < 2 ^ 32 - 1 \<and> (108 < length path \<or> length path = 108 \<and> hd path \<noteq> CHR 0x00) \<longrightarrow>
      UnixAddress path = Inl Path_too_long)"
proof (intro conjI impI)
  assume "path = []"
  then show "\<exists>a. UnixAddress path = Inr a \<and> getPath a = Inr [CHR 0x5C, CHR ''0'']"
    by (simp add: UnixAddress_def getPath_def)
qed (use UnixAddress_named UnixAddress_abstract UnixAddress_long in blast)+

theorem unix_path_roundtrip_witness:
  "\<exists>a. UnixAddress ''/tmp/s'' = Inr a \<and> getPath a = Inr ''/tmp/s'' \<and> unat (m_length a) = 9"
  using unix_path_roundtrip [of "''/tmp/s''" "''''"] by simp

section \<open>Hosts\<close>

text \<open>How a host name is taken apart. In brackets a literal, with or without a port; outside, the
  part before the first colon and the port after it; without a colon the whole name. But a host
  that consists of a colon and a port is looked up with itself as the name.\<close>

theorem split_host_parts:
  assumes "CHR 0x00 \<notin> set name" and "CHR 0x00 \<notin> set port"
  shows "(CHR '']'' \<notin> set name \<and> name \<noteq> [] \<longrightarrow>
            split_host (''['' @ name @ '']:'' @ port) = (name, Some port) \<and>
            split_host (''['' @ name @ '']'') = (name, None)) \<and>
         (CHR '':'' \<notin> set name \<and> name \<noteq> [] \<and> hd name \<noteq> CHR ''['' \<longrightarrow>
            split_host (name @ '':'' @ port) = (name, Some port) \<and> split_host name = (name, None)) \<and>
         split_host ('':'' @ port) = ('':'' @ port, Some port)"
proof (intro conjI impI)
  assume a: "CHR '']'' \<notin> set name \<and> name \<noteq> []"
  then show "split_host (''['' @ name @ '']:'' @ port) = (name, Some port)"
    "split_host (''['' @ name @ '']'') = (name, None)"
    using assms cut_append [of "CHR '']''" name] by (simp_all add: split_host_def cstr_id)
next
  assume a: "CHR '':'' \<notin> set name \<and> name \<noteq> [] \<and> hd name \<noteq> CHR ''[''"
  then have c: "cut (CHR '':'') (name @ CHR '':'' # port) = Some (name, port)" "cut (CHR '':'') name = None"
    by (simp_all add: cut_append cut_None)
  from a obtain x xs where n: "name = x # xs" "x \<noteq> CHR ''[''" by (cases name) auto
  show "split_host (name @ '':'' @ port) = (name, Some port)" "split_host name = (name, None)"
    using c assms by (simp_all add: split_host_def cstr_id n)
next
  show "split_host ('':'' @ port) = ('':'' @ port, Some port)"
    using assms by (simp add: split_host_def cstr_id)
qed

theorem split_host_parts_witness:
  "split_host ''[::1]:80'' = (''::1'', Some ''80'') \<and> split_host '':80'' = ('':80'', Some ''80'')"
  using split_host_parts [of "''::1''" "''80''"] by simp

section \<open>Comparison\<close>

text \<open>The bytes of an address that count, and that they are all there.\<close>

definition image_of :: "endian \<Rightarrow> address \<Rightarrow> u8 list" where
  "image_of h a = take (getAddrLen a) (getAddr h a)"

lemma memcmp_order:
  "(memcmp (take (min (length xs) (length ys)) xs) (take (min (length xs) (length ys)) ys) < 0 \<or>
    memcmp (take (min (length xs) (length ys)) xs) (take (min (length xs) (length ys)) ys) = 0 \<and> length xs < length ys)
   \<longleftrightarrow> xs < ys"
  by (induction xs ys rule: memcmp.induct) (auto simp: neq_iff not_less_iff_gr_or_eq)

lemma memcmp_equal: "length xs = length ys \<Longrightarrow> memcmp xs ys = 0 \<longleftrightarrow> xs = ys"
  by (induction xs ys rule: memcmp.induct) auto

text \<open>The comparison operators are the lexicographic order and the equality of the bytes of the
  addresses, so addresses whose length does not exceed their structure are linearly ordered.\<close>

theorem address_order:
  assumes "readable h a (getAddrLen a)" and "readable h b (getAddrLen b)"
  shows "addr_less h a b = Inr (image_of h a < image_of h b) \<and> addr_equal h a b = Inr (image_of h a = image_of h b)"
proof -
  have len: "length (image_of h a) = getAddrLen a" "length (image_of h b) = getAddrLen b"
    using assms by (simp_all add: readable_def image_of_def)
  let ?mn = "min (getAddrLen a) (getAddrLen b)"
  have t: "take ?mn (getAddr h a) = take ?mn (image_of h a)" "take ?mn (getAddr h b) = take ?mn (image_of h b)"
    by (simp_all add: image_of_def min_def)
  have "readable h a ?mn" "readable h b ?mn" using assms by (auto simp: readable_def)
  then have "addr_less h a b = Inr (image_of h a < image_of h b)"
    unfolding addr_less_def Let_def t
    using memcmp_order [of "image_of h a" "image_of h b"] by (auto simp: len)
  moreover have "addr_equal h a b = Inr (image_of h a = image_of h b)"
  proof (cases "getAddrLen a = getAddrLen b")
    case True
    then show ?thesis
      using assms memcmp_equal [of "image_of h a" "image_of h b"] len by (simp add: addr_equal_def image_of_def)
  next
    case False
    then show ?thesis using len by (auto simp: addr_equal_def)
  qed
  ultimately show ?thesis by blast
qed

theorem address_order_witness:
  "addr_equal h (IPv4 (IPv4Address h 0 80)) (IPv4 (IPv4Address h 0 80)) = Inr True"
proof -
  have "readable h (IPv4 (IPv4Address h 0 80)) (getAddrLen (IPv4 (IPv4Address h 0 80)))"
    by (simp add: readable_def in_bytes_def IPv4Address_def)
  from address_order [OF this this] show ?thesis by simp
qed

end
