(* ===== verification/Log_Format.thy ===== *)
theory Log_Format
  imports Text
begin

text \<open>
  \<^verbatim>\<open>src/src/log/logger.{h,cpp}\<close>, first part: log levels, events, and the formatter, whose \<^verbatim>\<open>init\<close>
  parses a pattern into format items. \<^verbatim>\<open>strftime\<close> after \<^verbatim>\<open>localtime_r\<close> is an argument, which gives no
  result when the text does not fit the buffer; what is printed then is undefined. \<^verbatim>\<open>isalpha\<close> is
  that of the C locale.
\<close>

section \<open>Levels\<close>

datatype log_level = UNKNOW | DEBUG | INFO | WARN | ERROR | FATAL

primrec level_rank :: "log_level \<Rightarrow> nat" where
  "level_rank UNKNOW = 0"
| "level_rank DEBUG = 1"
| "level_rank INFO = 2"
| "level_rank WARN = 3"
| "level_rank ERROR = 4"
| "level_rank FATAL = 5"

lemma level_rank_inject [simp]: "level_rank a = level_rank b \<longleftrightarrow> a = b"
  by (cases a; cases b) simp_all

instantiation log_level :: linorder
begin

definition less_eq_log_level :: "log_level \<Rightarrow> log_level \<Rightarrow> bool" where
  "a \<le> b \<longleftrightarrow> level_rank a \<le> level_rank b"

definition less_log_level :: "log_level \<Rightarrow> log_level \<Rightarrow> bool" where
  "a < b \<longleftrightarrow> level_rank a < level_rank b"

instance
  by standard (auto simp: less_eq_log_level_def less_log_level_def)

end

primrec ToString :: "log_level \<Rightarrow> string" where
  "ToString DEBUG = ''DEBUG''"
| "ToString INFO = ''INFO''"
| "ToString WARN = ''WARN''"
| "ToString ERROR = ''ERROR''"
| "ToString FATAL = ''FATAL''"
| "ToString UNKNOW = ''UNKNOW''"

text \<open>The macro of \<^verbatim>\<open>FromString\<close> puts \<^verbatim>\<open>#\<close> before arguments that are string literals already, so the text
  compared with has the quotes in it.\<close>

definition stringize :: "string \<Rightarrow> string" where
  "stringize s = CHR 0x22 # s @ [CHR 0x22]"

definition FromString :: "string \<Rightarrow> log_level" where
  "FromString str =
     (if str = stringize ''DEBUG'' \<or> str = stringize ''debug'' then DEBUG
      else if str = stringize ''INFO'' \<or> str = stringize ''info'' then INFO
      else if str = stringize ''warn'' \<or> str = stringize ''warn'' then WARN
      else if str = stringize ''ERROR'' \<or> str = stringize ''error'' then ERROR
      else if str = stringize ''FATAL'' \<or> str = stringize ''fatal'' then FATAL
      else UNKNOW)"

section \<open>Events and format items\<close>

record log_event =
  ev_file :: string
  ev_line :: "32 word"
  ev_elapse :: u32
  ev_threadId :: u32
  ev_fiberId :: u32
  ev_time :: u64
  ev_threadName :: string
  ev_content :: string
  ev_logger :: nat
  ev_level :: log_level

datatype log_error =
    Null_formatter
  | Indeterminate       \<comment> \<open>an uninitialised member is read, or an undefined buffer printed\<close>
  | Missing_return      \<comment> \<open>flowing off the end of a function that returns a value\<close>

datatype format_item =
    MessageFormatItem
  | LevelFormatItem
  | ElapseFormatItem
  | NameFormatItem
  | ThreadIdFormatItem
  | FiberIdFormatItem
  | ThreadNameFormatItem
  | DateTimeFormatItem string
  | FilenameFormatItem
  | LineFormatItem
  | NewLineFormatItem
  | StringFormatItem string
  | TabFormatItem

type_synonym strftime = "string \<Rightarrow> u64 \<Rightarrow> string option"

text \<open>The name is that of the event's logger, the level the one passed along.\<close>

fun item_format ::
  "strftime \<Rightarrow> (nat \<Rightarrow> string) \<Rightarrow> log_level \<Rightarrow> log_event \<Rightarrow> format_item \<Rightarrow> log_error + string" where
  "item_format tf name level ev MessageFormatItem = Inr (ev_content ev)"
| "item_format tf name level ev LevelFormatItem = Inr (ToString level)"
| "item_format tf name level ev ElapseFormatItem = Inr (dec (unat (ev_elapse ev)))"
| "item_format tf name level ev NameFormatItem = Inr (name (ev_logger ev))"
| "item_format tf name level ev ThreadIdFormatItem = Inr (dec (unat (ev_threadId ev)))"
| "item_format tf name level ev FiberIdFormatItem = Inr (dec (unat (ev_fiberId ev)))"
| "item_format tf name level ev ThreadNameFormatItem = Inr (ev_threadName ev)"
| "item_format tf name level ev (DateTimeFormatItem f) =
     (case tf (cstr f) (ev_time ev) of None \<Rightarrow> Inl Indeterminate | Some s \<Rightarrow> Inr s)"
| "item_format tf name level ev FilenameFormatItem = Inr (ev_file ev)"
| "item_format tf name level ev LineFormatItem = Inr (dec_int (sint (ev_line ev)))"
| "item_format tf name level ev NewLineFormatItem = Inr [CHR 0x0A]"
| "item_format tf name level ev (StringFormatItem s) = Inr s"
| "item_format tf name level ev TabFormatItem = Inr [CHR 0x09]"

fun items_format ::
  "strftime \<Rightarrow> (nat \<Rightarrow> string) \<Rightarrow> log_level \<Rightarrow> log_event \<Rightarrow> format_item list \<Rightarrow> log_error + string" where
  "items_format tf name level ev [] = Inr ''''"
| "items_format tf name level ev (i # is) =
     rbind (item_format tf name level ev i) (\<lambda>s.
     rbind (items_format tf name level ev is) (\<lambda>r. Inr (s @ r)))"

section \<open>Parsing a pattern\<close>

definition substr :: "string \<Rightarrow> nat \<Rightarrow> nat \<Rightarrow> string" where
  "substr s pos len = take len (drop pos s)"

definition isalpha :: "char \<Rightarrow> bool" where
  "isalpha c \<longleftrightarrow> of_char c \<in> {65..<91} \<union> {97..<123 :: nat}"

text \<open>
  The inner loop over the characters after a percent sign at \<open>i\<close>: the position \<open>n\<close>, whether a brace
  is open and where, the name and the format found. It returns the last four.
\<close>

function directive ::
  "string \<Rightarrow> nat \<Rightarrow> nat \<Rightarrow> bool \<Rightarrow> nat \<Rightarrow> string \<Rightarrow> string \<Rightarrow> nat \<times> bool \<times> string \<times> string" where
  "directive p i n fmt_status fmt_begin str fmt =
     (if length p \<le> n then (n, fmt_status, str, fmt)
      else if \<not> fmt_status \<and> \<not> isalpha (p ! n) \<and> p ! n \<noteq> CHR ''{'' \<and> p ! n \<noteq> CHR ''}''
      then (n, fmt_status, substr p (i + 1) (n - i - 1), fmt)
      else if \<not> fmt_status \<and> p ! n = CHR ''{''
      then directive p i (n + 1) True n (substr p (i + 1) (n - i - 1)) fmt
      else if fmt_status \<and> p ! n = CHR ''}''
      then (n + 1, False, str, substr p (fmt_begin + 1) (n - fmt_begin - 1))
      else directive p i (n + 1) fmt_status fmt_begin
             (if n + 1 = length p \<and> str = '''' then drop (i + 1) p else str) fmt)"
  by auto
termination
  by (relation "measure (\<lambda>(p, i, n, _). length p - n)") auto

declare directive.simps [simp del]

lemma directive_forward: "n \<le> fst (directive p i n st b str fmt)"
proof (induction p i n st b str fmt rule: directive.induct)
  case (1 p i n st b str fmt)
  note step = directive.simps [of p i n st b str fmt]
  consider "length p \<le> n" | "\<not> length p \<le> n" "\<not> st \<and> \<not> isalpha (p ! n) \<and> p ! n \<noteq> CHR ''{'' \<and> p ! n \<noteq> CHR ''}''"
    | "\<not> length p \<le> n" "\<not> (\<not> st \<and> \<not> isalpha (p ! n) \<and> p ! n \<noteq> CHR ''{'' \<and> p ! n \<noteq> CHR ''}'')" "\<not> st \<and> p ! n = CHR ''{''"
    | "\<not> length p \<le> n" "\<not> (\<not> st \<and> \<not> isalpha (p ! n) \<and> p ! n \<noteq> CHR ''{'' \<and> p ! n \<noteq> CHR ''}'')"
      "\<not> (\<not> st \<and> p ! n = CHR ''{'')" "st \<and> p ! n = CHR ''}''"
    | "\<not> length p \<le> n" "\<not> (\<not> st \<and> \<not> isalpha (p ! n) \<and> p ! n \<noteq> CHR ''{'' \<and> p ! n \<noteq> CHR ''}'')"
      "\<not> (\<not> st \<and> p ! n = CHR ''{'')" "\<not> (st \<and> p ! n = CHR ''}'')"
    by blast
  then show ?case
  proof cases
    case 3
    then have "directive p i n st b str fmt = directive p i (n + 1) True n (substr p (i + 1) (n - i - 1)) fmt"
      by (subst step) (simp only: if_True if_False simp_thms)
    then show ?thesis using 1(1) [OF 3] by simp
  next
    case 5
    then have "directive p i n st b str fmt = directive p i (n + 1) st b
        (if n + 1 = length p \<and> str = '''' then drop (i + 1) p else str) fmt"
      by (subst step) (simp only: if_False)
    then show ?thesis using 1(2) [OF 5] by simp
  qed (subst step; simp)+
qed

datatype piece = Plain string | Directive string string

text \<open>The outer loop, with the text collected so far; the flag is \<^verbatim>\<open>m_error\<close>.\<close>

definition flush :: "string \<Rightarrow> piece list" where
  "flush nstr = (if nstr = '''' then [] else [Plain nstr])"

function init_loop :: "string \<Rightarrow> nat \<Rightarrow> string \<Rightarrow> piece list \<Rightarrow> bool \<Rightarrow> piece list \<times> bool" where
  "init_loop p i nstr vec err =
     (if length p \<le> i then (vec @ flush nstr, err)
      else if p ! i \<noteq> CHR ''%'' then init_loop p (i + 1) (nstr @ [p ! i]) vec err
      else if i + 1 < length p \<and> p ! (i + 1) = CHR ''%'' then init_loop p (i + 1) (nstr @ ''%'') vec err
      else case directive p i (i + 1) False 0 '''' '''' of
             (n, fmt_status, str, fmt) \<Rightarrow>
               if \<not> fmt_status then init_loop p (n - 1 + 1) '''' (vec @ flush nstr @ [Directive str fmt]) err
               else init_loop p (i + 1) nstr (vec @ [Plain ''<<pattern_error>>'']) True)"
  by auto
termination
proof (relation "measure (\<lambda>(p, i, _). length p - i)")
  fix p nstr :: string and vec err i n y st z str fmt
  assume "\<not> length p \<le> i" and x: "(n, y) = directive p i (i + 1) False 0 '''' ''''"
    and "(st, z) = y" and "(str, fmt) = z"
  then have "i + 1 \<le> n" using directive_forward [of "i + 1" p i False 0 "''''" "''''"] by (metis fst_conv)
  then show "((p, n - 1 + 1, '''', vec @ flush nstr @ [Directive str fmt], err), p, i, nstr, vec, err)
      \<in> measure (\<lambda>(p, i, _). length p - i)"
    using \<open>\<not> length p \<le> i\<close> by auto
qed auto

declare init_loop.simps [simp del]

definition format_item_of :: "string \<Rightarrow> string \<Rightarrow> format_item option" where
  "format_item_of str fmt =
     (if str = ''m'' then Some MessageFormatItem
      else if str = ''p'' then Some LevelFormatItem
      else if str = ''r'' then Some ElapseFormatItem
      else if str = ''c'' then Some NameFormatItem
      else if str = ''t'' then Some ThreadIdFormatItem
      else if str = ''n'' then Some NewLineFormatItem
      else if str = ''d'' then Some (DateTimeFormatItem (if fmt = '''' then ''%Y-%m-%d %H:%M:%S'' else fmt))
      else if str = ''f'' then Some FilenameFormatItem
      else if str = ''l'' then Some LineFormatItem
      else if str = ''T'' then Some TabFormatItem
      else if str = ''F'' then Some FiberIdFormatItem
      else if str = ''N'' then Some ThreadNameFormatItem
      else None)"

fun piece_item :: "piece \<Rightarrow> format_item \<times> bool" where
  "piece_item (Plain s) = (StringFormatItem s, False)"
| "piece_item (Directive str fmt) =
     (case format_item_of str fmt of
        None \<Rightarrow> (StringFormatItem (''<<error_format %'' @ str @ ''>>''), True)
      | Some it \<Rightarrow> (it, False))"

record formatter =
  m_pattern :: string
  m_items :: "format_item list"
  m_error :: bool

text \<open>\<^verbatim>\<open>init\<close> appends to the items there are and never clears the error.\<close>

definition formatter_init :: "formatter \<Rightarrow> formatter" where
  "formatter_init f =
     (let (vec, err) = init_loop (m_pattern f) 0 '''' [] (m_error f)
      in f\<lparr>m_items := m_items f @ map (fst \<circ> piece_item) vec,
           m_error := err \<or> list_ex (snd \<circ> piece_item) vec\<rparr>)"

definition LogFormatter :: "string \<Rightarrow> formatter" where
  "LogFormatter pattern = formatter_init \<lparr>m_pattern = pattern, m_items = [], m_error = False\<rparr>"

definition formatter_reset :: "string \<Rightarrow> formatter \<Rightarrow> formatter" where
  "formatter_reset pattern f = formatter_init (f\<lparr>m_pattern := pattern\<rparr>)"

definition DEFAULT_FORMAT :: string where
  "DEFAULT_FORMAT = ''%d{%Y-%m-%d %H:%M:%S} %T%t%T%N%T%F%T[%p]%T[%c]%T%f:%l%T%m%n''"

end
