(* ===== verification/Logger.thy ===== *)
theory Logger
  imports Log_Format
begin

text \<open>
  \<^verbatim>\<open>src/src/log/logger.{h,cpp}\<close>, second part: appenders, loggers and the manager. Loggers, appenders
  and formatters are shared by pointer, so they live in stores under addresses; an address for each
  new object is an argument. \<^verbatim>\<open>m_hasFormatter\<close> has no initial value. Opening a file succeeds as the
  argument \<open>can_open\<close> says. Lines of diagnosis that the parser of patterns and \<^verbatim>\<open>setFormatter\<close> put on
  standard output are not modelled.
\<close>

section \<open>State\<close>

datatype sink = Stdout | File string bool   \<comment> \<open>path and whether the stream is open\<close>

record appender =
  ap_sink :: sink
  ap_hasFormatter :: "bool option"
  ap_formatter :: "nat option"
  ap_level :: log_level

record logger =
  lg_name :: string
  lg_level :: log_level
  lg_appenders :: "nat list"
  lg_formatter :: "nat option"
  lg_root :: "nat option"

record log_world =
  loggers :: "nat \<Rightarrow> logger"
  appenders :: "nat \<Rightarrow> appender"
  formatters :: "nat \<Rightarrow> formatter"
  stdout :: string
  files :: "string \<Rightarrow> string"
  m_root :: nat
  m_loggers :: "string \<rightharpoonup> nat"

definition upd_logger :: "nat \<Rightarrow> (logger \<Rightarrow> logger) \<Rightarrow> log_world \<Rightarrow> log_world" where
  "upd_logger l f w = w\<lparr>loggers := (loggers w)(l := f (loggers w l))\<rparr>"

definition upd_appender :: "nat \<Rightarrow> (appender \<Rightarrow> appender) \<Rightarrow> log_world \<Rightarrow> log_world" where
  "upd_appender a f w = w\<lparr>appenders := (appenders w)(a := f (appenders w a))\<rparr>"

section \<open>Appenders\<close>

definition StdoutLogAppender :: appender where
  "StdoutLogAppender = \<lparr>ap_sink = Stdout, ap_hasFormatter = None, ap_formatter = None, ap_level = DEBUG\<rparr>"

definition FileLogAppender :: "(string \<Rightarrow> bool) \<Rightarrow> string \<Rightarrow> appender" where
  "FileLogAppender can_open path =
     \<lparr>ap_sink = File path (can_open path), ap_hasFormatter = None, ap_formatter = None, ap_level = DEBUG\<rparr>"

definition appender_setFormatter :: "nat option \<Rightarrow> appender \<Rightarrow> appender" where
  "appender_setFormatter val a = a\<lparr>ap_formatter := val, ap_hasFormatter := Some (val \<noteq> None)\<rparr>"

text \<open>The text an appender writes for an event, with the formatter it points to.\<close>

definition logger_name :: "log_world \<Rightarrow> nat \<Rightarrow> string" where
  "logger_name w l = lg_name (loggers w l)"

definition event_text ::
  "strftime \<Rightarrow> log_world \<Rightarrow> log_level \<Rightarrow> log_event \<Rightarrow> nat \<Rightarrow> log_error + string" where
  "event_text tf w level ev f = items_format tf (logger_name w) level ev (m_items (formatters w f))"

text \<open>
  \<^verbatim>\<open>log\<close> of the two appenders. The file appender reopens a stream that is not open by a function
  that returns no value, and asks neither for the formatter nor for the level.
\<close>

definition appender_log ::
  "strftime \<Rightarrow> log_level \<Rightarrow> log_event \<Rightarrow> nat \<Rightarrow> log_world \<Rightarrow> log_error + log_world" where
  "appender_log tf level ev a w =
     (let ap = appenders w a
      in case ap_sink ap of
           Stdout \<Rightarrow>
             (case ap_formatter ap of None \<Rightarrow> Inr w
              | Some f \<Rightarrow> if ap_level ap \<le> level
                         then rbind (event_text tf w level ev f) (\<lambda>s. Inr (w\<lparr>stdout := stdout w @ s\<rparr>))
                         else Inr w)
         | File path open_now \<Rightarrow>
             if \<not> open_now then Inl Missing_return
             else case ap_formatter ap of None \<Rightarrow> Inl Null_formatter
                  | Some f \<Rightarrow> rbind (event_text tf w level ev f)
                      (\<lambda>s. Inr (w\<lparr>files := (files w)(path := files w path @ s)\<rparr>)))"

section \<open>Loggers\<close>

definition Logger_new :: "nat \<Rightarrow> nat \<Rightarrow> string \<Rightarrow> log_world \<Rightarrow> log_world" where
  "Logger_new l f name w =
     w\<lparr>formatters := (formatters w)(f := LogFormatter DEFAULT_FORMAT),
       loggers := (loggers w)(l := \<lparr>lg_name = name, lg_level = DEBUG, lg_appenders = [],
                                    lg_formatter = Some f, lg_root = None\<rparr>)\<rparr>"

primrec give_formatter :: "nat option \<Rightarrow> nat list \<Rightarrow> log_world \<Rightarrow> log_error + log_world" where
  "give_formatter val [] w = Inr w"
| "give_formatter val (a # as) w =
     (case ap_hasFormatter (appenders w a) of
        None \<Rightarrow> Inl Indeterminate
      | Some has \<Rightarrow> give_formatter val as
          (if \<not> has then upd_appender a (\<lambda>ap. ap\<lparr>ap_formatter := val\<rparr>) w else w))"

definition logger_setFormatter :: "nat \<Rightarrow> nat option \<Rightarrow> log_world \<Rightarrow> log_error + log_world" where
  "logger_setFormatter l val w =
     give_formatter val (lg_appenders (loggers w l)) (upd_logger l (\<lambda>g. g\<lparr>lg_formatter := val\<rparr>) w)"

definition setFormatter_pattern :: "nat \<Rightarrow> nat \<Rightarrow> string \<Rightarrow> log_world \<Rightarrow> log_error + log_world" where
  "setFormatter_pattern l f val w =
     (let new_formatter = LogFormatter val
      in if m_error new_formatter then Inr w
         else logger_setFormatter l (Some f) (w\<lparr>formatters := (formatters w)(f := new_formatter)\<rparr>))"

definition addAppender :: "nat \<Rightarrow> nat \<Rightarrow> log_world \<Rightarrow> log_world" where
  "addAppender l a w =
     (let w1 = (if ap_formatter (appenders w a) = None
                then upd_appender a (\<lambda>ap. ap\<lparr>ap_formatter := lg_formatter (loggers w l)\<rparr>) w else w)
      in upd_logger l (\<lambda>g. g\<lparr>lg_appenders := lg_appenders g @ [a]\<rparr>) w1)"

definition delAppender :: "nat \<Rightarrow> nat \<Rightarrow> log_world \<Rightarrow> log_world" where
  "delAppender l a w = upd_logger l (\<lambda>g. g\<lparr>lg_appenders := remove1 a (lg_appenders g)\<rparr>) w"

definition clearAppenders :: "nat \<Rightarrow> log_world \<Rightarrow> log_world" where
  "clearAppenders l w = upd_logger l (\<lambda>g. g\<lparr>lg_appenders := []\<rparr>) w"

definition setLevel :: "nat \<Rightarrow> log_level \<Rightarrow> log_world \<Rightarrow> log_world" where
  "setLevel l val w = upd_logger l (\<lambda>g. g\<lparr>lg_level := val\<rparr>) w"

text \<open>
  \<^verbatim>\<open>Logger::log\<close>, which passes the event to the root when there is no appender. The recursion
  follows \<^verbatim>\<open>m_root\<close>, each time under the lock of that logger; \<open>None\<close> means the fuel did not suffice.
\<close>

primrec log_all ::
  "strftime \<Rightarrow> log_level \<Rightarrow> log_event \<Rightarrow> nat list \<Rightarrow> log_world \<Rightarrow> log_error + log_world" where
  "log_all tf level ev [] w = Inr w"
| "log_all tf level ev (a # as) w = rbind (appender_log tf level ev a w) (log_all tf level ev as)"

fun logger_log ::
  "strftime \<Rightarrow> nat \<Rightarrow> nat \<Rightarrow> log_level \<Rightarrow> log_event \<Rightarrow> log_world \<Rightarrow> (log_error + log_world) option" where
  "logger_log tf 0 l level ev w = None"
| "logger_log tf (Suc fuel) l level ev w =
     (let g = loggers w l
      in if \<not> lg_level g \<le> level then Some (Inr w)
         else if lg_appenders g \<noteq> [] then Some (log_all tf level ev (lg_appenders g) w)
         else case lg_root g of None \<Rightarrow> Some (Inr w) | Some r \<Rightarrow> logger_log tf fuel r level ev w)"

text \<open>The logging macro: an event of this logger and level with this content, when the level suffices.\<close>

definition stream_log ::
  "strftime \<Rightarrow> nat \<Rightarrow> nat \<Rightarrow> log_level \<Rightarrow> log_event \<Rightarrow> string \<Rightarrow> log_world \<Rightarrow> (log_error + log_world) option" where
  "stream_log tf fuel l level here content w =
     (if lg_level (loggers w l) \<le> level
      then logger_log tf fuel l level (here\<lparr>ev_logger := l, ev_level := level, ev_elapse := 0, ev_content := content\<rparr>) w
      else Some (Inr w))"

text \<open>
  The pieces of the macro: making an event, printf-style text appended to it (\<^verbatim>\<open>vasprintf\<close> is an
  argument; \<open>None\<close> is its -1), and the destructor of \<^verbatim>\<open>LogEventWrap\<close>, which logs it.
\<close>

definition LogEvent ::
  "nat \<Rightarrow> log_level \<Rightarrow> string \<Rightarrow> 32 word \<Rightarrow> u32 \<Rightarrow> u32 \<Rightarrow> u32 \<Rightarrow> u64 \<Rightarrow> string \<Rightarrow> log_event" where
  "LogEvent l level file line elapse thread_num fiber_num time thread_name =
     \<lparr>ev_file = file, ev_line = line, ev_elapse = elapse, ev_threadId = thread_num, ev_fiberId = fiber_num,
      ev_time = time, ev_threadName = thread_name, ev_content = '''', ev_logger = l, ev_level = level\<rparr>"

definition event_format :: "(string \<Rightarrow> 'a \<Rightarrow> string option) \<Rightarrow> string \<Rightarrow> 'a \<Rightarrow> log_event \<Rightarrow> log_event" where
  "event_format vasprintf fmt al ev =
     (case vasprintf fmt al of None \<Rightarrow> ev | Some buf \<Rightarrow> ev\<lparr>ev_content := ev_content ev @ buf\<rparr>)"

definition wrap_destroy :: "strftime \<Rightarrow> nat \<Rightarrow> log_event \<Rightarrow> log_world \<Rightarrow> (log_error + log_world) option" where
  "wrap_destroy tf fuel ev w = logger_log tf fuel (ev_logger ev) (ev_level ev) ev w"

text \<open>\<^verbatim>\<open>Logger::debug\<close> to \<^verbatim>\<open>Logger::fatal\<close>: the level of the method, whatever that of the event is.\<close>

definition logger_debug :: "strftime \<Rightarrow> nat \<Rightarrow> nat \<Rightarrow> log_event \<Rightarrow> log_world \<Rightarrow> (log_error + log_world) option" where
  "logger_debug tf fuel l ev w = logger_log tf fuel l DEBUG ev w"

definition logger_info :: "strftime \<Rightarrow> nat \<Rightarrow> nat \<Rightarrow> log_event \<Rightarrow> log_world \<Rightarrow> (log_error + log_world) option" where
  "logger_info tf fuel l ev w = logger_log tf fuel l INFO ev w"

definition logger_warn :: "strftime \<Rightarrow> nat \<Rightarrow> nat \<Rightarrow> log_event \<Rightarrow> log_world \<Rightarrow> (log_error + log_world) option" where
  "logger_warn tf fuel l ev w = logger_log tf fuel l WARN ev w"

definition logger_error :: "strftime \<Rightarrow> nat \<Rightarrow> nat \<Rightarrow> log_event \<Rightarrow> log_world \<Rightarrow> (log_error + log_world) option" where
  "logger_error tf fuel l ev w = logger_log tf fuel l ERROR ev w"

definition logger_fatal :: "strftime \<Rightarrow> nat \<Rightarrow> nat \<Rightarrow> log_event \<Rightarrow> log_world \<Rightarrow> (log_error + log_world) option" where
  "logger_fatal tf fuel l ev w = logger_log tf fuel l FATAL ev w"

lemma stream_log_wrap:
  "lg_level (loggers w l) \<le> level \<Longrightarrow>
    stream_log tf fuel l level (LogEvent l' level' f n e th fb t tn) content w =
      wrap_destroy tf fuel ((LogEvent l level f n 0 th fb t tn)\<lparr>ev_content := content\<rparr>) w"
  by (simp add: stream_log_def wrap_destroy_def LogEvent_def)

section \<open>The manager\<close>

definition LoggerManager :: "nat \<Rightarrow> nat \<Rightarrow> nat \<Rightarrow> log_world \<Rightarrow> log_world" where
  "LoggerManager l f a w =
     (let w1 = Logger_new l f ''root'' (w\<lparr>m_root := l\<rparr>);
          w2 = addAppender l a (w1\<lparr>appenders := (appenders w1)(a := StdoutLogAppender)\<rparr>)
      in w2\<lparr>m_loggers := [''root'' \<mapsto> l]\<rparr>)"

definition addLogger :: "nat \<Rightarrow> nat \<Rightarrow> string \<Rightarrow> log_world \<Rightarrow> nat \<times> log_world" where
  "addLogger l f name w =
     (case m_loggers w name of
        Some g \<Rightarrow> (g, w)
      | None \<Rightarrow>
          let w1 = upd_logger l (\<lambda>g. g\<lparr>lg_root := Some (m_root w)\<rparr>) (Logger_new l f name w)
          in (l, w1\<lparr>m_loggers := (m_loggers w1)(name \<mapsto> l)\<rparr>))"

definition getRoot :: "log_world \<Rightarrow> nat" where
  "getRoot w = m_root w"

end
