(* ===== verification/Log_Format_Facts.thy ===== *)
theory Log_Format_Facts
  imports Log_Format
begin

text \<open>
  What the parser of patterns computes: a description by recursion on the text that follows, the
  equality of the index-based loops with it, and patterns rendered from pieces that parse back.
\<close>

section \<open>The parser on lists\<close>

definition name_char :: "char \<Rightarrow> bool" where
  "name_char c \<longleftrightarrow> isalpha c \<or> c = CHR ''}''"

definition with_pieces :: "piece list \<Rightarrow> bool \<Rightarrow> piece list \<times> bool \<Rightarrow> piece list \<times> bool" where
  "with_pieces ps e r = (ps @ fst r, e \<or> snd r)"

function parse :: "string \<Rightarrow> string \<Rightarrow> piece list \<times> bool" where
  "parse nstr [] = (flush nstr, False)"
| "parse nstr (c # cs) =
     (if c \<noteq> CHR ''%'' then parse (nstr @ [c]) cs
      else if cs \<noteq> [] \<and> hd cs = CHR ''%'' then parse (nstr @ ''%'') cs
      else let w = takeWhile name_char cs; rest = dropWhile name_char cs
           in if rest \<noteq> [] \<and> hd rest = CHR ''{''
              then (case cut (CHR ''}'') (tl rest) of
                      Some (f, t) \<Rightarrow> with_pieces (flush nstr @ [Directive w f]) False (parse '''' t)
                    | None \<Rightarrow> with_pieces [Plain ''<<pattern_error>>''] True (parse nstr cs))
              else with_pieces (flush nstr @ [Directive w '''']) False (parse '''' rest))"
  by pat_completeness auto
termination
proof (relation "measure (\<lambda>(nstr, s). length s)")
  fix nstr cs rest f t y and c :: char
  assume rest: "rest = dropWhile name_char cs" and "cut (CHR ''}'') (tl rest) = Some y" "(f, t) = y"
  then have "tl rest = f @ CHR ''}'' # t" by (auto simp: cut_Some)
  then have "length (tl rest) = length f + Suc (length t)" by simp
  moreover have "length rest \<le> length cs" unfolding rest by (rule length_dropWhile_le)
  ultimately show "(('''', t), nstr, c # cs) \<in> measure (\<lambda>(nstr, s). length s)" by simp
next
  fix nstr cs rest and c :: char
  assume rest: "rest = dropWhile name_char cs"
  have "length rest \<le> length cs" unfolding rest by (rule length_dropWhile_le)
  then show "(('''', rest), nstr, c # cs) \<in> measure (\<lambda>(nstr, s). length s)" by simp
qed auto

declare parse.simps(2) [simp del]

section \<open>The loops compute it\<close>

lemma name_char_cases:
  "name_char c \<longleftrightarrow> \<not> (\<not> isalpha c \<and> c \<noteq> CHR ''{'' \<and> c \<noteq> CHR ''}'') \<and> c \<noteq> CHR ''{''"
  by (auto simp: name_char_def isalpha_def)

text \<open>Inside a brace.\<close>

lemma directive_brace:
  assumes "b < n" and "n \<le> length p"
  shows "directive p i n True b str fmt =
    (case cut (CHR ''}'') (drop n p) of
       Some (f, t) \<Rightarrow> (length p - length t, False, str, substr p (b + 1) (n - b - 1) @ f)
     | None \<Rightarrow> (length p, True, if str = '''' \<and> n < length p then drop (i + 1) p else str, fmt))"
  using assms
proof (induction "drop n p" arbitrary: n)
  case Nil
  then show ?case by (simp add: directive.simps)
next
  case (Cons x xs)
  from Cons(2) [symmetric] have d: "n < length p" "p ! n = x" "drop (Suc n) p = xs" "drop n p = x # xs"
    by (auto dest: drop_ConsD)
  have sub: "substr p (b + 1) (Suc n - b - 1) = substr p (b + 1) (n - b - 1) @ [x]"
  proof -
    have "Suc n - b - 1 = Suc (n - b - 1)" using Cons(3) by simp
    moreover have "drop (b + 1) p ! (n - b - 1) = x" "n - b - 1 < length (drop (b + 1) p)"
      using Cons(3) d(1,2) by simp_all
    ultimately show ?thesis by (simp only: substr_def take_Suc_conv_app_nth)
  qed
  show ?case
  proof (cases "x = CHR ''}''")
    case True
    then show ?thesis
      using d by (subst directive.simps) (simp add: Suc_diff_Suc flip: d(3))
  next
    case False
    let ?s = "if Suc n = length p \<and> str = '''' then drop (i + 1) p else str"
    have "directive p i n True b str fmt = directive p i (Suc n) True b str fmt" if "Suc n < length p"
      using d False that by (subst directive.simps) simp
    moreover have "directive p i n True b str fmt = (length p, True, ?s, fmt)" if "Suc n = length p"
      using d False that by (subst directive.simps) (simp add: directive.simps)
    moreover have "xs = []" if "Suc n = length p" using d(3) that by simp
    moreover have "b < Suc n" "Suc n \<le> length p" using Cons(3) d(1) by simp_all
    ultimately show ?thesis
      using Cons(1) [of "Suc n"] d False sub
      by (cases "Suc n = length p") (auto split: option.splits)
  qed
qed

text \<open>In the name, with no brace open.\<close>

lemma directive_name:
  assumes "i < n" and "n \<le> length p" and "str = (if n = length p then drop (i + 1) p else '''')"
  shows "directive p i n False b str fmt =
    (let w = substr p (i + 1) (n - i - 1) @ takeWhile name_char (drop n p);
         rest = dropWhile name_char (drop n p)
     in if rest \<noteq> [] \<and> hd rest = CHR ''{''
        then directive p i (length p - length rest + 1) True (length p - length rest) w fmt
        else (length p - length rest, False, w, fmt))"
  using assms
proof (induction "drop n p" arbitrary: n str)
  case Nil
  then have "n = length p" by simp
  moreover have "substr p (i + 1) (length p - i - 1) = drop (i + 1) p"
    by (simp add: substr_def)
  ultimately show ?case using Nil by (simp add: directive.simps)
next
  case (Cons x xs)
  from Cons(2) [symmetric] have d: "n < length p" "p ! n = x" "drop (Suc n) p = xs" "drop n p = x # xs"
    by (auto dest: drop_ConsD)
  have str: "str = ''''" using Cons(5) d(1) by simp
  have sub: "substr p (i + 1) (Suc n - i - 1) = substr p (i + 1) (n - i - 1) @ [x]"
  proof -
    have "Suc n - i - 1 = Suc (n - i - 1)" using Cons(3) by simp
    moreover have "drop (i + 1) p ! (n - i - 1) = x" "n - i - 1 < length (drop (i + 1) p)"
      using Cons(3) d(1,2) by simp_all
    ultimately show ?thesis by (simp only: substr_def take_Suc_conv_app_nth)
  qed
  have len: "length p - length (x # xs) = n" using d(1) by (simp add: Suc_diff_Suc flip: d(3))
  show ?case
  proof (cases "name_char x")
    case False
    then show ?thesis
      using d str len by (subst directive.simps) (auto simp: name_char_def Let_def)
  next
    case True
    let ?s = "if Suc n = length p then drop (i + 1) p else ''''"
    have x: "\<not> (\<not> isalpha x \<and> x \<noteq> CHR ''{'' \<and> x \<noteq> CHR ''}'')" "x \<noteq> CHR ''{''"
      using True by (auto simp: name_char_def isalpha_def)
    have "directive p i n False b str fmt = directive p i (Suc n) False b ?s fmt"
      using d x str by (subst directive.simps) auto
    then show ?thesis
      using Cons(1) [of "Suc n" ?s] Cons(3) d True sub by (simp add: Let_def)
  qed
qed

lemma init_loop_directive:
  assumes "\<not> length p \<le> i" and "p ! i = CHR ''%''" and "\<not> (i + 1 < length p \<and> p ! (i + 1) = CHR ''%'')"
    and "directive p i (i + 1) False 0 '''' '''' = (n, fmt_status, str, fmt)"
  shows "init_loop p i nstr vec err =
    (if \<not> fmt_status then init_loop p (n - 1 + 1) '''' (vec @ flush nstr @ [Directive str fmt]) err
     else init_loop p (i + 1) nstr (vec @ [Plain ''<<pattern_error>>'']) True)"
  using assms by (subst init_loop.simps) (simp only: if_False not_True_eq_False simp_thms prod.case)

lemma init_loop_parse:
  "i \<le> length p \<Longrightarrow> init_loop p i nstr vec err = with_pieces vec err (parse nstr (drop i p))"
proof (induction p i nstr vec err rule: init_loop.induct)
  case (1 p i nstr vec err)
  show ?case
  proof (cases "drop i p")
    case Nil
    then show ?thesis using 1(5) by (subst init_loop.simps) (simp add: with_pieces_def)
  next
    case (Cons c cs)
    note d = drop_ConsD [OF Cons]
    have le: "\<not> length p \<le> i" "Suc i \<le> length p" using d(1) by simp_all
    have hd: "i + 1 < length p \<and> p ! (i + 1) = CHR ''%'' \<longleftrightarrow> cs \<noteq> [] \<and> hd cs = CHR ''%''"
      using d(3) by (cases "Suc i < length p") (auto simp: hd_drop_conv_nth)
    consider (plain) "p ! i \<noteq> CHR ''%''"
      | (double) "p ! i = CHR ''%''" "cs \<noteq> [] \<and> hd cs = CHR ''%''"
      | (direct) "p ! i = CHR ''%''" "\<not> (cs \<noteq> [] \<and> hd cs = CHR ''%'')"
      by blast
    then show ?thesis
    proof cases
      case plain
      then show ?thesis
        using 1(1) [OF le(1) plain] le d Cons by (subst init_loop.simps) (simp add: parse.simps)
    next
      case double
      then show ?thesis
        using 1(2) [OF le(1)] hd le d Cons by (subst init_loop.simps) (simp add: parse.simps)
    next
      case direct
      have no: "\<not> p ! i \<noteq> CHR ''%''" "\<not> (i + 1 < length p \<and> p ! (i + 1) = CHR ''%'')"
        using direct hd by blast+
      let ?w = "takeWhile name_char cs" and ?rest = "dropWhile name_char cs"
      have split: "drop (Suc i + length ?w) p = ?rest"
        using d(3) le(2) by (metis drop_suffix takeWhile_dropWhile_id)
      have pos: "length p - length ?rest = Suc i + length ?w" "length ?rest \<le> length p"
      proof -
        have "length cs = length ?w + length ?rest" by (metis length_append takeWhile_dropWhile_id)
        moreover have "length cs + Suc i = length p" using d(3) le(2) by auto
        ultimately show "length p - length ?rest = Suc i + length ?w" "length ?rest \<le> length p" by linarith+
      qed
      have dir: "directive p i (i + 1) False 0 '''' '''' =
          (if ?rest \<noteq> [] \<and> hd ?rest = CHR ''{''
           then directive p i (length p - length ?rest + 1) True (length p - length ?rest) ?w ''''
           else (length p - length ?rest, False, ?w, ''''))"
        using directive_name [of i "i + 1" p "''''" 0 "''''"] le d(3) by (auto simp: Let_def substr_def)
      show ?thesis
      proof (cases "?rest \<noteq> [] \<and> hd ?rest = CHR ''{''")
        case False
        have run: "directive p i (i + 1) False 0 '''' '''' = (Suc i + length ?w, False, ?w, '''')"
          using dir False pos by auto
        have "init_loop p i nstr vec err = init_loop p (Suc i + length ?w) '''' (vec @ flush nstr @ [Directive ?w '''']) err"
          using init_loop_directive [OF le(1) direct(1) no(2) run, of nstr vec err] by simp
        also have "\<dots> = with_pieces (vec @ flush nstr @ [Directive ?w '''']) err (parse '''' ?rest)"
          using 1(3) [OF le(1) no run [symmetric] refl refl] pos split by simp
        finally show ?thesis
          using direct False by (auto simp: Cons parse.simps(2) d(2) with_pieces_def Let_def)
      next
        case True
        then obtain r where r: "?rest = CHR ''{'' # r" by (cases ?rest) auto
        let ?b = "Suc i + length ?w"
        have rd: "drop (Suc ?b) p = r" "?b < length p" using drop_ConsD [OF split [unfolded r]] by simp_all
        have brace: "directive p i (Suc ?b) True ?b ?w '''' =
            (case cut (CHR ''}'') r of
               Some (f, t) \<Rightarrow> (length p - length t, False, ?w, f)
             | None \<Rightarrow> (length p, True, if ?w = '''' \<and> Suc ?b < length p then drop (i + 1) p else ?w, ''''))"
          using directive_brace [of ?b "Suc ?b" p i ?w "''''"] rd
          by (cases "cut (CHR ''}'') r") (auto simp: substr_def)
        have dir2: "directive p i (i + 1) False 0 '''' '''' =
            (case cut (CHR ''}'') r of
               Some (f, t) \<Rightarrow> (length p - length t, False, ?w, f)
             | None \<Rightarrow> (length p, True, if ?w = '''' \<and> Suc ?b < length p then drop (i + 1) p else ?w, ''''))"
          unfolding brace [symmetric] using dir True pos(1) by simp
        show ?thesis
        proof (cases "cut (CHR ''}'') r")
          case None
          obtain s where run: "directive p i (i + 1) False 0 '''' '''' = (length p, True, s, '''')"
            using dir2 None by auto
          have "init_loop p i nstr vec err = init_loop p (Suc i) nstr (vec @ [Plain ''<<pattern_error>>'']) True"
            using init_loop_directive [OF le(1) direct(1) no(2) run, of nstr vec err] by simp
          also have "\<dots> = with_pieces (vec @ [Plain ''<<pattern_error>>'']) True (parse nstr cs)"
            using 1(4) [OF le(1) no run [symmetric] refl refl] le d(3) by simp
          finally show ?thesis
            using direct True r None by (auto simp: Cons parse.simps(2) d(2) with_pieces_def Let_def)
        next
          case (Some ft)
          obtain f t where ft: "ft = (f, t)" by fastforce
          have run: "directive p i (i + 1) False 0 '''' '''' = (length p - length t, False, ?w, f)"
            using dir2 Some ft by simp
          have rt: "r = f @ CHR ''}'' # t" using Some ft by (simp add: cut_Some)
          have t: "drop (length p - length t) p = t" "length p - length t = Suc (length p - length t - 1)"
          proof -
            have "drop (Suc ?b + length (f @ [CHR ''}''])) p = t"
              using rd rt drop_suffix [of "Suc ?b" p "f @ [CHR ''}'']" t] by simp
            moreover have "length p - length t = Suc ?b + length (f @ [CHR ''}''])"
              using arg_cong [OF rd(1), of length] rd(2) rt by simp
            ultimately show "drop (length p - length t) p = t" "length p - length t = Suc (length p - length t - 1)"
              by simp_all
          qed
          have "init_loop p i nstr vec err = init_loop p (length p - length t) '''' (vec @ flush nstr @ [Directive ?w f]) err"
            using init_loop_directive [OF le(1) direct(1) no(2) run, of nstr vec err] t(2) by simp
          also have "\<dots> = with_pieces (vec @ flush nstr @ [Directive ?w f]) err (parse '''' t)"
            using 1(3) [OF le(1) no run [symmetric] refl refl] t by simp
          finally show ?thesis
            using direct True r Some ft by (auto simp: Cons parse.simps(2) d(2) with_pieces_def Let_def)
        qed
      qed
    qed
  qed
qed

section \<open>Patterns written from pieces\<close>

fun render :: "piece \<Rightarrow> string" where
  "render (Plain s) = s"
| "render (Directive w f) = ''%'' @ w @ (if f = '''' then '''' else ''{'' @ f @ ''}'')"

definition pattern_of :: "piece list \<Rightarrow> string" where
  "pattern_of ps = concat (map render ps)"

definition ends_name :: "string \<Rightarrow> bool" where
  "ends_name s \<longleftrightarrow> s = '''' \<or> \<not> name_char (hd s) \<and> hd s \<noteq> CHR ''{''"

definition starts_plain :: "piece list \<Rightarrow> bool" where
  "starts_plain ps \<longleftrightarrow> (case ps of Plain s # qs \<Rightarrow> True | _ \<Rightarrow> False)"

text \<open>
  Pieces that can be told apart: texts without percent signs, never two in a row; names of letters;
  a directive without a format is followed by something that ends the name.
\<close>

fun separable :: "piece list \<Rightarrow> bool" where
  "separable [] \<longleftrightarrow> True"
| "separable (Plain s # ps) \<longleftrightarrow> s \<noteq> '''' \<and> CHR ''%'' \<notin> set s \<and> \<not> starts_plain ps \<and> separable ps"
| "separable (Directive w f # ps) \<longleftrightarrow> w \<noteq> '''' \<and> (\<forall>c \<in> set w. isalpha c) \<and> CHR ''}'' \<notin> set f \<and>
     (f = '''' \<longrightarrow> ends_name (pattern_of ps)) \<and> separable ps"

lemma isalpha_not: "isalpha c \<Longrightarrow> c \<noteq> CHR ''%'' \<and> c \<noteq> CHR ''{'' \<and> c \<noteq> CHR ''}'' \<and> name_char c"
  by (auto simp: isalpha_def name_char_def)

lemma parse_text: "CHR ''%'' \<notin> set s \<Longrightarrow> parse nstr (s @ rest) = parse (nstr @ s) rest"
proof (induction s arbitrary: nstr)
  case (Cons a s)
  then have "a \<noteq> CHR ''%''" by auto
  then show ?case using Cons by (simp add: parse.simps(2))
qed simp

lemma name_split:
  assumes "\<forall>c \<in> set w. isalpha c" and "rest = '''' \<or> \<not> name_char (hd rest)"
  shows "takeWhile name_char (w @ rest) = w" and "dropWhile name_char (w @ rest) = rest"
proof -
  have w: "\<And>c. c \<in> set w \<Longrightarrow> name_char c" using assms(1) isalpha_not by blast
  have "takeWhile name_char rest = ''''" "dropWhile name_char rest = rest"
    using assms(2) by (cases rest; simp)+
  then show "takeWhile name_char (w @ rest) = w" "dropWhile name_char (w @ rest) = rest"
    using w by (simp_all add: takeWhile_append dropWhile_append)
qed

lemma parse_directive:
  assumes "w \<noteq> ''''" and "\<forall>c \<in> set w. isalpha c" and "CHR ''}'' \<notin> set f" and "f = '''' \<longrightarrow> ends_name rest"
  shows "parse nstr (render (Directive w f) @ rest) = with_pieces (flush nstr @ [Directive w f]) False (parse '''' rest)"
proof -
  have hd: "hd (w @ r) \<noteq> CHR ''%''" for r using assms(1,2) isalpha_not by (cases w) auto
  show ?thesis
  proof (cases "f = ''''")
    case True
    then have "rest = '''' \<or> \<not> name_char (hd rest)" "\<not> (rest \<noteq> '''' \<and> hd rest = CHR ''{'')"
      using assms(4) by (auto simp: ends_name_def)
    then show ?thesis
      using True assms(1,2) hd [of rest] name_split [of w rest] by (auto simp: parse.simps(2) Let_def)
  next
    case False
    have "\<not> name_char (CHR ''{'')" by (simp add: name_char_def isalpha_def)
    then show ?thesis
      using False assms(1-3) hd [of "CHR ''{'' # f @ CHR ''}'' # rest"]
        name_split [of w "CHR ''{'' # f @ CHR ''}'' # rest"]
      by (simp add: parse.simps(2) Let_def cut_append)
  qed
qed

lemma parse_pattern:
  "separable ps \<Longrightarrow> nstr = '''' \<or> \<not> starts_plain ps \<Longrightarrow> parse nstr (pattern_of ps) = (flush nstr @ ps, False)"
proof (induction ps arbitrary: nstr rule: separable.induct)
  case 1
  then show ?case by (simp add: pattern_of_def)
next
  case (2 s ps)
  then have "nstr = ''''" by (simp add: starts_plain_def)
  then show ?case
    using 2 parse_text [of s "''''" "pattern_of ps"] by (simp add: pattern_of_def flush_def)
next
  case (3 w f ps)
  then show ?case
    using parse_directive [of w f "pattern_of ps" nstr] by (simp add: pattern_of_def with_pieces_def flush_def)
qed

end
