(* ===== verification/Logger_Properties.thy ===== *)
theory Logger_Properties
  imports Logger Log_Format_Facts
begin

text \<open>
  The properties of the log formatter, of the appenders and of the loggers of the manager.
\<close>

section \<open>Patterns\<close>

text \<open>C28. The loops of \<^verbatim>\<open>LogFormatter::init\<close> over positions of the pattern compute, for every pattern,
  what the recursive description \<open>parse\<close> of its text does: the same pieces and the same error
  flag.\<close>

theorem init_is_parse:
  "init_loop p 0 '''' [] err = (fst (parse '''' p), err \<or> snd (parse '''' p))"
  by (simp add: init_loop_parse with_pieces_def)

lemma LogFormatter_pattern:
  "separable ps \<Longrightarrow> LogFormatter (pattern_of ps) =
    \<lparr>m_pattern = pattern_of ps, m_items = map (fst \<circ> piece_item) ps, m_error = list_ex (snd \<circ> piece_item) ps\<rparr>"
  by (simp add: LogFormatter_def formatter_init_def init_loop_parse parse_pattern with_pieces_def flush_def)

text \<open>C40. A pattern written from texts and directives that can be told apart is parsed back into
  exactly their items, with an error exactly when a directive is unknown. But a doubled percent
  sign before a directive, meant as an escape, gives a percent sign and then the directive all the
  same.\<close>

theorem pattern_roundtrip:
  assumes "separable ps"
  shows "m_items (LogFormatter (pattern_of ps)) = map (fst \<circ> piece_item) ps \<and>
         m_error (LogFormatter (pattern_of ps)) = list_ex (snd \<circ> piece_item) ps \<and>
         (\<forall>w f qs. ps = Directive w f # qs \<longrightarrow>
            m_items (LogFormatter (''%'' @ pattern_of ps)) = StringFormatItem ''%'' # map (fst \<circ> piece_item) ps)"
proof (intro conjI allI impI)
  fix w f qs
  assume ps: "ps = Directive w f # qs"
  then have "parse '''' (''%'' @ pattern_of ps) = parse ''%'' (pattern_of ps)"
    by (simp add: pattern_of_def parse.simps(2))
  moreover have "parse ''%'' (pattern_of ps) = (Plain ''%'' # ps, False)"
    using parse_pattern [OF assms, of "''%''"] ps by (simp add: starts_plain_def flush_def)
  ultimately show "m_items (LogFormatter (''%'' @ pattern_of ps)) = StringFormatItem ''%'' # map (fst \<circ> piece_item) ps"
    by (simp add: LogFormatter_def formatter_init_def init_loop_parse with_pieces_def del: append_Cons)
qed (simp_all add: LogFormatter_pattern [OF assms])

definition default_pieces :: "piece list" where
  "default_pieces =
     [Directive ''d'' ''%Y-%m-%d %H:%M:%S'', Plain '' '', Directive ''T'' '''', Directive ''t'' '''',
      Directive ''T'' '''', Directive ''N'' '''', Directive ''T'' '''', Directive ''F'' '''',
      Directive ''T'' '''', Plain ''['', Directive ''p'' '''', Plain '']'', Directive ''T'' '''',
      Plain ''['', Directive ''c'' '''', Plain '']'', Directive ''T'' '''', Directive ''f'' '''',
      Plain '':'', Directive ''l'' '''', Directive ''T'' '''', Directive ''m'' '''', Directive ''n'' '''']"

lemma default_pieces_separable: "separable default_pieces"
  by (simp add: default_pieces_def starts_plain_def pattern_of_def ends_name_def name_char_def isalpha_def)

lemma DEFAULT_FORMAT_pieces: "DEFAULT_FORMAT = pattern_of default_pieces"
  by (simp add: DEFAULT_FORMAT_def default_pieces_def pattern_of_def)

theorem pattern_roundtrip_witness:
  "length (m_items (LogFormatter DEFAULT_FORMAT)) = 23 \<and> \<not> m_error (LogFormatter DEFAULT_FORMAT)"
  using pattern_roundtrip [OF default_pieces_separable]
  unfolding DEFAULT_FORMAT_pieces [symmetric]
  by (simp add: default_pieces_def format_item_of_def)

section \<open>Level names\<close>

text \<open>No name that \<^verbatim>\<open>ToString\<close> gives is understood by \<^verbatim>\<open>FromString\<close>: it answers \<^verbatim>\<open>UNKNOW\<close> for all
  of them, and any other answer is to a text that begins with a quotation mark.\<close>

theorem level_names:
  "FromString (ToString l) = UNKNOW \<and> (FromString s \<noteq> UNKNOW \<longrightarrow> (\<exists>t. s = CHR 0x22 # t))"
proof
  show "FromString (ToString l) = UNKNOW"
    by (cases l) (simp_all add: FromString_def stringize_def)
  show "FromString s \<noteq> UNKNOW \<longrightarrow> (\<exists>t. s = CHR 0x22 # t)"
    by (auto simp: FromString_def stringize_def split: if_splits)
qed

theorem level_names_witness: "\<exists>t. stringize ''debug'' = CHR 0x22 # t"
  using level_names [of DEBUG "stringize ''debug''"] by (simp add: FromString_def stringize_def)

section \<open>Delivery to appenders\<close>

text \<open>What an appender adds to standard output and to a file.\<close>

definition to_stdout :: "log_level \<Rightarrow> appender \<Rightarrow> bool" where
  "to_stdout level ap \<longleftrightarrow> ap_sink ap = Stdout \<and> ap_formatter ap \<noteq> None \<and> ap_level ap \<le> level"

definition to_file :: "string \<Rightarrow> appender \<Rightarrow> bool" where
  "to_file path ap \<longleftrightarrow> ap_sink ap = File path True"

definition appender_ok :: "strftime \<Rightarrow> log_world \<Rightarrow> log_level \<Rightarrow> log_event \<Rightarrow> appender \<Rightarrow> bool" where
  "appender_ok tf w level ev ap \<longleftrightarrow>
     (\<forall>path. ap_sink ap \<noteq> File path False) \<and>
     (\<forall>path. ap_sink ap = File path True \<longrightarrow> ap_formatter ap \<noteq> None) \<and>
     (\<forall>f. ap_formatter ap = Some f \<longrightarrow> (\<exists>s. event_text tf w level ev f = Inr s))"

definition text_of :: "strftime \<Rightarrow> log_world \<Rightarrow> log_level \<Rightarrow> log_event \<Rightarrow> appender \<Rightarrow> string" where
  "text_of tf w level ev ap =
     (case ap_formatter ap of None \<Rightarrow> '''' | Some f \<Rightarrow> case event_text tf w level ev f of Inl e \<Rightarrow> '''' | Inr s \<Rightarrow> s)"

definition same_objects :: "log_world \<Rightarrow> log_world \<Rightarrow> bool" where
  "same_objects w w' \<longleftrightarrow> loggers w' = loggers w \<and> appenders w' = appenders w \<and>
     formatters w' = formatters w \<and> m_root w' = m_root w \<and> m_loggers w' = m_loggers w"

lemma event_text_same: "same_objects w w' \<Longrightarrow> event_text tf w' = event_text tf w"
  by (intro ext) (simp add: event_text_def same_objects_def logger_name_def [abs_def])

lemma appender_log_ok:
  assumes "appender_ok tf w level ev (appenders w a)"
  shows "\<exists>w'. appender_log tf level ev a w = Inr w' \<and> same_objects w w' \<and>
    stdout w' = stdout w @ (if to_stdout level (appenders w a) then text_of tf w level ev (appenders w a) else '''') \<and>
    (\<forall>path. files w' path = files w path @
       (if to_file path (appenders w a) then text_of tf w level ev (appenders w a) else ''''))"
  using assms
  by (auto simp: appender_ok_def appender_log_def to_stdout_def to_file_def text_of_def same_objects_def Let_def
      split: sink.splits option.splits)

text \<open>What a logger with appenders writes: on standard output the event's text once per standard
  appender that has a formatter and a level that is not above the event's, in the order of the
  appenders; in each file the text once per appender of that file, whatever the appender's level
  is. Nothing else changes.\<close>

theorem delivery:
  assumes "\<forall>a \<in> set as. appender_ok tf w level ev (appenders w a)"
  shows "\<exists>w'. log_all tf level ev as w = Inr w' \<and> same_objects w w' \<and>
    stdout w' = stdout w @ concat (map (text_of tf w level ev) (filter (to_stdout level) (map (appenders w) as))) \<and>
    (\<forall>path. files w' path =
       files w path @ concat (map (text_of tf w level ev) (filter (to_file path) (map (appenders w) as))))"
  using assms
proof (induction as arbitrary: w)
  case Nil
  then show ?case by (simp add: same_objects_def)
next
  case (Cons a as)
  obtain w1 where run: "appender_log tf level ev a w = Inr w1" and same: "same_objects w w1"
    and out: "stdout w1 = stdout w @ (if to_stdout level (appenders w a) then text_of tf w level ev (appenders w a) else '''')"
    and fl: "\<And>path. files w1 path = files w path @
       (if to_file path (appenders w a) then text_of tf w level ev (appenders w a) else '''')"
    using appender_log_ok [of tf w level ev a] Cons(2) by auto
  have aps: "appenders w1 = appenders w" using same by (simp add: same_objects_def)
  have tx: "text_of tf w1 = text_of tf w" and ok: "appender_ok tf w1 = appender_ok tf w"
    by (intro ext; simp add: text_of_def appender_ok_def event_text_same [OF same] split: option.split)+
  have "\<forall>a \<in> set as. appender_ok tf w1 level ev (appenders w1 a)" using Cons(2) by (simp add: ok aps)
  from Cons(1) [OF this] obtain w2 where "log_all tf level ev as w1 = Inr w2" "same_objects w1 w2"
    "stdout w2 = stdout w1 @ concat (map (text_of tf w level ev) (filter (to_stdout level) (map (appenders w) as)))"
    "\<forall>path. files w2 path =
       files w1 path @ concat (map (text_of tf w level ev) (filter (to_file path) (map (appenders w) as)))"
    unfolding tx aps by blast
  then show ?case
    using run same out fl by (auto simp: same_objects_def)
qed

text \<open>A manager just made, and its root logger with one standard appender.\<close>

definition a_world :: log_world where
  "a_world = LoggerManager 0 0 0
     \<lparr>loggers = (\<lambda>_. \<lparr>lg_name = '''', lg_level = DEBUG, lg_appenders = [], lg_formatter = None, lg_root = None\<rparr>),
      appenders = (\<lambda>_. StdoutLogAppender), formatters = (\<lambda>_. LogFormatter ''%m''), stdout = '''',
      files = (\<lambda>_. ''''), m_root = 0, m_loggers = Map.empty\<rparr>"

definition an_event :: log_event where
  "an_event = \<lparr>ev_file = ''a.cpp'', ev_line = 3, ev_elapse = 0, ev_threadId = 7, ev_fiberId = 1, ev_time = 0,
     ev_threadName = ''main'', ev_content = ''hello'', ev_logger = 0, ev_level = INFO\<rparr>"

lemma a_world_facts:
  "m_root a_world = 0" "m_loggers a_world = [''root'' \<mapsto> 0]" "stdout a_world = ''''"
  "loggers a_world 0 = \<lparr>lg_name = ''root'', lg_level = DEBUG, lg_appenders = [0], lg_formatter = Some 0, lg_root = None\<rparr>"
  "appenders a_world 0 = \<lparr>ap_sink = Stdout, ap_hasFormatter = None, ap_formatter = Some 0, ap_level = DEBUG\<rparr>"
  "formatters a_world 0 = LogFormatter DEFAULT_FORMAT"
  by (simp_all add: a_world_def LoggerManager_def Logger_new_def addAppender_def upd_logger_def upd_appender_def
      StdoutLogAppender_def Let_def)

lemma default_text:
  "\<exists>s. event_text (\<lambda>f t. Some ''date'') a_world level an_event 0 = Inr s"
proof -
  have "m_items (formatters a_world 0) = map (fst \<circ> piece_item) default_pieces"
    by (simp only: a_world_facts DEFAULT_FORMAT_pieces LogFormatter_pattern [OF default_pieces_separable]
        formatter.simps)
  then show ?thesis
    by (simp add: event_text_def default_pieces_def format_item_of_def)
qed

theorem delivery_witness:
  "\<exists>w'. log_all (\<lambda>f t. Some ''date'') INFO an_event [0] a_world = Inr w' \<and>
     stdout w' = text_of (\<lambda>f t. Some ''date'') a_world INFO an_event (appenders a_world 0)"
proof -
  have "appender_ok (\<lambda>f t. Some ''date'') a_world INFO an_event (appenders a_world 0)"
    using default_text by (simp add: appender_ok_def a_world_facts)
  moreover have "to_stdout INFO (appenders a_world 0)"
    by (simp add: to_stdout_def a_world_facts less_eq_log_level_def)
  ultimately show ?thesis
    using delivery [of "[0]" "\<lambda>f t. Some ''date''" a_world INFO an_event] by (auto simp: a_world_facts(3))
qed

section \<open>The loggers of the manager\<close>

definition log_inv :: "log_world \<Rightarrow> bool" where
  "log_inv w \<longleftrightarrow> m_loggers w ''root'' = Some (m_root w) \<and> lg_root (loggers w (m_root w)) = None \<and>
     (\<forall>n l. m_loggers w n = Some l \<longrightarrow> lg_name (loggers w l) = n \<and>
        (l = m_root w \<or> lg_root (loggers w l) = Some (m_root w)))"

text \<open>
  The steps on the objects: new loggers come at addresses not in use; the other operations are on
  any logger.
\<close>

inductive log_step :: "log_world \<Rightarrow> log_world \<Rightarrow> bool" where
  step_addLogger: "l \<notin> ran (m_loggers w) \<Longrightarrow> addLogger l f name w = (g, w') \<Longrightarrow> log_step w w'"
| step_addAppender: "log_step w (addAppender l a w)"
| step_delAppender: "log_step w (delAppender l a w)"
| step_clearAppenders: "log_step w (clearAppenders l w)"
| step_setLevel: "log_step w (setLevel l v w)"
| step_appender: "log_step w (w\<lparr>appenders := (appenders w)(a := ap)\<rparr>)"
| step_setFormatter: "setFormatter_pattern l f val w = Inr w' \<Longrightarrow> log_step w w'"
| step_log: "logger_log tf fuel l level ev w = Some (Inr w') \<Longrightarrow> log_step w w'"

text \<open>What every operation but \<^verbatim>\<open>addLogger\<close> leaves as it is.\<close>

definition same_tree :: "log_world \<Rightarrow> log_world \<Rightarrow> bool" where
  "same_tree w w' \<longleftrightarrow> m_root w' = m_root w \<and> m_loggers w' = m_loggers w \<and>
     (\<forall>l. lg_name (loggers w' l) = lg_name (loggers w l) \<and> lg_root (loggers w' l) = lg_root (loggers w l))"

lemma same_tree_inv: "same_tree w w' \<Longrightarrow> log_inv w \<Longrightarrow> log_inv w'"
  by (simp add: same_tree_def log_inv_def)

lemma same_tree_trans: "same_tree w w' \<Longrightarrow> same_tree w' w'' \<Longrightarrow> same_tree w w''"
  by (simp add: same_tree_def)

lemma same_tree_refl: "same_tree w w"
  by (simp add: same_tree_def)

lemma same_tree_simple:
  "same_tree w (addAppender l a w)" "same_tree w (delAppender l a w)" "same_tree w (clearAppenders l w)"
  "same_tree w (setLevel l v w)" "same_tree w (w\<lparr>appenders := x\<rparr>)"
  by (simp_all add: same_tree_def addAppender_def delAppender_def clearAppenders_def setLevel_def upd_logger_def
      upd_appender_def Let_def)

lemma same_tree_give: "give_formatter val as w = Inr w' \<Longrightarrow> same_tree w w'"
proof (induction as arbitrary: w)
  case Nil
  then show ?case by (simp add: same_tree_refl)
next
  case (Cons a as)
  then obtain has where "give_formatter val as (if \<not> has then upd_appender a (\<lambda>ap. ap\<lparr>ap_formatter := val\<rparr>) w else w) = Inr w'"
    by (auto split: option.splits)
  from Cons(1) [OF this] show ?case
    by (auto simp: same_tree_def upd_appender_def split: if_splits)
qed

lemma same_tree_setFormatter: "setFormatter_pattern l f val w = Inr w' \<Longrightarrow> same_tree w w'"
  by (auto simp: setFormatter_pattern_def logger_setFormatter_def Let_def same_tree_refl split: if_splits
      dest!: same_tree_give) (auto simp: same_tree_def upd_logger_def split: if_splits)

lemma same_tree_log_all: "log_all tf level ev as w = Inr w' \<Longrightarrow> same_tree w w'"
proof (induction as arbitrary: w)
  case Nil
  then show ?case by (simp add: same_tree_refl)
next
  case (Cons a as)
  then obtain w1 where "appender_log tf level ev a w = Inr w1" and rest: "log_all tf level ev as w1 = Inr w'"
    by (auto simp: rbind_eq_Inr)
  then have "same_tree w w1"
    by (auto simp: appender_log_def Let_def same_tree_def rbind_eq_Inr split: sink.splits option.splits if_splits)
  then show ?case using Cons(1) [OF rest] by (rule same_tree_trans)
qed

lemma same_tree_log: "logger_log tf fuel l level ev w = Some (Inr w') \<Longrightarrow> same_tree w w'"
  by (induction tf fuel l level ev w rule: logger_log.induct)
     (auto simp: Let_def same_tree_refl same_tree_log_all split: if_splits option.splits)

lemma log_step_inv: "log_step w w' \<Longrightarrow> log_inv w \<Longrightarrow> log_inv w'"
proof (induction rule: log_step.induct)
  case (step_addLogger l w f name g w')
  show ?case
  proof (cases "m_loggers w name")
    case None
    have ne: "l \<noteq> m_root w" "\<And>n k. m_loggers w n = Some k \<Longrightarrow> k \<noteq> l" "name \<noteq> ''root''"
      using step_addLogger(1,3) None by (auto simp: ran_def log_inv_def)
    from None step_addLogger(2) have w': "w' = (upd_logger l (\<lambda>g. g\<lparr>lg_root := Some (m_root w)\<rparr>) (Logger_new l f name w))
        \<lparr>m_loggers := (m_loggers w)(name \<mapsto> l)\<rparr>"
      by (auto simp: addLogger_def Let_def Logger_new_def upd_logger_def)
    show ?thesis
      using step_addLogger(3) ne unfolding w'
      by (auto simp: log_inv_def upd_logger_def Logger_new_def)
  next
    case (Some k)
    then show ?thesis using step_addLogger by (simp add: addLogger_def)
  qed
qed (blast intro: same_tree_inv same_tree_simple same_tree_setFormatter same_tree_log)+

lemma log_inv_manager: "log_inv (LoggerManager l f a w)"
  by (simp add: log_inv_def LoggerManager_def Logger_new_def addAppender_def upd_logger_def upd_appender_def Let_def)

lemma log_inv_reachable: "log_step\<^sup>*\<^sup>* (LoggerManager l f a w0) w \<Longrightarrow> log_inv w"
  by (induction rule: rtranclp_induct) (simp_all add: log_inv_manager log_step_inv)

text \<open>C29. In every state the manager can reach, logging through any of its loggers ends, with at most
  one step up: an event whose level suffices goes to the logger's own appenders, and when it has
  none to the root's, if the root's level lets it through; asking for a logger again gives the same
  one and changes nothing.\<close>

theorem logger_routing:
  assumes "log_step\<^sup>*\<^sup>* (LoggerManager l0 f0 a0 w0) w" and "m_loggers w name = Some l"
    and "g = loggers w l" and "r = loggers w (m_root w)"
  shows "logger_log tf (2 + k) l level ev w =
           Some (if \<not> lg_level g \<le> level then Inr w
                 else if lg_appenders g \<noteq> [] then log_all tf level ev (lg_appenders g) w
                 else if l \<noteq> m_root w \<and> lg_level r \<le> level then log_all tf level ev (lg_appenders r) w
                 else Inr w) \<and>
         addLogger l1 f1 name w = (l, w) \<and> lg_name g = name"
proof -
  have inv: "lg_root r = None" "l = m_root w \<or> lg_root g = Some (m_root w)" "lg_name g = name"
    using log_inv_reachable [OF assms(1)] assms(2-4) by (auto simp: log_inv_def)
  then show ?thesis
    using assms(2) by (auto simp: Let_def addLogger_def assms(3,4))
qed

theorem logger_routing_witness:
  "addLogger 5 5 ''root'' a_world = (0, a_world)"
proof -
  have "log_step\<^sup>*\<^sup>* a_world a_world" by simp
  from logger_routing [OF this [unfolded a_world_def] _ refl refl, folded a_world_def, of "''root''" 0]
  show ?thesis by (simp add: a_world_facts)
qed

section \<open>Changing the formatter\<close>

text \<open>Giving a logger a pattern with an error changes nothing. With a valid pattern the outcome
  depends on members that were never initialised, as soon as the logger has an appender on which
  \<^verbatim>\<open>setFormatter\<close> was not called: so it always is for the manager's root logger.\<close>

theorem setFormatter_indeterminate:
  "(m_error (LogFormatter val) \<longrightarrow> setFormatter_pattern l f val w = Inr w) \<and>
   (\<not> m_error (LogFormatter val) \<and> (\<exists>a \<in> set (lg_appenders (loggers w l)). ap_hasFormatter (appenders w a) = None) \<longrightarrow>
      setFormatter_pattern l f val w = Inl Indeterminate) \<and>
   (\<not> m_error (LogFormatter val) \<longrightarrow>
      setFormatter_pattern l0 f val (LoggerManager l0 f0 a0 w0) = Inl Indeterminate)"
proof -
  have give: "give_formatter val as w = Inl Indeterminate"
    if "\<exists>a \<in> set as. ap_hasFormatter (appenders w a) = None" for val as and w :: log_world
    using that
  proof (induction as arbitrary: w)
    case (Cons a as)
    show ?case
    proof (cases "ap_hasFormatter (appenders w a)")
      case (Some has)
      let ?w = "if \<not> has then upd_appender a (\<lambda>ap. ap\<lparr>ap_formatter := val\<rparr>) w else w"
      have "\<exists>b \<in> set as. ap_hasFormatter (appenders ?w b) = None"
      proof -
        obtain b where "b \<in> set as" "ap_hasFormatter (appenders w b) = None" "b \<noteq> a"
          using Cons(2) Some by (metis option.distinct(1) set_ConsD)
        then show ?thesis by (intro bexI [of _ b]) (simp_all add: upd_appender_def)
      qed
      then show ?thesis using Cons(1) [of ?w] Some by simp
    qed simp
  qed simp
  have root: "lg_appenders (loggers (LoggerManager l0 f0 a0 w0) l0) = [a0]"
      "ap_hasFormatter (appenders (LoggerManager l0 f0 a0 w0) a0) = None"
    by (simp_all add: LoggerManager_def Logger_new_def addAppender_def upd_logger_def upd_appender_def
        StdoutLogAppender_def Let_def)
  show ?thesis
    by (auto simp: setFormatter_pattern_def logger_setFormatter_def Let_def upd_logger_def root intro!: give)
qed

theorem setFormatter_indeterminate_witness:
  "setFormatter_pattern 0 1 ''%m'' a_world = Inl Indeterminate"
proof -
  have "separable [Directive ''m'' '''']" by (simp add: isalpha_def pattern_of_def ends_name_def)
  then have "\<not> m_error (LogFormatter (pattern_of [Directive ''m'' '''']))"
    by (simp add: LogFormatter_pattern format_item_of_def)
  then have "\<not> m_error (LogFormatter ''%m'')" by (simp add: pattern_of_def)
  then show ?thesis
    using setFormatter_indeterminate [of "''%m''" 0 1 a_world 0 0 0 a_world]
    by (simp add: a_world_facts)
qed

end
