(* ===== verification/Hook.thy ===== *)
theory Hook
  imports FdManager EventPoller "HOL-Library.Signed_Division"
begin

text \<open>
  \<^verbatim>\<open>src/src/util/hook.cpp\<close>: the functions that replace the blocking calls of the C library. On a
  socket that the user believes to be blocking, a call that would block registers the descriptor
  with the poller of the thread, gives the processor away, and is tried again when the poller
  wakes the fiber, or fails when a timer has cancelled the event.

  A call of the C library is given by its answers: the value it returns, with the \<^verbatim>\<open>errno\<close> it leaves
  when the value is -1. A function that may give the processor away is cut there: it returns
  \<open>Held\<close> with its local variables, and a second definition goes on from them. What the other
  fibers do in between is then any change of the state. The \<^verbatim>\<open>timer_info\<close> that a call shares with its
  timer is a cell of \<open>infos\<close> as long as the call holds it, so a cell that is gone is a weak pointer
  that cannot be locked; cells are numbered in the order of their creation.
\<close>

unbundle bit_operations_syntax

section \<open>State\<close>

definition EINTR :: int where "EINTR = 4"
definition EBADF :: int where "EBADF = 9"
definition EAGAIN :: int where "EAGAIN = 11"
definition ETIMEDOUT :: int where "ETIMEDOUT = 110"
definition EINPROGRESS :: int where "EINPROGRESS = 115"
definition SOL_SOCKET :: int where "SOL_SOCKET = 1"

text \<open>The closures given to timers: that of \<^verbatim>\<open>do_io\<close> and \<^verbatim>\<open>connect_with_timeout\<close>, and that of the sleeps.\<close>

datatype hook_cb = Io_timeout nat int u32 | Wake fid

datatype hook_error = Fd_failed fd_error | Poller_failed poller_error | Null_poller

record hook_state =
  t_hook_enable :: bool
  errno :: int
  fdm :: fd_manager
  ep :: "hook_cb poller option"      \<comment> \<open>\<^verbatim>\<open>EventPoller::getThis()\<close>\<close>
  infos :: "nat \<Rightarrow> int option"        \<comment> \<open>\<^verbatim>\<open>cancelled\<close> of the \<^verbatim>\<open>timer_info\<close> objects alive\<close>
  next_info :: nat

text \<open>\<^verbatim>\<open>epoll_ctl\<close>, and the \<^verbatim>\<open>errno\<close> it leaves when it fails.\<close>

record os =
  os_ctl :: epoll_ctl
  os_errno :: int

type_synonym answer = "int \<times> int"

record io_frame =
  fr_fd :: int
  fr_event :: u32
  fr_to :: u64
  fr_timer :: "addr option"
  fr_info :: nat

datatype io_result =
    Returned int
  | Held io_frame     \<comment> \<open>in \<^verbatim>\<open>Fiber::yieldToHold()\<close>\<close>
  | Sleeping          \<comment> \<open>the same in a sleep\<close>
  | No_answer         \<comment> \<open>the answers given so far do not end the call\<close>

fun lift_poller :: "poller_error + 'a \<Rightarrow> hook_error + 'a" where
  "lift_poller (Inl e) = Inl (Poller_failed e)"
| "lift_poller (Inr x) = Inr x"

fun lift_fd :: "fd_error + 'a \<Rightarrow> hook_error + 'a" where
  "lift_fd (Inl e) = Inl (Fd_failed e)"
| "lift_fd (Inr x) = Inr x"

definition set_hook_enable :: "bool \<Rightarrow> hook_state \<Rightarrow> hook_state" where
  "set_hook_enable flag s = s\<lparr>t_hook_enable := flag\<rparr>"

text \<open>
  \<^verbatim>\<open>hook_init\<close>: every original function is looked up by its name. The guard \<^verbatim>\<open>is_inited\<close> is never set.
\<close>

definition hook_names :: "string list" where
  "hook_names = [''sleep'', ''usleep'', ''nanosleep'', ''socket'', ''connect'', ''accept'', ''read'', ''readv'',
     ''recv'', ''recvfrom'', ''recvmsg'', ''write'', ''writev'', ''send'', ''sendto'', ''sendmsg'', ''close'',
     ''fcntl'', ''ioctl'', ''getsockopt'', ''setsockopt'']"

definition hook_init :: "(string \<Rightarrow> 'p) \<Rightarrow> bool \<Rightarrow> (string \<Rightarrow> 'p) \<Rightarrow> bool \<times> (string \<Rightarrow> 'p)" where
  "hook_init dlsym is_inited originals =
     (if is_inited then (is_inited, originals)
      else (is_inited, foldl (\<lambda>g name. g(name := dlsym name)) originals hook_names))"

definition is_hook_enable :: "hook_state \<Rightarrow> bool" where
  "is_hook_enable s = t_hook_enable s"

section \<open>Calls of the C library\<close>

definition plain :: "answer list \<Rightarrow> hook_state \<Rightarrow> io_result \<times> hook_state" where
  "plain rs s = (case rs of [] \<Rightarrow> (No_answer, s)
     | (n, e) # _ \<Rightarrow> (Returned n, if n = -1 then s\<lparr>errno := e\<rparr> else s))"

text \<open>The call and the \<^verbatim>\<open>while(n == -1 && errno == EINTR)\<close> that repeats it: the value and \<^verbatim>\<open>errno\<close>.\<close>

fun io_call :: "answer list \<Rightarrow> int \<Rightarrow> (int \<times> int) option" where
  "io_call [] e0 = None"
| "io_call ((n, e) # rs) e0 =
     (let e1 = (if n = -1 then e else e0)
      in if n = -1 \<and> e1 = EINTR then io_call rs e1 else Some (n, e1))"

definition find_ctx :: "int \<Rightarrow> hook_state \<Rightarrow> hook_error + nat option" where
  "find_ctx fd s = lift_fd (find_fd fd (fdm s))"

definition the_ctx :: "nat \<Rightarrow> hook_state \<Rightarrow> fdctx" where
  "the_ctx p s = fd_heap (fdm s) p"

definition upd_ctx :: "nat \<Rightarrow> (fdctx \<Rightarrow> fdctx) \<Rightarrow> hook_state \<Rightarrow> hook_state" where
  "upd_ctx p f s = s\<lparr>fdm := (fdm s)\<lparr>fd_heap := (fd_heap (fdm s))(p := f (fd_heap (fdm s) p))\<rparr>\<rparr>"

definition create_ctx :: "nat \<Rightarrow> int \<Rightarrow> hook_state \<Rightarrow> hook_error + hook_state" where
  "create_ctx b fd s =
     rbind (lift_fd (fd_get b fd True (fdm s))) (\<lambda>(_, m). Inr (s\<lparr>fdm := m\<rparr>))"

section \<open>Timers of the poller\<close>

text \<open>\<^verbatim>\<open>addTimer\<close> on a poller, whose \<^verbatim>\<open>flushTimer\<close> writes to the self-pipe.\<close>

definition with_tm :: "hook_cb timer_manager \<Rightarrow> hook_cb poller \<Rightarrow> hook_cb poller" where
  "with_tm t p = (let p1 = p\<lparr>tm := t\<rparr>
     in if flushed t \<noteq> flushed (tm p) then poller_flushTimer p1 else p1)"

definition disarm :: "addr option \<Rightarrow> hook_state \<Rightarrow> hook_state" where
  "disarm t s = (case (t, ep s) of
       (Some a, Some p) \<Rightarrow> s\<lparr>ep := Some (p\<lparr>tm := snd (cancel a (tm p))\<rparr>)\<rparr>
     | _ \<Rightarrow> s)"

text \<open>
  What \<^verbatim>\<open>do_io\<close> and \<^verbatim>\<open>connect_with_timeout\<close> do before they give the processor away: a conditional
  timer at the address \<open>a\<close> unless the timeout is -1, and the event with the poller, for the fiber \<open>me\<close>.
\<close>

definition arm ::
  "os \<Rightarrow> u64 \<Rightarrow> addr \<Rightarrow> fid \<Rightarrow> io_frame \<Rightarrow> hook_state \<Rightarrow> hook_error + int \<times> io_frame \<times> hook_state" where
  "arm k now a me fr s =
     (case ep s of None \<Rightarrow> Inl Null_poller
      | Some p \<Rightarrow>
          let (timer, p1) =
                (if fr_to fr \<noteq> -1
                 then (Some a, with_tm (addConditionTimer now a (fr_to fr)
                         (Some (Io_timeout (fr_info fr) (fr_fd fr) (fr_event fr))) (fr_info fr) False (tm p)) p)
                 else (None, p))
          in rbind (lift_poller (addEvent (os_ctl k) (Some (self p1)) me True (fr_fd fr) (fr_event fr) None p1)) (\<lambda>(rt, p2).
             let s1 = s\<lparr>ep := Some p2\<rparr>
             in Inr (rt, fr\<lparr>fr_timer := timer\<rparr>, if rt \<noteq> 0 then s1\<lparr>errno := os_errno k\<rparr> else s1)))"

definition new_info :: "hook_state \<Rightarrow> nat \<times> hook_state" where
  "new_info s = (next_info s, s\<lparr>infos := (infos s)(next_info s := Some 0), next_info := Suc (next_info s)\<rparr>)"

definition drop_info :: "nat \<Rightarrow> hook_state \<Rightarrow> hook_state" where
  "drop_info i s = s\<lparr>infos := (infos s)(i := None)\<rparr>"

definition cancelled :: "nat \<Rightarrow> hook_state \<Rightarrow> int" where
  "cancelled i s = (case infos s i of None \<Rightarrow> 0 | Some c \<Rightarrow> c)"

section \<open>\<^verbatim>\<open>do_io\<close>\<close>

definition retry ::
  "os \<Rightarrow> u64 \<Rightarrow> addr \<Rightarrow> fid \<Rightarrow> io_frame \<Rightarrow> answer list \<Rightarrow> hook_state \<Rightarrow> hook_error + io_result \<times> hook_state" where
  "retry k now a me fr rs s =
     (case io_call rs (errno s) of
        None \<Rightarrow> Inr (No_answer, s)
      | Some (n, e) \<Rightarrow>
          let s1 = s\<lparr>errno := e\<rparr>
          in if n = -1 \<and> e = EAGAIN then
               rbind (arm k now a me fr s1) (\<lambda>(rt, fr1, s2).
                 if rt \<noteq> 0 then Inr (Returned (-1), drop_info (fr_info fr) (disarm (fr_timer fr1) s2))
                 else Inr (Held fr1, s2))
             else Inr (Returned n, drop_info (fr_info fr) s1))"

definition do_io ::
  "os \<Rightarrow> u64 \<Rightarrow> addr \<Rightarrow> fid \<Rightarrow> int \<Rightarrow> u32 \<Rightarrow> int \<Rightarrow> answer list \<Rightarrow> hook_state \<Rightarrow> hook_error + io_result \<times> hook_state" where
  "do_io k now a me fd event timeout_so rs s =
     (if \<not> t_hook_enable s then Inr (plain rs s)
      else rbind (find_ctx fd s) (\<lambda>ctx. case ctx of
        None \<Rightarrow> Inr (plain rs s)
      | Some p \<Rightarrow>
          let c = the_ctx p s
          in if m_isClosed c then Inr (Returned (-1), s\<lparr>errno := EBADF\<rparr>)
             else if \<not> m_isSocket c \<or> m_userNonblock c then Inr (plain rs s)
             else let to = getTimeout timeout_so c; (i, s1) = new_info s
                  in retry k now a me
                       \<lparr>fr_fd = fd, fr_event = event, fr_to = to, fr_timer = None, fr_info = i\<rparr> rs s1))"

text \<open>From \<^verbatim>\<open>yieldToHold\<close> on.\<close>

definition do_io_resume ::
  "os \<Rightarrow> u64 \<Rightarrow> addr \<Rightarrow> fid \<Rightarrow> io_frame \<Rightarrow> answer list \<Rightarrow> hook_state \<Rightarrow> hook_error + io_result \<times> hook_state" where
  "do_io_resume k now a me fr rs s =
     (let s1 = disarm (fr_timer fr) s
      in if cancelled (fr_info fr) s1 \<noteq> 0
         then Inr (Returned (-1), drop_info (fr_info fr) (s1\<lparr>errno := cancelled (fr_info fr) s1\<rparr>))
         else retry k now a me fr rs s1)"

text \<open>The ten functions that only call \<^verbatim>\<open>do_io\<close>; their buffers are in the answers.\<close>

datatype io_fun = Read_f | Readv_f | Recv_f | Recvfrom_f | Recvmsg_f
  | Write_f | Writev_f | Send_f | Sendto_f | Sendmsg_f

fun io_event :: "io_fun \<Rightarrow> u32" where
  "io_event Read_f = READ" | "io_event Readv_f = READ" | "io_event Recv_f = READ"
| "io_event Recvfrom_f = READ" | "io_event Recvmsg_f = READ"
| "io_event Write_f = WRITE" | "io_event Writev_f = WRITE" | "io_event Send_f = WRITE"
| "io_event Sendto_f = WRITE" | "io_event Sendmsg_f = WRITE"

fun io_timeout_so :: "io_fun \<Rightarrow> int" where
  "io_timeout_so Read_f = SO_RCVTIMEO" | "io_timeout_so Readv_f = SO_RCVTIMEO"
| "io_timeout_so Recv_f = SO_RCVTIMEO" | "io_timeout_so Recvfrom_f = SO_RCVTIMEO"
| "io_timeout_so Recvmsg_f = SO_RCVTIMEO"
| "io_timeout_so Write_f = SO_SNDTIMEO" | "io_timeout_so Writev_f = SO_SNDTIMEO"
| "io_timeout_so Send_f = SO_SNDTIMEO" | "io_timeout_so Sendto_f = SO_SNDTIMEO"
| "io_timeout_so Sendmsg_f = SO_SNDTIMEO"

definition hooked_io ::
  "io_fun \<Rightarrow> os \<Rightarrow> u64 \<Rightarrow> addr \<Rightarrow> fid \<Rightarrow> int \<Rightarrow> answer list \<Rightarrow> hook_state \<Rightarrow> hook_error + io_result \<times> hook_state" where
  "hooked_io f k now a me fd rs s = do_io k now a me fd (io_event f) (io_timeout_so f) rs s"

section \<open>What timers call\<close>

definition hook_callback :: "os \<Rightarrow> hook_cb \<Rightarrow> hook_state \<Rightarrow> hook_error + hook_state" where
  "hook_callback k cb s = (case cb of
       Io_timeout i fd event \<Rightarrow>
         (case infos s i of
            None \<Rightarrow> Inr s
          | Some c \<Rightarrow>
              if c \<noteq> 0 then Inr s
              else let s1 = s\<lparr>infos := (infos s)(i := Some ETIMEDOUT)\<rparr>
                   in (case ep s1 of None \<Rightarrow> Inl Null_poller
                       | Some p \<Rightarrow> rbind (lift_poller (cancelEvent (os_ctl k) fd event p))
                           (\<lambda>(_, p1). Inr (s1\<lparr>ep := Some p1\<rparr>))))
     | Wake f \<Rightarrow>
         (case ep s of None \<Rightarrow> Inl Null_poller
          | Some p \<Rightarrow> Inr (s\<lparr>ep := Some (on_sched (self p) (schedule (FiberTask (Some f) None (-1))) p)\<rparr>)))"

section \<open>Sleeping\<close>

definition sleep_for :: "u64 \<Rightarrow> addr \<Rightarrow> fid \<Rightarrow> u64 \<Rightarrow> hook_state \<Rightarrow> hook_error + io_result \<times> hook_state" where
  "sleep_for now a me ms s =
     (case ep s of None \<Rightarrow> Inl Null_poller
      | Some p \<Rightarrow> Inr (Sleeping, s\<lparr>ep := Some (with_tm (addTimer now a ms (Some (Func (Wake me))) False (tm p)) p)\<rparr>))"

definition sleep_resume :: "hook_state \<Rightarrow> io_result \<times> hook_state" where
  "sleep_resume s = (Returned 0, s)"

definition sleep_hook ::
  "u64 \<Rightarrow> addr \<Rightarrow> fid \<Rightarrow> u32 \<Rightarrow> answer list \<Rightarrow> hook_state \<Rightarrow> hook_error + io_result \<times> hook_state" where
  "sleep_hook now a me secs rs s =
     (if \<not> t_hook_enable s then Inr (plain rs s) else sleep_for now a me (ucast (secs * 1000)) s)"

definition usleep_hook ::
  "u64 \<Rightarrow> addr \<Rightarrow> fid \<Rightarrow> u32 \<Rightarrow> answer list \<Rightarrow> hook_state \<Rightarrow> hook_error + io_result \<times> hook_state" where
  "usleep_hook now a me usec rs s =
     (if \<not> t_hook_enable s then Inr (plain rs s) else sleep_for now a me (ucast (usec div 1000)) s)"

text \<open>\<^verbatim>\<open>int timeout_ms\<close>, which \<^verbatim>\<open>addTimer\<close> takes as unsigned.\<close>

definition nanosleep_ms :: "int \<Rightarrow> int \<Rightarrow> u64" where
  "nanosleep_ms tv_sec tv_nsec = scast (word_of_int (tv_sec * 1000 + tv_nsec sdiv 1000 sdiv 1000) :: u32)"

definition nanosleep_hook ::
  "u64 \<Rightarrow> addr \<Rightarrow> fid \<Rightarrow> int \<Rightarrow> int \<Rightarrow> answer list \<Rightarrow> hook_state \<Rightarrow> hook_error + io_result \<times> hook_state" where
  "nanosleep_hook now a me tv_sec tv_nsec rs s =
     (if \<not> t_hook_enable s then Inr (plain rs s) else sleep_for now a me (nanosleep_ms tv_sec tv_nsec) s)"

section \<open>Making and closing sockets\<close>

definition after_create ::
  "nat \<Rightarrow> io_result \<times> hook_state \<Rightarrow> hook_error + io_result \<times> hook_state" where
  "after_create b r = (case r of
       (Returned fd, s) \<Rightarrow> if 0 \<le> fd then rbind (create_ctx b fd s) (\<lambda>s1. Inr (Returned fd, s1)) else Inr r
     | _ \<Rightarrow> Inr r)"

text \<open>\<^verbatim>\<open>socket\<close> tests for -1 where \<^verbatim>\<open>accept\<close> tests the sign.\<close>

definition socket_hook :: "nat \<Rightarrow> answer list \<Rightarrow> hook_state \<Rightarrow> hook_error + io_result \<times> hook_state" where
  "socket_hook b rs s =
     (if \<not> t_hook_enable s then Inr (plain rs s)
      else case plain rs s of
             (Returned fd, s1) \<Rightarrow> if fd = -1 then Inr (Returned fd, s1)
                                 else rbind (create_ctx b fd s1) (\<lambda>s2. Inr (Returned fd, s2))
           | r \<Rightarrow> Inr r)"

definition accept_hook ::
  "nat \<Rightarrow> os \<Rightarrow> u64 \<Rightarrow> addr \<Rightarrow> fid \<Rightarrow> int \<Rightarrow> answer list \<Rightarrow> hook_state \<Rightarrow> hook_error + io_result \<times> hook_state" where
  "accept_hook b k now a me fd rs s =
     rbind (do_io k now a me fd READ SO_RCVTIMEO rs s) (after_create b)"

definition accept_resume ::
  "nat \<Rightarrow> os \<Rightarrow> u64 \<Rightarrow> addr \<Rightarrow> fid \<Rightarrow> io_frame \<Rightarrow> answer list \<Rightarrow> hook_state \<Rightarrow> hook_error + io_result \<times> hook_state" where
  "accept_resume b k now a me fr rs s =
     rbind (do_io_resume k now a me fr rs s) (after_create b)"

text \<open>\<^verbatim>\<open>getsockopt\<close> of \<^verbatim>\<open>SO_ERROR\<close> at the end of \<^verbatim>\<open>connect_with_timeout\<close>: \<open>Inl e\<close> when it fails.\<close>

definition connect_result :: "int + int \<Rightarrow> nat \<Rightarrow> hook_state \<Rightarrow> io_result \<times> hook_state" where
  "connect_result so i s = (case so of
       Inl e \<Rightarrow> (Returned (-1), drop_info i (s\<lparr>errno := e\<rparr>))
     | Inr err \<Rightarrow> if err = 0 then (Returned 0, drop_info i s)
                else (Returned (-1), drop_info i (s\<lparr>errno := err\<rparr>)))"

text \<open>From the call of the C library on.\<close>

definition connect_call ::
  "os \<Rightarrow> u64 \<Rightarrow> addr \<Rightarrow> fid \<Rightarrow> int \<Rightarrow> u64 \<Rightarrow> answer list \<Rightarrow> int + int \<Rightarrow> hook_state \<Rightarrow> hook_error + io_result \<times> hook_state" where
  "connect_call k now a me fd timeout_ms rs so s =
     (case plain rs s of
        (Returned n, s1) \<Rightarrow>
          if n = 0 then Inr (Returned 0, s1)
          else if n \<noteq> -1 \<or> errno s1 \<noteq> EINPROGRESS then Inr (Returned n, s1)
          else let (i, s2) = new_info s1
               in rbind (arm k now a me \<lparr>fr_fd = fd, fr_event = WRITE, fr_to = timeout_ms,
                           fr_timer = None, fr_info = i\<rparr> s2) (\<lambda>(rt, fr, s3).
                  if rt = 0 then Inr (Held fr, s3)
                  else Inr (connect_result so i (disarm (fr_timer fr) s3)))
      | r \<Rightarrow> Inr r)"

definition connect_with_timeout ::
  "os \<Rightarrow> u64 \<Rightarrow> addr \<Rightarrow> fid \<Rightarrow> int \<Rightarrow> u64 \<Rightarrow> answer list \<Rightarrow> int + int \<Rightarrow> hook_state \<Rightarrow> hook_error + io_result \<times> hook_state" where
  "connect_with_timeout k now a me fd timeout_ms rs so s =
     (if \<not> t_hook_enable s then Inr (plain rs s)
      else rbind (find_ctx fd s) (\<lambda>ctx. case ctx of
        None \<Rightarrow> Inr (Returned (-1), s\<lparr>errno := EBADF\<rparr>)
      | Some p \<Rightarrow>
          let c = the_ctx p s
          in if m_isClosed c then Inr (Returned (-1), s\<lparr>errno := EBADF\<rparr>)
             else if \<not> m_isSocket c then Inr (plain rs s)
             else if m_userNonblock c then Inr (plain rs s)
             else connect_call k now a me fd timeout_ms rs so s))"

definition connect_resume :: "io_frame \<Rightarrow> int + int \<Rightarrow> hook_state \<Rightarrow> io_result \<times> hook_state" where
  "connect_resume fr so s =
     (let s1 = disarm (fr_timer fr) s
      in if cancelled (fr_info fr) s1 \<noteq> 0
         then (Returned (-1), drop_info (fr_info fr) (s1\<lparr>errno := cancelled (fr_info fr) s1\<rparr>))
         else connect_result so (fr_info fr) s1)"

definition s_connect_timeout :: u64 where "s_connect_timeout = -1"

definition connect_hook ::
  "os \<Rightarrow> u64 \<Rightarrow> addr \<Rightarrow> fid \<Rightarrow> int \<Rightarrow> answer list \<Rightarrow> int + int \<Rightarrow> hook_state \<Rightarrow> hook_error + io_result \<times> hook_state" where
  "connect_hook k now a me fd rs so s = connect_with_timeout k now a me fd s_connect_timeout rs so s"

definition close_hook :: "os \<Rightarrow> int \<Rightarrow> answer list \<Rightarrow> hook_state \<Rightarrow> hook_error + io_result \<times> hook_state" where
  "close_hook k fd rs s =
     (if \<not> t_hook_enable s then Inr (plain rs s)
      else rbind (find_ctx fd s) (\<lambda>ctx. case ctx of
        None \<Rightarrow> Inr (plain rs s)
      | Some _ \<Rightarrow>
          rbind (case ep s of None \<Rightarrow> Inr s
                 | Some p \<Rightarrow> rbind (lift_poller (cancelAll (os_ctl k) fd p)) (\<lambda>(_, p1). Inr (s\<lparr>ep := Some p1\<rparr>))) (\<lambda>s1.
          rbind (lift_fd (fd_del fd (fdm s1))) (\<lambda>m. Inr (plain rs (s1\<lparr>fdm := m\<rparr>))))))"

section \<open>Flags and options\<close>

definition F_DUPFD :: int where "F_DUPFD = 0"
definition F_GETFD :: int where "F_GETFD = 1"
definition F_SETFD :: int where "F_SETFD = 2"
definition F_GETFL :: int where "F_GETFL = 3"
definition F_SETFL :: int where "F_SETFL = 4"
definition F_SETOWN :: int where "F_SETOWN = 8"

text \<open>The commands that take an \<^verbatim>\<open>int\<close>, and those that take a pointer (locks, owners).\<close>

definition int_commands :: "int list" where
  "int_commands = [F_DUPFD, 1030, F_SETFD, F_SETOWN, 10, 1024, 1026, 1031]"

definition pointer_commands :: "int list" where
  "pointer_commands = [6, 7, 5, 16, 15]"

datatype fcntl_arg = No_arg | Int_arg u32 | Ptr_arg nat

text \<open>
  \<^verbatim>\<open>fcntl\<close>; \<open>fc\<close> is the system call, which may change the descriptor flags. Its variable argument is
  the integer or the pointer \<open>x\<close> holds; a command the switch does not know goes without one.
\<close>

type_synonym fcntl_call = "int \<Rightarrow> int \<Rightarrow> fcntl_arg \<Rightarrow> kernel \<Rightarrow> u32 \<times> kernel"

definition call_fcntl :: "fcntl_call \<Rightarrow> int \<Rightarrow> int \<Rightarrow> fcntl_arg \<Rightarrow> hook_state \<Rightarrow> u32 \<times> hook_state" where
  "call_fcntl fc fd cmd x s =
     (let (n, k) = fc fd cmd x (kern (fdm s)) in (n, s\<lparr>fdm := (fdm s)\<lparr>kern := k\<rparr>\<rparr>))"

definition fcntl_hook :: "fcntl_call \<Rightarrow> int \<Rightarrow> int \<Rightarrow> fcntl_arg \<Rightarrow> hook_state \<Rightarrow> hook_error + u32 \<times> hook_state" where
  "fcntl_hook fc fd cmd x s =
     (if cmd = F_SETFL then
        (let arg = (case x of Int_arg v \<Rightarrow> v | _ \<Rightarrow> 0)
         in rbind (find_ctx fd s) (\<lambda>ctx. case ctx of
              None \<Rightarrow> Inr (call_fcntl fc fd cmd (Int_arg arg) s)
            | Some p \<Rightarrow>
                if m_isClosed (the_ctx p s) \<or> \<not> m_isSocket (the_ctx p s)
                then Inr (call_fcntl fc fd cmd (Int_arg arg) s)
                else let s1 = upd_ctx p (\<lambda>c. c\<lparr>m_userNonblock := (arg AND O_NONBLOCK \<noteq> 0)\<rparr>) s;
                         arg1 = (if m_sysNonblock (the_ctx p s1) then arg OR O_NONBLOCK
                                 else arg AND NOT O_NONBLOCK)
                     in Inr (call_fcntl fc fd cmd (Int_arg arg1) s1)))
      else if cmd = F_GETFL then
        (let (arg, s1) = call_fcntl fc fd cmd No_arg s
         in rbind (find_ctx fd s1) (\<lambda>ctx. case ctx of
              None \<Rightarrow> Inr (arg, s1)
            | Some p \<Rightarrow>
                if m_isClosed (the_ctx p s1) \<or> \<not> m_isSocket (the_ctx p s1) then Inr (arg, s1)
                else if m_userNonblock (the_ctx p s1) then Inr (arg OR O_NONBLOCK, s1)
                else Inr (arg AND NOT O_NONBLOCK, s1)))
      else if cmd \<in> set int_commands then
        Inr (call_fcntl fc fd cmd (Int_arg (case x of Int_arg v \<Rightarrow> v | _ \<Rightarrow> 0)) s)
      else if cmd \<in> set pointer_commands then
        Inr (call_fcntl fc fd cmd (Ptr_arg (case x of Ptr_arg q \<Rightarrow> q | _ \<Rightarrow> 0)) s)
      else Inr (call_fcntl fc fd cmd No_arg s))"

definition FIONBIO :: u64 where "FIONBIO = 0x5421"

text \<open>\<^verbatim>\<open>ioctl\<close> with a pointer to the integer \<open>v\<close>; \<open>ic\<close> is the system call.\<close>

definition ioctl_hook ::
  "(int \<Rightarrow> u64 \<Rightarrow> u32 \<Rightarrow> kernel \<Rightarrow> u32 \<times> kernel) \<Rightarrow> int \<Rightarrow> u64 \<Rightarrow> u32 \<Rightarrow> hook_state \<Rightarrow> hook_error + u32 \<times> hook_state" where
  "ioctl_hook ic d request v s =
     (let through = (\<lambda>s. let (n, k) = ic d request v (kern (fdm s)) in (n, s\<lparr>fdm := (fdm s)\<lparr>kern := k\<rparr>\<rparr>))
      in if request = FIONBIO then
           rbind (find_ctx d s) (\<lambda>ctx. case ctx of
             None \<Rightarrow> Inr (through s)
           | Some p \<Rightarrow>
               if m_isClosed (the_ctx p s) \<or> \<not> m_isSocket (the_ctx p s) then Inr (through s)
               else Inr (through (upd_ctx p (\<lambda>c. c\<lparr>m_userNonblock := (v \<noteq> 0)\<rparr>) s)))
         else Inr (through s))"

definition timeval_ms :: "int \<Rightarrow> int \<Rightarrow> u64" where
  "timeval_ms tv_sec tv_usec = word_of_int (tv_sec * 1000 + tv_usec sdiv 1000)"

text \<open>\<^verbatim>\<open>setsockopt\<close>, whose \<^verbatim>\<open>optval\<close> is read as a \<^verbatim>\<open>timeval\<close> for the two timeouts.\<close>

definition setsockopt_hook ::
  "int \<Rightarrow> int \<Rightarrow> int \<Rightarrow> int \<times> int \<Rightarrow> answer list \<Rightarrow> hook_state \<Rightarrow> hook_error + io_result \<times> hook_state" where
  "setsockopt_hook fd level optname v rs s =
     (if \<not> t_hook_enable s then Inr (plain rs s)
      else if level = SOL_SOCKET \<and> (optname = SO_RCVTIMEO \<or> optname = SO_SNDTIMEO) then
        rbind (find_ctx fd s) (\<lambda>ctx. case ctx of
          None \<Rightarrow> Inr (plain rs s)
        | Some p \<Rightarrow> Inr (plain rs (upd_ctx p (setTimeout optname (timeval_ms (fst v) (snd v))) s)))
      else Inr (plain rs s))"

definition getsockopt_hook :: "answer list \<Rightarrow> hook_state \<Rightarrow> io_result \<times> hook_state" where
  "getsockopt_hook rs s = plain rs s"

end
