(* ===== verification/Hook_Facts.thy ===== *)
theory Hook_Facts
  imports Hook EventPoller_Properties
begin

text \<open>
  Facts on the hooked calls: which operations of the poller leave its timers alone, what arming
  and disarming do to the timers and the information objects, and the invariant of all calls in
  progress (\<open>io_inv\<close>), kept by every step the calls, the timers and the poller can take.
\<close>

section \<open>Results\<close>

lemma lift_poller_Inr [simp]: "lift_poller m = Inr x \<longleftrightarrow> m = Inr x"
  by (cases m) auto

lemma lift_fd_Inr [simp]: "lift_fd m = Inr x \<longleftrightarrow> m = Inr x"
  by (cases m) auto

section \<open>The timers of the poller\<close>

lemma triggerEvent_tm: "triggerEvent e i p = Inr p' \<Longrightarrow> tm p' = tm p \<and> self p' = self p"
  by (auto simp: triggerEvent_def Let_def on_sched_def put_ctx_def rbind_eq_Inr
      split: if_splits option.splits)

lemma trigger_if_tm: "trigger_if b e i p = Inr p' \<Longrightarrow> tm p' = tm p \<and> self p' = self p"
  by (auto simp: trigger_if_def rbind_eq_Inr pending_dec_def dest: triggerEvent_tm split: if_splits)

lemma addEvent_tm: "addEvent ctl this cur exec fd e cb p = Inr (r, p') \<Longrightarrow> tm p' = tm p \<and> self p' = self p"
  by (auto simp: addEvent_def Let_def put_ctx_def rbind_eq_Inr split: if_splits)

lemma addEvent_length:
  "addEvent ctl this cur exec fd e cb p = Inr (r, p') \<Longrightarrow> length (m_fdContexts p') = length (m_fdContexts p)"
  by (auto simp: addEvent_def Let_def put_ctx_def rbind_eq_Inr split: if_splits)

lemma cancelEvent_tm: "cancelEvent ctl fd e p = Inr (r, p') \<Longrightarrow> tm p' = tm p \<and> self p' = self p"
  by (auto simp: cancelEvent_def Let_def rbind_eq_Inr pending_dec_def unlock_twice_def
      dest!: triggerEvent_tm split: if_splits)

lemma cancelAll_tm: "cancelAll ctl fd p = Inr (r, p') \<Longrightarrow> tm p' = tm p \<and> self p' = self p"
  by (auto simp: cancelAll_def Let_def rbind_eq_Inr unlock_twice_def dest!: trigger_if_tm split: if_splits)

lemma handle_event_tm: "handle_event ctl i ev p = Inr p' \<Longrightarrow> tm p' = tm p"
  by (auto simp: handle_event_def Let_def rbind_eq_Inr dest!: trigger_if_tm split: if_splits)

lemma handle_events_tm: "handle_events ctl rs p = Inr p' \<Longrightarrow> tm p' = tm p"
proof (induction rs arbitrary: p)
  case (Cons r rs)
  then obtain p1 where "(case r of Tickled \<Rightarrow> Inr (p\<lparr>drained := tickles (scheds p (self p))\<rparr>)
      | Ready i ev \<Rightarrow> handle_event ctl i ev p) = Inr p1" "handle_events ctl rs p1 = Inr p'"
    by (auto simp: rbind_eq_Inr)
  then show ?case using Cons.IH [of p1] by (cases r) (auto dest: handle_event_tm)
qed simp

lemma idle_turn_tm:
  assumes "idle_turn ctl now1 now2 c rs p = Inr (r, p')"
  shows "tm p' = (tm p)\<lparr>m_tickled := False\<rparr> \<or> tm p' = snd (listExpiredCb now2 c ((tm p)\<lparr>m_tickled := False\<rparr>))"
  using assms
  by (auto simp: idle_turn_def stopping_timeout_def Let_def rbind_eq_Inr on_sched_def getNextTimer_snd
      split: prod.splits if_splits dest!: handle_events_tm)
     (metis getNextTimer_snd snd_conv)+

lemma with_tm_simps [simp]:
  "tm (with_tm t p) = t" "m_fdContexts (with_tm t p) = m_fdContexts p" "self (with_tm t p) = self p"
  "m_pendingEventCount (with_tm t p) = m_pendingEventCount p"
  by (simp_all add: with_tm_def Let_def poller_flushTimer_def poller_tickle_def)

lemma ep_inv_with_tm [simp]: "ep_inv (with_tm t p) = ep_inv p"
  by (rule ep_inv_same) simp_all

section \<open>Calls in progress\<close>

text \<open>The timers of the calls \<open>F\<close> in progress: each has its closure and is armed, or has fired.\<close>

definition closure :: "io_frame \<Rightarrow> hook_cb func" where
  "closure fr = CondFunc (fr_info fr) (Some (Io_timeout (fr_info fr) (fr_fd fr) (fr_event fr)))"

definition frame_ok :: "hook_cb timer_manager \<Rightarrow> io_frame \<Rightarrow> bool" where
  "frame_ok t fr \<longleftrightarrow> (case fr_timer fr of
       None \<Rightarrow> fr_to fr = -1
     | Some a \<Rightarrow> fr_to fr \<noteq> -1 \<and>
         (if a \<in> set (m_timers t) then m_cb (heap t a) = Some (closure fr) \<and> \<not> m_recurring (heap t a)
          else m_cb (heap t a) = None))"

definition tm_ok :: "hook_cb timer_manager \<Rightarrow> io_frame set \<Rightarrow> bool" where
  "tm_ok t F \<longleftrightarrow> tm_inv t \<and> (\<forall>fr \<in> F. frame_ok t fr) \<and>
     (\<forall>a \<in> set (m_timers t). \<forall>i c. m_cb (heap t a) = Some (CondFunc i c) \<longrightarrow>
        (\<exists>fr \<in> F. fr_timer fr = Some a \<and> fr_info fr = i))"

definition own_timers :: "io_frame set \<Rightarrow> bool" where
  "own_timers F \<longleftrightarrow> (\<forall>fr \<in> F. \<forall>fr' \<in> F. fr_timer fr \<noteq> None \<and> fr_timer fr = fr_timer fr' \<longrightarrow> fr = fr')"

definition io_inv :: "hook_state \<Rightarrow> io_frame set \<Rightarrow> bool" where
  "io_inv s F \<longleftrightarrow> (case ep s of None \<Rightarrow> F = {} | Some p \<Rightarrow> tm_ok (tm p) F) \<and>
     own_timers F \<and> inj_on fr_info F \<and>
     (\<forall>i. infos s i \<noteq> None \<longleftrightarrow> i \<in> fr_info ` F) \<and> (\<forall>fr \<in> F. fr_info fr < next_info s)"

lemma tm_ok_owner:
  assumes "tm_ok t F" and "a \<in> set (m_timers t)" and "m_cb (heap t a) = Some (CondFunc i c)"
  obtains fr where "fr \<in> F" "fr_timer fr = Some a" "fr_info fr = i"
  using assms unfolding tm_ok_def by blast

lemma tm_ok_frame: "tm_ok t F \<Longrightarrow> fr \<in> F \<Longrightarrow> frame_ok t fr"
  by (simp add: tm_ok_def)

lemma tm_okI:
  assumes "tm_inv t" and "\<And>fr. fr \<in> F \<Longrightarrow> frame_ok t fr"
    and "\<And>a i c. a \<in> set (m_timers t) \<Longrightarrow> m_cb (heap t a) = Some (CondFunc i c) \<Longrightarrow>
          \<exists>fr \<in> F. fr_timer fr = Some a \<and> fr_info fr = i"
  shows "tm_ok t F"
  using assms unfolding tm_ok_def by blast

lemma frame_ok_upd:
  assumes "frame_ok t fr" and "a \<notin> set (m_timers t)" and "fr_timer fr \<noteq> Some a"
    and "heap t' = (heap t)(a := x)" and "set (m_timers t') = insert a (set (m_timers t))"
  shows "frame_ok t' fr"
  using assms by (auto simp: frame_ok_def split: option.splits)

lemma tm_ok_cancel:
  assumes ok: "tm_ok t F" and own: "own_timers F" and fr: "fr \<in> F" "fr_timer fr = Some a"
  shows "tm_ok (snd (cancel a t)) (F - {fr})" and "a \<notin> set (m_timers (snd (cancel a t)))"
proof -
  have inv: "tm_inv t" using ok by (simp add: tm_ok_def)
  have other: "fr_timer fr' \<noteq> Some a" if "fr' \<in> F - {fr}" for fr'
    using that own fr by (auto simp: own_timers_def)
  have c: "m_timers (snd (cancel a t)) = filter (\<lambda>x. x \<noteq> a) (m_timers t) \<and>
      (\<forall>x. x \<noteq> a \<longrightarrow> heap (snd (cancel a t)) x = heap t x)"
  proof (cases "m_cb (heap t a) = None")
    case True
    then have "a \<notin> set (m_timers t)" using inv by (auto simp: tm_inv_def)
    then show ?thesis using True by (simp add: cancel_def filter_neq_absent)
  next
    case False
    then show ?thesis by (simp add: cancel_eq [OF inv])
  qed
  then show "a \<notin> set (m_timers (snd (cancel a t)))" by simp
  have frames: "frame_ok (snd (cancel a t)) fr'" if "fr' \<in> F - {fr}" for fr'
    using ok that other [OF that] c by (auto simp: tm_ok_def frame_ok_def split: option.splits)
  have owned: "\<exists>fr' \<in> F - {fr}. fr_timer fr' = Some x \<and> fr_info fr' = i"
    if "x \<in> set (m_timers (snd (cancel a t)))" "m_cb (heap (snd (cancel a t)) x) = Some (CondFunc i f)" for x i f
  proof -
    have x: "x \<noteq> a" "x \<in> set (m_timers t)" using that(1) c by auto
    then have "m_cb (heap t x) = Some (CondFunc i f)" using that(2) c by simp
    then obtain fr' where "fr' \<in> F" "fr_timer fr' = Some x" "fr_info fr' = i"
      by (rule tm_ok_owner [OF ok x(2)])
    then show ?thesis using x(1) fr(2) by auto
  qed
  show "tm_ok (snd (cancel a t)) (F - {fr})"
    using frames owned by (intro tm_okI [OF cancel_inv [OF inv]])
qed

lemma tm_ok_remove:
  assumes "tm_ok t F" and "fr_timer fr = None"
  shows "tm_ok t (F - {fr})"
proof -
  have "\<exists>fr' \<in> F - {fr}. fr_timer fr' = Some a \<and> fr_info fr' = i"
    if a: "a \<in> set (m_timers t)" "m_cb (heap t a) = Some (CondFunc i c)" for a i c
  proof -
    obtain fr' where "fr' \<in> F" "fr_timer fr' = Some a" "fr_info fr' = i"
      by (rule tm_ok_owner [OF assms(1) a])
    then show ?thesis using assms(2) by (intro bexI [of _ fr']) auto
  qed
  then show ?thesis using assms(1) by (intro tm_okI) (auto simp: tm_ok_def)
qed

text \<open>Adding a timer at a fresh address.\<close>

definition fresh_timer :: "addr \<Rightarrow> hook_cb timer_manager \<Rightarrow> io_frame set \<Rightarrow> bool" where
  "fresh_timer a t F \<longleftrightarrow> a \<notin> set (m_timers t) \<and> (\<forall>fr \<in> F. fr_timer fr \<noteq> Some a)"

lemma tm_ok_add:
  assumes ok: "tm_ok t F" and new: "fresh_timer a t F"
    and kind: "(\<exists>g. f = Func g \<and> G = F) \<or>
       (\<exists>fr. f = closure fr \<and> \<not> rec \<and> G = insert fr F \<and> fr_timer fr = Some a \<and> fr_to fr \<noteq> -1)"
  shows "tm_ok (addTimer now a ms (Some f) rec t) G"
proof -
  let ?t = "addTimer now a ms (Some f) rec t"
  have a: "a \<notin> set (m_timers t)" and inv: "tm_inv t"
    using ok new by (auto simp: tm_ok_def fresh_timer_def)
  note add = addTimer_inv [OF inv a, of "Some f" now ms rec, simplified]
  have old: "frame_ok ?t fr" if "fr \<in> F" for fr
    using frame_ok_upd [OF tm_ok_frame [OF ok that] a _ add(3,2)] new that by (auto simp: fresh_timer_def)
  have owned: "\<exists>fr \<in> F. fr_timer fr = Some x \<and> fr_info fr = i"
    if "x \<in> set (m_timers t)" "m_cb (heap ?t x) = Some (CondFunc i c)" for x i c
  proof -
    have "x \<noteq> a" using that(1) a by blast
    then have "m_cb (heap t x) = Some (CondFunc i c)" using that(2) add(3) by simp
    then show ?thesis by (rule tm_ok_owner [OF ok that(1)]) blast
  qed
  have at: "m_cb (heap ?t a) = Some f" "m_recurring (heap ?t a) = rec"
    by (simp_all add: add(3) new_timer_def)
  have owned': "\<exists>fr \<in> G. fr_timer fr = Some x \<and> fr_info fr = i"
    if x: "x \<in> set (m_timers ?t)" and cb: "m_cb (heap ?t x) = Some (CondFunc i c)" for x i c
  proof (cases "x = a")
    case True
    then show ?thesis using kind at(1) cb by (auto simp: closure_def)
  next
    case False
    then have "\<exists>fr \<in> F. fr_timer fr = Some x \<and> fr_info fr = i" using owned x cb add(2) by auto
    then show ?thesis using kind by blast
  qed
  have "frame_ok ?t fr" if "fr \<in> G" for fr
  proof (cases "fr \<in> F")
    case False
    then have "f = closure fr" "\<not> rec" "fr_timer fr = Some a" "fr_to fr \<noteq> -1" using that kind by auto
    then show ?thesis using at add(2) by (simp add: frame_ok_def)
  qed (rule old)
  then show ?thesis using owned' by (intro tm_okI [OF add(1)])
qed

lemma tm_ok_add_func:
  "tm_ok t F \<Longrightarrow> fresh_timer a t F \<Longrightarrow> tm_ok (addTimer now a ms (Some (Func g)) rec t) F"
  by (rule tm_ok_add) auto

lemma tm_ok_add_closure:
  "tm_ok t F \<Longrightarrow> fresh_timer a t F \<Longrightarrow> fr_timer fr = Some a \<Longrightarrow> fr_to fr \<noteq> -1 \<Longrightarrow>
    tm_ok (addTimer now a ms (Some (closure fr)) False t) (insert fr F)"
  by (rule tm_ok_add) auto

lemma tm_ok_insert_plain:
  assumes "tm_ok t F" and "fr_timer fr = None" and "fr_to fr = -1"
  shows "tm_ok t (insert fr F)"
proof (rule tm_okI)
  show "tm_inv t" using assms(1) by (simp add: tm_ok_def)
  show "frame_ok t fr'" if "fr' \<in> insert fr F" for fr'
    using that assms tm_ok_frame [OF assms(1)] by (cases "fr' = fr") (simp_all add: frame_ok_def)
  show "\<exists>fr \<in> insert fr F. fr_timer fr = Some a \<and> fr_info fr = i"
    if "a \<in> set (m_timers t)" "m_cb (heap t a) = Some (CondFunc i c)" for a i c
  proof -
    obtain g where "g \<in> F" "fr_timer g = Some a" "fr_info g = i"
      using tm_ok_owner [OF assms(1) \<open>a \<in> set (m_timers t)\<close> \<open>m_cb (heap t a) = Some (CondFunc i c)\<close>] by metis
    then show ?thesis by (intro bexI [of _ g]) simp_all
  qed
qed

lemma tm_ok_expire:
  assumes ok: "tm_ok t F" and c: "c \<notin> set (m_timers t)"
  shows "tm_ok (snd (listExpiredCb now c t)) F"
proof -
  have inv: "tm_inv t" using ok by (simp add: tm_ok_def)
  let ?due = "filter (\<lambda>a. m_next (heap t a) \<le> now) (m_timers t)"
  obtain t' where e: "listExpiredCb now c t = (map (\<lambda>a. m_cb (heap t a)) ?due, t')" "tm_inv t'"
      "set (m_timers t') = {a \<in> set (m_timers t). now < m_next (heap t a) \<or> m_recurring (heap t a)}"
      "heap t' = (\<lambda>a. if a \<in> set ?due then rearmed now (heap t a) else heap t a)"
    using listExpiredCb_spec [OF inv c refl, of now] by blast
  have t': "snd (listExpiredCb now c t) = t'" using e(1) by simp
  note t' = t' e(2-4)
  have frames: "frame_ok t' fr" if "fr \<in> F" for fr
  proof (cases "fr_timer fr")
    case None
    then show ?thesis using tm_ok_frame [OF ok that] by (simp add: frame_ok_def)
  next
    case (Some a)
    have f: "frame_ok t fr" using ok that by (simp add: tm_ok_def)
    show ?thesis
    proof (cases "a \<in> set (m_timers t)")
      case True
      then have "m_cb (heap t a) = Some (closure fr)" "\<not> m_recurring (heap t a)" "fr_to fr \<noteq> -1"
        using f Some by (simp_all add: frame_ok_def)
      then show ?thesis
        using True Some t'(3,4) by (cases "m_next (heap t a) \<le> now") (auto simp: frame_ok_def rearmed_def)
    next
      case False
      then show ?thesis using f Some t'(3,4) by (simp add: frame_ok_def)
    qed
  qed
  have "\<exists>fr \<in> F. fr_timer fr = Some a \<and> fr_info fr = i"
    if a: "a \<in> set (m_timers t')" "m_cb (heap t' a) = Some (CondFunc i f)" for a i f
  proof -
    have "a \<in> set (m_timers t)" "m_cb (heap t a) = Some (CondFunc i f)"
      using a t'(3,4) by (auto simp: rearmed_def split: if_splits)
    then show ?thesis by (rule tm_ok_owner [OF ok]) blast
  qed
  then show ?thesis unfolding t'(1) using frames by (intro tm_okI [OF t'(2)])
qed

lemma tm_ok_tickled [simp]: "tm_ok (t\<lparr>m_tickled := b\<rparr>) F = tm_ok t F"
  by (simp add: tm_ok_def frame_ok_def tm_inv_def cong: option.case_cong)

section \<open>The steps of a call\<close>

definition hook_timers :: "hook_state \<Rightarrow> hook_cb timer_manager option" where
  "hook_timers s = map_option tm (ep s)"

lemma io_inv_cong:
  "hook_timers s' = hook_timers s \<Longrightarrow> infos s' = infos s \<Longrightarrow> next_info s' = next_info s \<Longrightarrow>
    io_inv s' F = io_inv s F"
  by (auto simp: io_inv_def hook_timers_def split: option.splits)

lemma disarm_simps [simp]:
  "infos (disarm t s) = infos s" "next_info (disarm t s) = next_info s" "errno (disarm t s) = errno s"
  "fdm (disarm t s) = fdm s" "t_hook_enable (disarm t s) = t_hook_enable s"
  "ep (disarm t s) = None \<longleftrightarrow> ep s = None"
  by (auto simp: disarm_def split: option.split)

lemma drop_info_simps [simp]:
  "infos (drop_info i s) = (infos s)(i := None)" "next_info (drop_info i s) = next_info s"
  "ep (drop_info i s) = ep s" "errno (drop_info i s) = errno s" "hook_timers (drop_info i s) = hook_timers s"
  by (simp_all add: drop_info_def hook_timers_def)

lemma hook_timers_errno [simp]: "hook_timers (s\<lparr>errno := e\<rparr>) = hook_timers s"
  by (simp add: hook_timers_def)

text \<open>
  The state of a call that is running: its information object is alive and it has no timer
  armed, so that leaving out its frame leaves the invariant of the others.
\<close>

definition io_mid :: "hook_state \<Rightarrow> io_frame set \<Rightarrow> nat \<Rightarrow> bool" where
  "io_mid s F i \<longleftrightarrow> (case ep s of None \<Rightarrow> F = {} | Some p \<Rightarrow> tm_ok (tm p) F) \<and>
     own_timers F \<and> inj_on fr_info F \<and> i \<notin> fr_info ` F \<and> i < next_info s \<and>
     (\<forall>j. infos s j \<noteq> None \<longleftrightarrow> j = i \<or> j \<in> fr_info ` F) \<and> (\<forall>fr \<in> F. fr_info fr < next_info s)"

lemma io_mid_cong:
  "hook_timers s' = hook_timers s \<Longrightarrow> infos s' = infos s \<Longrightarrow> next_info s' = next_info s \<Longrightarrow>
    io_mid s' F i = io_mid s F i"
  by (auto simp: io_mid_def hook_timers_def split: option.splits)

lemma io_mid_new:
  assumes "io_inv s F" and "new_info s = (i, s1)"
  shows "io_mid s1 F i"
  using assms by (fastforce simp: io_inv_def io_mid_def new_info_def split: option.splits)

lemma io_mid_drop: "io_mid s F i \<Longrightarrow> io_inv (drop_info i s) F"
  by (auto simp: io_inv_def io_mid_def split: option.splits)

lemma io_mid_resume:
  assumes "io_inv s F" and "fr \<in> F"
  shows "io_mid (disarm (fr_timer fr) s) (F - {fr}) (fr_info fr)"
proof -
  obtain p where p: "ep s = Some p" and ok: "tm_ok (tm p) F"
    using assms by (cases "ep s") (auto simp: io_inv_def)
  have own: "own_timers F" "inj_on fr_info F" and al: "\<And>i. infos s i \<noteq> None \<longleftrightarrow> i \<in> fr_info ` F"
    and lt: "\<And>g. g \<in> F \<Longrightarrow> fr_info g < next_info s"
    using assms(1) by (auto simp: io_inv_def)
  have "\<exists>q. ep (disarm (fr_timer fr) s) = Some q \<and> tm_ok (tm q) (F - {fr})"
    using tm_ok_cancel(1) [OF ok own(1) assms(2)] tm_ok_remove [OF ok, of fr] p
    by (cases "fr_timer fr") (auto simp: disarm_def)
  moreover have "own_timers (F - {fr})" using own(1) by (auto simp: own_timers_def)
  moreover have "fr_info fr \<notin> fr_info ` (F - {fr})" "inj_on fr_info (F - {fr})"
    using own(2) assms(2) by (auto simp: inj_on_def)
  moreover have "fr_info ` F = insert (fr_info fr) (fr_info ` (F - {fr}))" using assms(2) by auto
  ultimately show ?thesis
    using al lt assms(2) by (auto simp: io_mid_def)
qed

lemma own_timers_insert:
  assumes "own_timers F" and "fr_timer g = None \<or> (\<forall>fr \<in> F. fr_timer fr \<noteq> fr_timer g)"
  shows "own_timers (insert g F)"
proof -
  have "h = h'" if "h \<in> insert g F" "h' \<in> insert g F" "fr_timer h \<noteq> None" "fr_timer h = fr_timer h'" for h h'
    using assms that unfolding own_timers_def by (metis insert_iff)
  then show ?thesis unfolding own_timers_def by blast
qed

lemma arm_io:
  assumes mid: "io_mid s F (fr_info fr)"
    and new: "\<And>p. ep s = Some p \<Longrightarrow> fresh_timer a (tm p) F"
    and arm: "arm k now a me fr s = Inr (rt, fr1, s1)"
  shows "io_inv s1 (insert fr1 F)" and "fr_info fr1 = fr_info fr" and "fr1 \<notin> F" and "infos s1 = infos s"
proof -
  obtain p where p: "ep s = Some p" using arm by (auto simp: arm_def split: option.splits)
  have fresh: "fresh_timer a (tm p) F" by (rule new [OF p])
  have ok: "tm_ok (tm p) F" and own: "own_timers F" "inj_on fr_info F" "fr_info fr \<notin> fr_info ` F"
    and al: "\<And>j. infos s j \<noteq> None \<longleftrightarrow> j = fr_info fr \<or> j \<in> fr_info ` F"
    and lt: "fr_info fr < next_info s" "\<And>g. g \<in> F \<Longrightarrow> fr_info g < next_info s"
    using mid p by (auto simp: io_mid_def)
  let ?c = "fr_to fr = -1"
  let ?t = "if ?c then tm p else addConditionTimer now a (fr_to fr)
      (Some (Io_timeout (fr_info fr) (fr_fd fr) (fr_event fr))) (fr_info fr) False (tm p)"
  have fr1: "fr1 = fr\<lparr>fr_timer := if ?c then None else Some a\<rparr>"
    and s1: "infos s1 = infos s" "next_info s1 = next_info s" "\<exists>q. ep s1 = Some q \<and> tm q = ?t"
    using arm p by (auto simp: arm_def Let_def rbind_eq_Inr dest!: addEvent_tm split: if_splits prod.splits)
  show i: "fr_info fr1 = fr_info fr" using fr1 by simp
  then show n: "fr1 \<notin> F" using own(3) by (metis image_eqI)
  show "infos s1 = infos s" by (rule s1(1))
  have "tm_ok ?t (insert fr1 F)"
  proof (cases ?c)
    case True
    then show ?thesis using tm_ok_insert_plain [OF ok, of fr1] by (simp add: fr1)
  next
    case False
    have "closure fr1 = CondFunc (fr_info fr) (Some (Io_timeout (fr_info fr) (fr_fd fr) (fr_event fr)))"
      by (simp add: closure_def fr1)
    then show ?thesis
      using False fr1 tm_ok_add_closure [OF ok fresh, where fr=fr1 and now=now and ms="fr_to fr"]
      by (simp add: addConditionTimer_def)
  qed
  moreover have "own_timers (insert fr1 F)"
    using fresh by (intro own_timers_insert [OF own(1)]) (simp add: fresh_timer_def fr1)
  moreover have "inj_on fr_info (insert fr1 F)"
    using own(2,3) i n by (simp add: Diff_insert_absorb)
  moreover have "infos s1 j \<noteq> None \<longleftrightarrow> j \<in> fr_info ` insert fr1 F" for j
    using al [of j] i s1(1) by simp
  moreover have "\<forall>g \<in> insert fr1 F. fr_info g < next_info s1"
    using lt i s1(2) by simp
  moreover have "case ep s1 of None \<Rightarrow> insert fr1 F = {} | Some q \<Rightarrow> tm_ok (tm q) (insert fr1 F)"
    using calculation(1) s1(3) by (elim exE) simp
  ultimately show "io_inv s1 (insert fr1 F)"
    unfolding io_inv_def by (intro conjI allI)
qed

text \<open>What a step of a call leaves: the frame it is held in, if it is.\<close>

definition left :: "io_result \<Rightarrow> io_frame set" where
  "left r = (case r of Held fr \<Rightarrow> {fr} | _ \<Rightarrow> {})"

lemma io_inv_disarm_drop:
  assumes "io_inv s (insert fr F)" and "fr \<notin> F"
  shows "io_inv (drop_info (fr_info fr) (disarm (fr_timer fr) s)) F"
proof -
  have "io_mid (disarm (fr_timer fr) s) (insert fr F - {fr}) (fr_info fr)"
    by (rule io_mid_resume [OF assms(1)]) simp
  then show ?thesis using io_mid_drop assms(2) by (simp add: Diff_insert_absorb)
qed

lemma retry_io:
  assumes mid: "io_mid s F (fr_info fr)"
    and new: "\<And>p. ep s = Some p \<Longrightarrow> fresh_timer a (tm p) F"
    and retry: "retry k now a me fr rs s = Inr (r, s')" and ans: "r \<noteq> No_answer"
  shows "io_inv s' (left r \<union> F)"
proof -
  obtain n e where c: "io_call rs (errno s) = Some (n, e)"
    using retry ans by (auto simp: retry_def split: option.splits)
  let ?s = "s\<lparr>errno := e\<rparr>"
  have mid': "io_mid ?s F (fr_info fr)" using mid by (subst io_mid_cong [of ?s s]) simp_all
  show ?thesis
  proof (cases "n = -1 \<and> e = EAGAIN")
    case False
    then show ?thesis
      using retry c io_mid_drop [OF mid'] by (auto simp: retry_def Let_def left_def)
  next
    case True
    then obtain rt fr1 s1 where arm: "arm k now a me fr ?s = Inr (rt, fr1, s1)"
      and r: "(r, s') = (if rt \<noteq> 0 then (Returned (-1), drop_info (fr_info fr) (disarm (fr_timer fr1) s1))
                          else (Held fr1, s1))"
      using retry c by (auto simp: retry_def rbind_eq_Inr split: if_splits)
    note a = arm_io [OF mid' _ arm, simplified, OF new]
    show ?thesis
      using r a(1) io_inv_disarm_drop [OF a(1,3)] a(2) by (auto simp: left_def split: if_splits)
  qed
qed

end
