(* ===== verification/Hook_World.thy ===== *)
theory Hook_World
  imports Hook_Facts
begin

text \<open>
  All hooked calls of a thread's poller together: a state with the set of the calls that are held,
  and every step the calls, their timers, the poller and the rest of the program can take, in any
  order.
\<close>

definition fresh_in :: "addr \<Rightarrow> hook_state \<Rightarrow> io_frame set \<Rightarrow> bool" where
  "fresh_in a s F \<longleftrightarrow> (\<forall>p. ep s = Some p \<longrightarrow> fresh_timer a (tm p) F)"

text \<open>
  The steps: a call begins, goes on after it was held, or connects; a callback runs, however late;
  the poller turns, with any clock and any reports; a fiber sleeps; and whatever else changes
  neither timers nor information objects (descriptor contexts, flags, schedulers).
\<close>

inductive io_step :: "hook_state \<times> io_frame set \<Rightarrow> hook_state \<times> io_frame set \<Rightarrow> bool" where
  io_begin: "do_io k now a me fd e so rs s = Inr (r, s') \<Longrightarrow> r \<noteq> No_answer \<Longrightarrow> fresh_in a s F \<Longrightarrow>
    io_step (s, F) (s', left r \<union> F)"
| io_resume: "fr \<in> F \<Longrightarrow> do_io_resume k now a me fr rs s = Inr (r, s') \<Longrightarrow> r \<noteq> No_answer \<Longrightarrow>
    fresh_in a s F \<Longrightarrow> io_step (s, F) (s', left r \<union> (F - {fr}))"
| io_connect: "connect_with_timeout k now a me fd ms rs so s = Inr (r, s') \<Longrightarrow> fresh_in a s F \<Longrightarrow>
    io_step (s, F) (s', left r \<union> F)"
| io_connected: "fr \<in> F \<Longrightarrow> connect_resume fr so s = (r, s') \<Longrightarrow> io_step (s, F) (s', F - {fr})"
| io_callback: "hook_callback k cb s = Inr s' \<Longrightarrow> io_step (s, F) (s', F)"
| io_turn: "ep s = Some p \<Longrightarrow> c \<notin> set (m_timers (tm p)) \<Longrightarrow> idle_turn ctl now1 now2 c rs p = Inr (r, p') \<Longrightarrow>
    io_step (s, F) (s\<lparr>ep := Some p'\<rparr>, F)"
| io_sleep: "sleep_for now a me ms s = Inr (r, s') \<Longrightarrow> fresh_in a s F \<Longrightarrow> io_step (s, F) (s', F)"
| io_other: "hook_timers s' = hook_timers s \<Longrightarrow> infos s' = infos s \<Longrightarrow> next_info s' = next_info s \<Longrightarrow>
    io_step (s, F) (s', F)"

lemma plain_simps [simp]:
  "infos (snd (plain rs s)) = infos s" "next_info (snd (plain rs s)) = next_info s"
  "hook_timers (snd (plain rs s)) = hook_timers s" "ep (snd (plain rs s)) = ep s" "left (fst (plain rs s)) = {}"
  by (auto simp: plain_def hook_timers_def left_def split: list.split)

lemma plain_io: "io_inv s F \<Longrightarrow> plain rs s = (r, s') \<Longrightarrow> io_inv s' (left r \<union> F)"
  using plain_simps [of rs s] by (subst io_inv_cong [of s' s]) simp_all

lemma find_ctx_cases:
  assumes "rbind (find_ctx fd s) f = Inr x"
  obtains "f None = Inr x" | p where "f (Some p) = Inr x"
proof -
  obtain c where "f c = Inr x" using assms by (auto simp: rbind_eq_Inr)
  then show ?thesis using that by (cases c) auto
qed

lemma new_info_io:
  assumes "io_inv s F" and "fresh_in a s F"
  shows "io_mid (snd (new_info s)) F (fst (new_info s))"
    and "ep (snd (new_info s)) = Some p \<Longrightarrow> fresh_timer a (tm p) F"
  using io_mid_new [OF assms(1)] assms(2) by (auto simp: new_info_def fresh_in_def)

lemma errno_io: "io_inv (s\<lparr>errno := e\<rparr>) F = io_inv s F"
  by (rule io_inv_cong) simp_all

lemma do_io_io:
  assumes inv: "io_inv s F" and new: "fresh_in a s F"
    and io: "do_io k now a me fd e so rs s = Inr (r, s')" and ans: "r \<noteq> No_answer"
  shows "io_inv s' (left r \<union> F)"
proof (cases "t_hook_enable s")
  case False
  then show ?thesis using io plain_io [OF inv] by (simp add: do_io_def)
next
  case True
  let ?go = "\<lambda>p. if m_isClosed (the_ctx p s) then Inr (Returned (-1), s\<lparr>errno := EBADF\<rparr>)
     else if \<not> m_isSocket (the_ctx p s) \<or> m_userNonblock (the_ctx p s) then Inr (plain rs s)
     else retry k now a me \<lparr>fr_fd = fd, fr_event = e, fr_to = getTimeout so (the_ctx p s), fr_timer = None,
            fr_info = fst (new_info s)\<rparr> rs (snd (new_info s))"
  have "rbind (find_ctx fd s) (\<lambda>c. case c of None \<Rightarrow> Inr (plain rs s) | Some p \<Rightarrow> ?go p) = Inr (r, s')"
    using io [unfolded do_io_def Let_def case_prod_unfold] True by simp
  then show ?thesis
  proof (cases rule: find_ctx_cases)
    case 1
    then show ?thesis using plain_io [OF inv] by simp
  next
    case (2 p)
    show ?thesis
    proof (cases "m_isClosed (the_ctx p s) \<or> \<not> m_isSocket (the_ctx p s) \<or> m_userNonblock (the_ctx p s)")
      case True
      then show ?thesis
        using 2 plain_io [OF inv] inv by (auto simp: errno_io left_def split: if_splits)
    next
      case False
      let ?fr = "\<lparr>fr_fd = fd, fr_event = e, fr_to = getTimeout so (the_ctx p s), fr_timer = None,
            fr_info = fst (new_info s)\<rparr>"
      have go: "retry k now a me ?fr rs (snd (new_info s)) = Inr (r, s')" using 2 False by simp
      have "io_mid (snd (new_info s)) F (fr_info ?fr)" using new_info_io(1) [OF inv new] by simp
      then show ?thesis by (rule retry_io [OF _ new_info_io(2) [OF inv new] go ans])
    qed
  qed
qed

lemma disarm_fresh:
  assumes inv: "io_inv s F" and fr: "fr \<in> F" and new: "fresh_in a s F"
  shows "fresh_in a (disarm (fr_timer fr) s) (F - {fr})"
proof -
  have "set (m_timers (snd (cancel b (tm p)))) \<subseteq> set (m_timers (tm p))" if "tm_inv (tm p)" for b p
    using cancel_eq [OF that, of b] by (cases "m_cb (heap (tm p) b) = None") (auto simp: cancel_def)
  then show ?thesis
    using inv new by (auto simp: fresh_in_def fresh_timer_def disarm_def io_inv_def tm_ok_def split: option.splits)
qed

lemma do_io_resume_io:
  assumes inv: "io_inv s F" and fr: "fr \<in> F" and new: "fresh_in a s F"
    and io: "do_io_resume k now a me fr rs s = Inr (r, s')" and ans: "r \<noteq> No_answer"
  shows "io_inv s' (left r \<union> (F - {fr}))"
proof -
  let ?s = "disarm (fr_timer fr) s"
  note mid = io_mid_resume [OF inv fr]
  show ?thesis
  proof (cases "cancelled (fr_info fr) ?s = 0")
    case True
    then have "retry k now a me fr rs ?s = Inr (r, s')" using io by (simp add: do_io_resume_def)
    then show ?thesis
      using disarm_fresh [OF inv fr new] by (intro retry_io [OF mid _ _ ans]) (auto simp: fresh_in_def)
  next
    case False
    have "io_mid (?s\<lparr>errno := e\<rparr>) (F - {fr}) (fr_info fr)" for e
      using mid by (subst io_mid_cong [of _ ?s]) simp_all
    then show ?thesis using io False io_mid_drop by (auto simp: do_io_resume_def Let_def left_def)
  qed
qed

lemma connect_result_io:
  assumes "io_mid s F i" and "connect_result so i s = (r, s')"
  shows "io_inv s' F" and "left r = {}"
proof -
  have "io_mid (s\<lparr>errno := e\<rparr>) F i" for e using assms(1) by (subst io_mid_cong [of _ s]) simp_all
  then show "io_inv s' F" "left r = {}"
    using assms io_mid_drop by (auto simp: connect_result_def left_def split: sum.splits if_splits)
qed

lemma connect_resume_io:
  assumes inv: "io_inv s F" and fr: "fr \<in> F" and io: "connect_resume fr so s = (r, s')"
  shows "io_inv s' (F - {fr})"
proof -
  let ?s = "disarm (fr_timer fr) s"
  note mid = io_mid_resume [OF inv fr]
  have "io_mid (?s\<lparr>errno := e\<rparr>) (F - {fr}) (fr_info fr)" for e
    using mid by (subst io_mid_cong [of _ ?s]) simp_all
  then show ?thesis
    using io io_mid_drop connect_result_io(1) [OF mid]
    by (cases "cancelled (fr_info fr) ?s = 0") (auto simp: connect_resume_def Let_def)
qed

lemma connect_call_io:
  assumes inv: "io_inv s F" and new: "fresh_in a s F"
    and io: "connect_call k now a me fd ms rs so s = Inr (r, s')"
  shows "io_inv s' (left r \<union> F)"
proof -
  obtain r0 s0 where pl: "plain rs s = (r0, s0)" by fastforce
  have inv0: "io_inv s0 F" "left r0 = {}" and new0: "fresh_in a s0 F"
    using plain_io [OF inv pl] plain_simps [of rs s] new pl by (auto simp: fresh_in_def)
  show ?thesis
  proof (cases "r0 = Returned (-1) \<and> errno s0 = EINPROGRESS")
    case False
    then show ?thesis
      using io inv0 by (auto simp: connect_call_def pl left_def split: io_result.splits if_splits)
  next
    case True
    let ?fr = "\<lparr>fr_fd = fd, fr_event = WRITE, fr_to = ms, fr_timer = None, fr_info = fst (new_info s0)\<rparr>"
    obtain rt fr s3 where arm: "arm k now a me ?fr (snd (new_info s0)) = Inr (rt, fr, s3)"
      and r: "(r, s') = (if rt = 0 then (Held fr, s3)
           else connect_result so (fst (new_info s0)) (disarm (fr_timer fr) s3))"
      using io True by (auto simp: connect_call_def pl rbind_eq_Inr split: if_splits prod.splits)
    have "io_mid (snd (new_info s0)) F (fr_info ?fr)" using new_info_io(1) [OF inv0(1) new0] by simp
    note a = arm_io [OF this new_info_io(2) [OF inv0(1) new0] arm]
    have "io_mid (disarm (fr_timer fr) s3) (insert fr F - {fr}) (fr_info fr)"
      by (rule io_mid_resume [OF a(1) insertI1])
    then have mid: "io_mid (disarm (fr_timer fr) s3) F (fst (new_info s0))"
      using a(2,3) by (simp add: Diff_insert_absorb)
    show ?thesis
    proof (cases "rt = 0")
      case True
      then show ?thesis using r a(1) by (simp add: left_def)
    next
      case False
      then have "connect_result so (fst (new_info s0)) (disarm (fr_timer fr) s3) = (r, s')" using r by simp
      from connect_result_io [OF mid this] show ?thesis by simp
    qed
  qed
qed

lemma connect_io:
  assumes inv: "io_inv s F" and new: "fresh_in a s F"
    and io: "connect_with_timeout k now a me fd ms rs so s = Inr (r, s')"
  shows "io_inv s' (left r \<union> F)"
proof (cases "t_hook_enable s")
  case False
  then show ?thesis using io plain_io [OF inv] by (simp add: connect_with_timeout_def)
next
  case True
  have "rbind (find_ctx fd s) (\<lambda>c. case c of None \<Rightarrow> Inr (Returned (-1), s\<lparr>errno := EBADF\<rparr>)
      | Some p \<Rightarrow> if m_isClosed (the_ctx p s) then Inr (Returned (-1), s\<lparr>errno := EBADF\<rparr>)
          else if \<not> m_isSocket (the_ctx p s) then Inr (plain rs s)
          else if m_userNonblock (the_ctx p s) then Inr (plain rs s)
          else connect_call k now a me fd ms rs so s) = Inr (r, s')"
    using io [unfolded connect_with_timeout_def Let_def] True by simp
  then show ?thesis
  proof (cases rule: find_ctx_cases)
    case 1
    then show ?thesis using inv by (auto simp: errno_io left_def)
  next
    case (2 p)
    then show ?thesis
      using inv plain_io [OF inv] connect_call_io [OF inv new]
      by (auto simp: errno_io left_def split: if_splits)
  qed
qed

lemma callback_io:
  assumes "io_inv s F" and "hook_callback k cb s = Inr s'"
  shows "io_inv s' F"
proof (cases cb)
  case (Wake f)
  then show ?thesis
    using assms by (subst io_inv_cong [of s' s])
      (auto simp: hook_callback_def hook_timers_def on_sched_def split: option.splits)
next
  case (Io_timeout i fd e)
  have "infos s' j \<noteq> None \<longleftrightarrow> infos s j \<noteq> None" for j
    using assms(2) Io_timeout
    by (auto simp: hook_callback_def Let_def rbind_eq_Inr split: option.splits if_splits)
  moreover have "next_info s' = next_info s" "hook_timers s' = hook_timers s"
    using assms(2) Io_timeout
    by (auto simp: hook_callback_def hook_timers_def Let_def rbind_eq_Inr dest: cancelEvent_tm
        split: option.splits if_splits)
  ultimately show ?thesis
    using assms(1) by (auto simp: io_inv_def hook_timers_def split: option.splits)
qed

lemma io_step_inv: "io_step (s, F) (s', F') \<Longrightarrow> io_inv s F \<Longrightarrow> io_inv s' F'"
proof (induction "(s, F)" "(s', F')" rule: io_step.induct)
  case (io_turn p c ctl now1 now2 rs r p')
  have "tm_ok (tm p) F" using io_turn by (simp add: io_inv_def)
  then have "tm_ok (tm p') F"
    using idle_turn_tm [OF io_turn(3)] tm_ok_expire [of "(tm p)\<lparr>m_tickled := False\<rparr>" F c now2] io_turn(2)
    by auto
  then show ?case using io_turn by (auto simp: io_inv_def)
next
  case (io_sleep now a me ms r)
  then show ?case
    by (auto simp: sleep_for_def io_inv_def fresh_in_def tm_ok_add_func split: option.splits)
next
  case io_other
  then show ?case using io_inv_cong by blast
qed (blast intro: do_io_io do_io_resume_io connect_io connect_resume_io callback_io)+

lemma io_steps_inv: "io_step\<^sup>*\<^sup>* (s, F) (s', F') \<Longrightarrow> io_inv s F \<Longrightarrow> io_inv s' F'"
  by (induction rule: rtranclp_induct2) (auto intro: io_step_inv)

text \<open>A state in which no hooked call has been made yet.\<close>

definition no_calls :: "hook_state \<Rightarrow> bool" where
  "no_calls s \<longleftrightarrow> infos s = (\<lambda>_. None) \<and> (case ep s of None \<Rightarrow> True | Some p \<Rightarrow> m_timers (tm p) = [])"

lemma no_calls_inv: "no_calls s \<Longrightarrow> io_inv s {}"
  by (auto simp: no_calls_def io_inv_def own_timers_def tm_ok_def tm_inv_def split: option.splits)

end
