(* ===== verification/Hook_Properties.thy ===== *)
theory Hook_Properties
  imports Hook_World
begin

text \<open>
  The properties of the hooked calls: what one call does until it is held or returns, what it does
  when it goes on, the invariant of all calls together, and the sleeps, flags and options.
\<close>

section \<open>A call that is answered\<close>

lemma io_call_eintr:
  "(n, e) \<noteq> (-1, EINTR) \<Longrightarrow>
    io_call (replicate m (-1, EINTR) @ (n, e) # rest) e0 =
      Some (n, if n = -1 then e else if m = 0 then e0 else EINTR)"
  by (induction m arbitrary: e0) auto

text \<open>A descriptor that the hooks wait for: a socket the user has not made non-blocking.\<close>

definition waited_for :: "int \<Rightarrow> nat \<Rightarrow> hook_state \<Rightarrow> bool" where
  "waited_for fd p s \<longleftrightarrow> t_hook_enable s \<and> find_ctx fd s = Inr (Some p) \<and>
     \<not> m_isClosed (the_ctx p s) \<and> m_isSocket (the_ctx p s) \<and> \<not> m_userNonblock (the_ctx p s)"

lemma do_io_waited:
  "waited_for fd p s \<Longrightarrow> do_io k now a me fd e so rs s =
    retry k now a me \<lparr>fr_fd = fd, fr_event = e, fr_to = getTimeout so (the_ctx p s), fr_timer = None,
      fr_info = next_info s\<rparr> rs
      (s\<lparr>infos := (infos s)(next_info s := Some 0), next_info := Suc (next_info s)\<rparr>)"
  by (simp add: do_io_def waited_for_def new_info_def)

text \<open>The poller once \<^verbatim>\<open>arm\<close> has added the timer, and \<^verbatim>\<open>arm\<close> by what \<^verbatim>\<open>addEvent\<close> then does.\<close>

definition timed :: "u64 \<Rightarrow> addr \<Rightarrow> io_frame \<Rightarrow> hook_cb poller \<Rightarrow> hook_cb poller" where
  "timed now a fr q = (if fr_to fr = -1 then q
     else with_tm (addTimer now a (fr_to fr) (Some (closure fr)) False (tm q)) q)"

lemma timed_simps [simp]:
  "m_fdContexts (timed now a fr q) = m_fdContexts q" "self (timed now a fr q) = self q"
  "ep_inv (timed now a fr q) = ep_inv q"
  by (simp_all add: timed_def)

lemma arm_eq:
  assumes "ep s = Some q"
  shows "arm k now a me fr s =
    rbind (lift_poller (addEvent (os_ctl k) (Some (self q)) me True (fr_fd fr) (fr_event fr) None (timed now a fr q)))
      (\<lambda>(rt, q'). Inr (rt, fr\<lparr>fr_timer := if fr_to fr = -1 then None else Some a\<rparr>,
         if rt \<noteq> 0 then s\<lparr>ep := Some q', errno := os_errno k\<rparr> else s\<lparr>ep := Some q'\<rparr>))"
  using assms by (cases "fr_to fr = -1") (simp_all add: arm_def timed_def addConditionTimer_def closure_def Let_def)

text \<open>What \<^verbatim>\<open>epoll_ctl\<close> is asked when the event is added.\<close>

definition accepts :: "os \<Rightarrow> int \<Rightarrow> u32 \<Rightarrow> hook_cb poller \<Rightarrow> bool" where
  "accepts k fd e q \<longleftrightarrow>
     (let c = m_fdContexts q ! nat fd
      in os_ctl k (if ctx_events c \<noteq> 0 then EPOLL_CTL_MOD else EPOLL_CTL_ADD) fd (EPOLLET OR ctx_events c OR e))"

definition awaited :: "int \<Rightarrow> nat \<Rightarrow> hook_cb poller \<Rightarrow> bool" where
  "awaited fd j q \<longleftrightarrow> bit (ctx_events (m_fdContexts q ! nat fd)) j"

lemma arm_cases:
  assumes p: "ep s = Some q" and inv: "ep_inv q" and tm: "tm_inv (tm q)" "a \<notin> set (m_timers (tm q))"
    and fd: "0 \<le> fr_fd fr" "nat (fr_fd fr) < length (m_fdContexts q)" and e: "is_event (fr_event fr) j"
  shows "awaited (fr_fd fr) j q \<Longrightarrow> arm k now a me fr s = Inl (Poller_failed Assert_failed)"
    and "\<not> awaited (fr_fd fr) j q \<Longrightarrow> \<not> accepts k (fr_fd fr) (fr_event fr) q \<Longrightarrow>
      arm k now a me fr s = Inr (-1, fr\<lparr>fr_timer := if fr_to fr = -1 then None else Some a\<rparr>,
        s\<lparr>ep := Some (timed now a fr q), errno := os_errno k\<rparr>)"
    and "\<not> awaited (fr_fd fr) j q \<Longrightarrow> accepts k (fr_fd fr) (fr_event fr) q \<Longrightarrow> \<exists>q'.
      arm k now a me fr s = Inr (0, fr\<lparr>fr_timer := if fr_to fr = -1 then None else Some a\<rparr>, s\<lparr>ep := Some q'\<rparr>) \<and>
      ep_inv q' \<and> awaited (fr_fd fr) j q' \<and> length (m_fdContexts q') = length (m_fdContexts q) \<and> tm q' = tm (timed now a fr q) \<and>
      ctx_of j (m_fdContexts q' ! nat (fr_fd fr)) = \<lparr>ec_scheduler = Some (self q), ec_fiber = Some me, ec_cb = None\<rparr>"
proof -
  let ?q = "timed now a fr q"
  have fd': "nat (fr_fd fr) < length (m_fdContexts ?q)" using fd(2) by simp
  note refused = addEvent_refused [OF e fd(1) fd', of "os_ctl k" "Some (self q)" me True None]
  show "arm k now a me fr s = Inl (Poller_failed Assert_failed)" if "awaited (fr_fd fr) j q"
    using refused(1) that by (simp add: arm_eq [OF p] awaited_def)
  show "arm k now a me fr s = Inr (-1, fr\<lparr>fr_timer := if fr_to fr = -1 then None else Some a\<rparr>,
        s\<lparr>ep := Some ?q, errno := os_errno k\<rparr>)"
    if "\<not> awaited (fr_fd fr) j q" "\<not> accepts k (fr_fd fr) (fr_event fr) q"
    using refused(2) that by (simp add: arm_eq [OF p] awaited_def accepts_def Let_def)
  show "\<exists>q'. arm k now a me fr s = Inr (0, fr\<lparr>fr_timer := if fr_to fr = -1 then None else Some a\<rparr>, s\<lparr>ep := Some q'\<rparr>) \<and>
      ep_inv q' \<and> awaited (fr_fd fr) j q' \<and> length (m_fdContexts q') = length (m_fdContexts q) \<and> tm q' = tm ?q \<and>
      ctx_of j (m_fdContexts q' ! nat (fr_fd fr)) = \<lparr>ec_scheduler = Some (self q), ec_fiber = Some me, ec_cb = None\<rparr>"
    if "\<not> awaited (fr_fd fr) j q" "accepts k (fr_fd fr) (fr_event fr) q"
  proof -
    have i: "ep_inv ?q" using inv by simp
    have nb: "\<not> bit (ctx_events (m_fdContexts ?q ! nat (fr_fd fr))) j"
      and acc: "os_ctl k (if ctx_events (m_fdContexts ?q ! nat (fr_fd fr)) \<noteq> 0 then EPOLL_CTL_MOD else EPOLL_CTL_ADD)
        (fr_fd fr) (EPOLLET OR ctx_events (m_fdContexts ?q ! nat (fr_fd fr)) OR fr_event fr)"
      using that by (simp_all add: awaited_def accepts_def Let_def)
    obtain q' where q': "addEvent (os_ctl k) (Some (self q)) me True (fr_fd fr) (fr_event fr) None ?q = Inr (0, q')"
      "ep_inv q'" "bit (ctx_events (m_fdContexts q' ! nat (fr_fd fr))) j"
      "ctx_of j (m_fdContexts q' ! nat (fr_fd fr)) = \<lparr>ec_scheduler = Some (self q), ec_fiber = Some me, ec_cb = None\<rparr>"
      using addEvent_new [where ctl="os_ctl k", OF i e fd(1) fd' nb acc, of None True "Some (self q)" "self q" me] by auto
    then show ?thesis
      using addEvent_tm [OF q'(1)] addEvent_length [OF q'(1)] by (intro exI [of _ q']) (simp add: arm_eq [OF p] awaited_def)
  qed
qed

text \<open>The timer that \<^verbatim>\<open>timed\<close> has added.\<close>

lemma timed_timers:
  assumes "tm_inv (tm q)" and "a \<notin> set (m_timers (tm q))"
  shows "set (m_timers (tm (timed now a fr q))) =
      (if fr_to fr = -1 then set (m_timers (tm q)) else insert a (set (m_timers (tm q))))"
    and "fr_to fr \<noteq> -1 \<Longrightarrow> heap (tm (timed now a fr q)) a = new_timer now (fr_to fr) (Some (closure fr)) False"
  using addTimer_inv [OF assms, of "Some (closure fr)" now "fr_to fr" False] by (simp_all add: timed_def)


text \<open>A state for the witnesses: descriptor 3 is a socket that the hooks wait for.\<close>

definition a_hook :: hook_state where
  "a_hook = \<lparr>t_hook_enable = True, errno = 0,
     fdm = (case fd_get 0 3 True (new_fd_manager (\<lambda>_. fst (FdCtx 0 \<lparr>st_sock = \<lambda>_. None, fd_flags = \<lambda>_. 0\<rparr>))
              \<lparr>st_sock = \<lambda>_. Some True, fd_flags = \<lambda>_. 0\<rparr>) of Inr (_, m) \<Rightarrow> m),
     ep = Some (EventPoller (case Scheduler 2 True 100 0 (Func (Wake 5)) of Inr s \<Rightarrow> s) [101] (\<lambda>_. new_deadline 0)),
     infos = (\<lambda>_. None), next_info = 0\<rparr>"

definition an_os :: os where
  "an_os = \<lparr>os_ctl = \<lambda>_ _ _. True, os_errno = 0\<rparr>"

definition a_hook_poller :: "hook_cb poller" where
  "a_hook_poller = the (ep a_hook)"

lemma a_hook_facts:
  "waited_for 3 0 a_hook" "ep a_hook = Some a_hook_poller" "ep_inv a_hook_poller" "tm_inv (tm a_hook_poller)"
  "m_timers (tm a_hook_poller) = []" "length (m_fdContexts a_hook_poller) = 32" "infos a_hook = (\<lambda>_. None)"
  "next_info a_hook = 0" "getTimeout t (the_ctx 0 a_hook) = -1" "m_sysNonblock (the_ctx 0 a_hook)"
  "i < 32 \<Longrightarrow> m_fdContexts a_hook_poller ! i =
     \<lparr>ctx_read = no_waiter, ctx_write = no_waiter, ctx_fd = i, ctx_events = 0\<rparr>"
proof -
  have "FdCtx 3 \<lparr>st_sock = \<lambda>_. Some True, fd_flags = \<lambda>_. 0\<rparr> =
      (\<lparr>m_isInit = True, m_isSocket = True, m_sysNonblock = True, m_userNonblock = False, m_isClosed = False,
        m_fd = 3, m_recvTimeout = -1, m_sendTimeout = -1\<rparr>,
       \<lparr>st_sock = \<lambda>_. Some True, fd_flags = (\<lambda>_. 0)(3 := O_NONBLOCK)\<rparr>)"
    by (simp add: FdCtx_def FdCtx_init_def)
  then show "waited_for 3 0 a_hook" "getTimeout t (the_ctx 0 a_hook) = -1" "m_sysNonblock (the_ctx 0 a_hook)"
    by (simp_all add: a_hook_def waited_for_def find_ctx_def the_ctx_def find_fd_def fd_get_def get_check_def
        new_fd_manager_def data_at_def data_put_def get_create_def resize_to_def getTimeout_def nth_list_update)
  have p: "a_hook_poller = EventPoller (case Scheduler 2 True 100 0 (Func (Wake 5)) of Inr s \<Rightarrow> s) [101]
      (\<lambda>_. new_deadline 0)"
    by (simp add: a_hook_poller_def a_hook_def)
  show "ep a_hook = Some a_hook_poller" "infos a_hook = (\<lambda>_. None)" "next_info a_hook = 0"
    by (simp_all add: a_hook_poller_def a_hook_def)
  show "ep_inv a_hook_poller" unfolding p by (rule ep_inv_new)
  show "tm_inv (tm a_hook_poller)" "m_timers (tm a_hook_poller) = []" "length (m_fdContexts a_hook_poller) = 32"
    "i < 32 \<Longrightarrow> m_fdContexts a_hook_poller ! i =
     \<lparr>ctx_read = no_waiter, ctx_write = no_waiter, ctx_fd = i, ctx_events = 0\<rparr>"
    by (simp_all add: p new_poller_ctx tm_inv_new, simp add: new_manager_def)
qed

lemma do_io_held:
  assumes fd: "waited_for fd p s" and to: "to = getTimeout so (the_ctx p s)"
    and call: "\<And>x. io_call rs x = Some (-1, EAGAIN)"
    and q: "ep s = Some q" "ep_inv q" "tm_inv (tm q)" "a \<notin> set (m_timers (tm q))"
    and ev: "0 \<le> fd" "nat fd < length (m_fdContexts q)" "is_event v j"
    and acc: "\<not> awaited fd j q" "accepts k fd v q"
  shows "\<exists>fr s' q'. do_io k now a me fd v so rs s = Inr (Held fr, s') \<and> ep s' = Some q' \<and> ep_inv q' \<and> awaited fd j q' \<and>
     ctx_of j (m_fdContexts q' ! nat fd) = \<lparr>ec_scheduler = Some (self q), ec_fiber = Some me, ec_cb = None\<rparr> \<and>
     infos s' = (infos s)(fr_info fr := Some 0) \<and>
     (if to = -1 then fr_timer fr = None \<and> set (m_timers (tm q')) = set (m_timers (tm q))
      else fr_timer fr = Some a \<and> set (m_timers (tm q')) = insert a (set (m_timers (tm q))) \<and>
           heap (tm q') a = new_timer now to (Some (closure fr)) False)"
proof -
  let ?fr = "\<lparr>fr_fd = fd, fr_event = v, fr_to = to, fr_timer = None, fr_info = next_info s\<rparr>"
  let ?s = "s\<lparr>infos := (infos s)(next_info s := Some 0), next_info := Suc (next_info s), errno := EAGAIN\<rparr>"
  have s: "ep ?s = Some q" using q(1) by simp
  have f: "0 \<le> fr_fd ?fr" "nat (fr_fd ?fr) < length (m_fdContexts q)" "is_event (fr_event ?fr) j"
    using ev by simp_all
  obtain q' where q': "arm k now a me ?fr ?s = Inr (0, ?fr\<lparr>fr_timer := if to = -1 then None else Some a\<rparr>, ?s\<lparr>ep := Some q'\<rparr>)"
    "ep_inv q'" "awaited fd j q'" "tm q' = tm (timed now a ?fr q)"
    "ctx_of j (m_fdContexts q' ! nat fd) = \<lparr>ec_scheduler = Some (self q), ec_fiber = Some me, ec_cb = None\<rparr>"
    using arm_cases(3) [OF s q(2-4) f, of k now me] acc by auto
  have io: "do_io k now a me fd v so rs s =
      Inr (Held (?fr\<lparr>fr_timer := if to = -1 then None else Some a\<rparr>), ?s\<lparr>ep := Some q'\<rparr>)"
    using q'(1) unfolding to by (simp add: do_io_waited [OF fd] retry_def call)
  note t = timed_timers [OF q(3,4), where now=now and fr="?fr"]
  show ?thesis
  proof (cases "to = -1")
    case True
    then show ?thesis unfolding io using q'(2-) t(1) by simp
  next
    case False
    then show ?thesis unfolding io using q'(2-) t by (simp add: closure_def)
  qed
qed

text \<open>The witnesses' call: it finds no data and is held.\<close>

lemma a_call_held:
  "\<exists>fr s. do_io an_os 50 9 7 3 READ SO_RCVTIMEO [(-1, EAGAIN)] a_hook = Inr (Held fr, s) \<and>
     infos s (fr_info fr) = Some 0 \<and> io_inv s {fr} \<and> io_step\<^sup>*\<^sup>* (a_hook, {}) (s, {fr})"
proof -
  have n: "no_calls a_hook" by (simp add: no_calls_def a_hook_facts)
  have fresh: "fresh_in 9 a_hook {}" by (simp add: fresh_in_def fresh_timer_def a_hook_facts)
  have "\<And>x. io_call [(-1, EAGAIN)] x = Some (-1, EAGAIN)" by (simp add: EAGAIN_def EINTR_def)
  moreover have "\<not> awaited 3 0 a_hook_poller" by (simp add: awaited_def a_hook_facts)
  moreover have "accepts an_os 3 READ a_hook_poller" by (simp add: accepts_def an_os_def)
  ultimately obtain fr s where io: "do_io an_os 50 9 7 3 READ SO_RCVTIMEO [(-1, EAGAIN)] a_hook = Inr (Held fr, s)"
    and i: "infos s = (infos a_hook)(fr_info fr := Some 0)"
    using do_io_held [where k=an_os and now=50 and a=9 and me=7 and so=SO_RCVTIMEO and rs="[(-1, EAGAIN)]",
        OF a_hook_facts(1) refl _ a_hook_facts(2-4) _ _ _ is_event_READ]
    by (auto simp: a_hook_facts)
  have "io_step (a_hook, {}) (s, {fr})"
    using io_begin [OF io _ fresh] by (simp add: left_def)
  then show ?thesis using io i io_step_inv no_calls_inv [OF n] by fastforce
qed

text \<open>C8. What a hooked call on a socket does until it returns or is held, however often it is
  interrupted first. An answer other than \<^verbatim>\<open>EAGAIN\<close> is returned as it is, and no timer, event or
  information object is left. On \<^verbatim>\<open>EAGAIN\<close>, an event that is already awaited fails the assertion of
  \<^verbatim>\<open>addEvent\<close>; when \<^verbatim>\<open>epoll_ctl\<close> refuses, the call returns -1 with its \<^verbatim>\<open>errno\<close> and no information
  object; otherwise the calling fiber waits for the event, and if the descriptor has a timeout, a
  timer with the deadline \<^verbatim>\<open>now + timeout\<close> has been added for this call, and no other.\<close>

theorem do_io_outcome:
  assumes fd: "waited_for fd p s" and to: "to = getTimeout so (the_ctx p s)"
    and rs: "rs = replicate m (-1, EINTR) @ (n, e) # rest" "(n, e) \<noteq> (-1, EINTR)"
    and q: "ep s = Some q" "ep_inv q" "tm_inv (tm q)" "a \<notin> set (m_timers (tm q))"
    and ev: "0 \<le> fd" "nat fd < length (m_fdContexts q)" "is_event v j" and i: "infos s (next_info s) = None"
  shows "\<exists>r s'. do_io k now a me fd v so rs s = (if n = -1 \<and> e = EAGAIN \<and> awaited fd j q
                 then Inl (Poller_failed Assert_failed) else Inr (r, s')) \<and>
     (n \<noteq> -1 \<or> e \<noteq> EAGAIN \<longrightarrow> r = Returned n \<and> infos s' = infos s \<and> ep s' = ep s \<and>
        errno s' = (if n = -1 then e else if m = 0 then errno s else EINTR)) \<and>
     (n = -1 \<and> e = EAGAIN \<and> \<not> awaited fd j q \<and> \<not> accepts k fd v q \<longrightarrow>
        r = Returned (-1) \<and> errno s' = os_errno k \<and> infos s' = infos s) \<and>
     (n = -1 \<and> e = EAGAIN \<and> \<not> awaited fd j q \<and> accepts k fd v q \<longrightarrow>
        (\<exists>fr q'. r = Held fr \<and> ep s' = Some q' \<and> ep_inv q' \<and> awaited fd j q' \<and>
           ctx_of j (m_fdContexts q' ! nat fd) = \<lparr>ec_scheduler = Some (self q), ec_fiber = Some me, ec_cb = None\<rparr> \<and>
           infos s' = (infos s)(fr_info fr := Some 0) \<and>
           (if to = -1 then fr_timer fr = None \<and> set (m_timers (tm q')) = set (m_timers (tm q))
            else fr_timer fr = Some a \<and> set (m_timers (tm q')) = insert a (set (m_timers (tm q))) \<and>
                 heap (tm q') a = new_timer now to (Some (closure fr)) False)))"
proof -
  let ?fr = "\<lparr>fr_fd = fd, fr_event = v, fr_to = to, fr_timer = None, fr_info = next_info s\<rparr>"
  let ?e = "if n = -1 then e else if m = 0 then errno s else EINTR"
  let ?s = "s\<lparr>infos := (infos s)(next_info s := Some 0), next_info := Suc (next_info s), errno := ?e\<rparr>"
  have call: "io_call rs x = Some (n, if n = -1 then e else if m = 0 then x else EINTR)" for x
    using io_call_eintr [OF rs(2)] rs(1) by simp
  have io: "do_io k now a me fd v so rs s =
      (if n = -1 \<and> e = EAGAIN
       then rbind (arm k now a me ?fr ?s) (\<lambda>(rt, fr1, s2).
         if rt \<noteq> 0 then Inr (Returned (-1), drop_info (fr_info ?fr) (disarm (fr_timer fr1) s2)) else Inr (Held fr1, s2))
       else Inr (Returned n, drop_info (fr_info ?fr) ?s))"
    unfolding to by (simp add: do_io_waited [OF fd] retry_def call)
  have s: "ep ?s = Some q" using q(1) by simp
  have same: "(infos s)(next_info s := None) = infos s" using i by auto
  have f: "0 \<le> fr_fd ?fr" "nat (fr_fd ?fr) < length (m_fdContexts q)" "is_event (fr_event ?fr) j"
    using ev by simp_all
  note arm = arm_cases [OF s q(2-4) f, of k now me]
  consider "n \<noteq> -1 \<or> e \<noteq> EAGAIN" | "n = -1" "e = EAGAIN" "awaited fd j q"
    | "n = -1" "e = EAGAIN" "\<not> awaited fd j q" "\<not> accepts k fd v q"
    | "n = -1" "e = EAGAIN" "\<not> awaited fd j q" "accepts k fd v q" by blast
  then show ?thesis
  proof cases
    case 1
    then show ?thesis unfolding io using q(1) same by auto
  next
    case 2
    then show ?thesis unfolding io using arm(1) by simp
  next
    case 3
    then show ?thesis unfolding io using arm(2) same by simp
  next
    case 4
    obtain s' q' fr where h: "do_io k now a me fd v so rs s = Inr (Held fr, s')" "ep s' = Some q'" "ep_inv q'"
      "awaited fd j q'"
      "ctx_of j (m_fdContexts q' ! nat fd) = \<lparr>ec_scheduler = Some (self q), ec_fiber = Some me, ec_cb = None\<rparr>"
      "infos s' = (infos s)(fr_info fr := Some 0)"
      "if to = -1 then fr_timer fr = None \<and> set (m_timers (tm q')) = set (m_timers (tm q))
       else fr_timer fr = Some a \<and> set (m_timers (tm q')) = insert a (set (m_timers (tm q))) \<and>
            heap (tm q') a = new_timer now to (Some (closure fr)) False"
      using do_io_held [OF fd to _ q ev 4(3,4), of rs now me] call 4(1,2) by auto
    then show ?thesis using 4 by simp
  qed
qed

theorem do_io_outcome_witness:
  "\<exists>fr s'. do_io an_os 50 9 7 3 READ SO_RCVTIMEO [(-1, EINTR), (-1, EAGAIN)] a_hook = Inr (Held fr, s')"
proof -
  have "\<not> awaited 3 0 a_hook_poller" by (simp add: awaited_def a_hook_facts)
  moreover have "accepts an_os 3 READ a_hook_poller" by (simp add: accepts_def an_os_def)
  moreover have "a \<notin> set (m_timers (tm a_hook_poller))" "nat 3 < length (m_fdContexts a_hook_poller)" for a
    by (simp_all add: a_hook_facts)
  moreover have "infos a_hook (next_info a_hook) = None" by (simp add: a_hook_facts)
  ultimately show ?thesis
    using do_io_outcome [where m=1 and n="-1" and e=EAGAIN and rest="[]" and k=an_os and now=50 and a=9 and me=7
        and so=SO_RCVTIMEO, OF a_hook_facts(1) refl refl _ a_hook_facts(2-4) _ _ _ is_event_READ]
    by (auto simp: EAGAIN_def EINTR_def)
qed

section \<open>A call that goes on\<close>

text \<open>C9. What a held call does when its fiber runs again, in any state the calls can be in. Its timer
  is no longer armed. If the timer has fired, the call returns -1 with \<^verbatim>\<open>ETIMEDOUT\<close>; if the system
  call now answers otherwise than with \<^verbatim>\<open>EAGAIN\<close>, that is the result. Either way the call is over:
  its information object is gone, and its timer's closure, should it run later, does nothing.\<close>

theorem do_io_resume_outcome:
  assumes inv: "io_inv s F" and fr: "fr \<in> F"
    and rs: "rs = replicate m (-1, EINTR) @ (n, e) # rest" "(n, e) \<noteq> (-1, EINTR)"
    and ends: "infos s (fr_info fr) = Some ETIMEDOUT \<or> infos s (fr_info fr) = Some 0 \<and> (n \<noteq> -1 \<or> e \<noteq> EAGAIN)"
  shows "\<exists>v s'. do_io_resume k now a me fr rs s = Inr (Returned v, s') \<and>
     (v, errno s') = (if infos s (fr_info fr) = Some ETIMEDOUT then (-1, ETIMEDOUT)
                      else (n, if n = -1 then e else if m = 0 then errno s else EINTR)) \<and>
     io_inv s' (F - {fr}) \<and> infos s' (fr_info fr) = None \<and>
     (\<forall>q t. ep s' = Some q \<and> fr_timer fr = Some t \<longrightarrow> t \<notin> set (m_timers (tm q))) \<and>
     hook_callback k (Io_timeout (fr_info fr) fd v') s' = Inr s'"
proof -
  let ?s = "disarm (fr_timer fr) s"
  let ?e = "if n = -1 then e else if m = 0 then errno s else EINTR"
  have mid: "io_mid (?s\<lparr>errno := x\<rparr>) (F - {fr}) (fr_info fr)" for x
    using io_mid_resume [OF inv fr] by (subst io_mid_cong [of _ ?s]) simp_all
  have call: "io_call rs (errno s) = Some (n, ?e)"
    using io_call_eintr [OF rs(2)] rs(1) by simp
  have off: "t \<notin> set (m_timers (tm q))" if "ep ?s = Some q" "fr_timer fr = Some t" for q t
  proof -
    obtain p where p: "ep s = Some p" "tm_ok (tm p) F" "own_timers F"
      using inv fr by (auto simp: io_inv_def split: option.splits)
    then show ?thesis using tm_ok_cancel(2) [OF p(2,3) fr that(2)] that by (auto simp: disarm_def)
  qed
  have fin: "\<exists>s'. (Inr (Returned v, drop_info (fr_info fr) (?s\<lparr>errno := x\<rparr>)) :: hook_error + _) = Inr (Returned v, s') \<and>
      errno s' = x \<and> io_inv s' (F - {fr}) \<and> infos s' (fr_info fr) = None \<and>
      (\<forall>q t. ep s' = Some q \<and> fr_timer fr = Some t \<longrightarrow> t \<notin> set (m_timers (tm q))) \<and>
      hook_callback k (Io_timeout (fr_info fr) fd v') s' = Inr s'" for v x
    using io_mid_drop [OF mid [of x]] off by (auto simp: hook_callback_def)
  show ?thesis
  proof (cases "infos s (fr_info fr) = Some ETIMEDOUT")
    case True
    then have "do_io_resume k now a me fr rs s = Inr (Returned (-1), drop_info (fr_info fr) (?s\<lparr>errno := ETIMEDOUT\<rparr>))"
      by (simp add: do_io_resume_def cancelled_def ETIMEDOUT_def)
    then show ?thesis using True fin [of "-1" ETIMEDOUT] by auto
  next
    case False
    then have "do_io_resume k now a me fr rs s = Inr (Returned n, drop_info (fr_info fr) (?s\<lparr>errno := ?e\<rparr>))"
      using ends call by (auto simp: do_io_resume_def cancelled_def retry_def)
    then show ?thesis using False fin [of n ?e] by auto
  qed
qed

theorem do_io_resume_outcome_witness:
  "\<exists>fr s1 s2. do_io an_os 50 9 7 3 READ SO_RCVTIMEO [(-1, EAGAIN)] a_hook = Inr (Held fr, s1) \<and>
     do_io_resume an_os 60 10 7 fr [(5, 0)] s1 = Inr (Returned 5, s2)"
proof -
  obtain fr s where io: "do_io an_os 50 9 7 3 READ SO_RCVTIMEO [(-1, EAGAIN)] a_hook = Inr (Held fr, s)"
    and s: "infos s (fr_info fr) = Some 0" "io_inv s {fr}"
    using a_call_held by blast
  have "\<exists>s2. do_io_resume an_os 60 10 7 fr [(5, 0)] s = Inr (Returned 5, s2)"
    using do_io_resume_outcome [where m=0 and n=5 and e=0 and rest="[]" and k=an_os and now=60 and a=10 and me=7 and fd=0 and v'=0,
        OF s(2) insertI1 refl] s(1)
    by (auto simp: ETIMEDOUT_def)
  then show ?thesis using io by blast
qed

section \<open>All calls\<close>

text \<open>C4. In every state the hooked calls of a poller can reach, whatever the order of their steps,
  the information objects alive are those of the calls in progress; a call that waits with a
  timeout has its own timer, armed or fired; an armed timer of a call belongs to a call in progress,
  so no timer outlives its call; and the closure of a call that is over does nothing.\<close>

theorem io_calls_invariant:
  assumes "no_calls s0" and "io_step\<^sup>*\<^sup>* (s0, {}) (s, F)"
  shows "(\<forall>i. infos s i \<noteq> None \<longleftrightarrow> (\<exists>fr \<in> F. fr_info fr = i)) \<and>
    (\<forall>q. ep s = Some q \<longrightarrow> tm_inv (tm q) \<and>
       (\<forall>fr \<in> F. if fr_to fr = -1 then fr_timer fr = None
          else \<exists>a. fr_timer fr = Some a \<and>
             m_cb (heap (tm q) a) = (if a \<in> set (m_timers (tm q)) then Some (closure fr) else None)) \<and>
       (\<forall>a \<in> set (m_timers (tm q)). \<forall>i c. m_cb (heap (tm q) a) = Some (CondFunc i c) \<longrightarrow>
          (\<exists>fr \<in> F. fr_timer fr = Some a \<and> fr_info fr = i))) \<and>
    (\<forall>k i fd e. (\<forall>fr \<in> F. fr_info fr \<noteq> i) \<longrightarrow> hook_callback k (Io_timeout i fd e) s = Inr s)"
proof -
  have inv: "io_inv s F" by (rule io_steps_inv [OF assms(2) no_calls_inv [OF assms(1)]])
  have al: "infos s i \<noteq> None \<longleftrightarrow> (\<exists>fr \<in> F. fr_info fr = i)" for i
    using inv by (auto simp: io_inv_def)
  have "tm_inv (tm q) \<and>
       (\<forall>fr \<in> F. if fr_to fr = -1 then fr_timer fr = None
          else \<exists>a. fr_timer fr = Some a \<and>
             m_cb (heap (tm q) a) = (if a \<in> set (m_timers (tm q)) then Some (closure fr) else None)) \<and>
       (\<forall>a \<in> set (m_timers (tm q)). \<forall>i c. m_cb (heap (tm q) a) = Some (CondFunc i c) \<longrightarrow>
          (\<exists>fr \<in> F. fr_timer fr = Some a \<and> fr_info fr = i))" if q: "ep s = Some q" for q
  proof -
    have ok: "tm_ok (tm q) F" using inv q by (simp add: io_inv_def)
    have "if fr_to fr = -1 then fr_timer fr = None else \<exists>a. fr_timer fr = Some a \<and>
        m_cb (heap (tm q) a) = (if a \<in> set (m_timers (tm q)) then Some (closure fr) else None)" if "fr \<in> F" for fr
      using tm_ok_frame [OF ok that] by (auto simp: frame_ok_def split: option.splits if_splits)
    then show ?thesis using ok unfolding tm_ok_def by blast
  qed
  moreover have "hook_callback k (Io_timeout i fd e) s = Inr s" if "\<forall>fr \<in> F. fr_info fr \<noteq> i" for k i fd e
  proof -
    have "infos s i = None" using al [of i] that by blast
    then show ?thesis by (simp add: hook_callback_def)
  qed
  ultimately show ?thesis using al by blast
qed


theorem io_calls_invariant_witness:
  "\<exists>fr s. io_step\<^sup>*\<^sup>* (a_hook, {}) (s, {fr}) \<and> infos s (fr_info fr) \<noteq> None"
proof -
  obtain fr s where s: "io_step\<^sup>*\<^sup>* (a_hook, {}) (s, {fr})" using a_call_held by blast
  have "no_calls a_hook" by (simp add: no_calls_def a_hook_facts)
  from io_calls_invariant [OF this s] show ?thesis using s by blast
qed

text \<open>C30. A timeout can be late and hit the wrong wait. When a call with a timeout goes on before the
  closure of its fired timer has run, finds nothing and waits again, it does so with the same
  information object; the late closure then ends the new wait: whatever the system call would
  now answer, the call returns -1 with \<^verbatim>\<open>ETIMEDOUT\<close>, although the timer of the new wait is still
  armed and had its full time to go.\<close>

theorem late_timeout:
  assumes inv: "io_inv s F" and fr: "fr \<in> F" "fr_to fr \<noteq> -1" and new: "fresh_in a s F"
    and again: "do_io_resume k now a me fr rs s = Inr (Held fr2, s2)"
    and late: "hook_callback k (Io_timeout (fr_info fr) fd v) s2 = Inr s3"
  shows "\<exists>q2 s4. ep s2 = Some q2 \<and> fr_timer fr2 = Some a \<and> a \<in> set (m_timers (tm q2)) \<and>
     m_next (heap (tm q2) a) = now + fr_to fr \<and>
     do_io_resume k now' b me fr2 rs' s3 = Inr (Returned (-1), s4) \<and> errno s4 = ETIMEDOUT"
proof -
  let ?s = "disarm (fr_timer fr) s"
  have mid: "io_mid ?s (F - {fr}) (fr_info fr)" by (rule io_mid_resume [OF inv fr(1)])
  have c: "cancelled (fr_info fr) ?s = 0" and r: "retry k now a me fr rs ?s = Inr (Held fr2, s2)"
    using again by (auto simp: do_io_resume_def Let_def split: if_splits)
  obtain e where arm: "arm k now a me fr (?s\<lparr>errno := e\<rparr>) = Inr (0, fr2, s2)"
    using r by (auto simp: retry_def Let_def rbind_eq_Inr split: option.splits if_splits)
  obtain q where q: "ep ?s = Some q" using arm by (auto simp: arm_def split: option.splits)
  have tm: "tm_inv (tm q)" "a \<notin> set (m_timers (tm q))"
    using mid q disarm_fresh [OF inv fr(1) new]
    by (auto simp: io_mid_def tm_ok_def fresh_in_def fresh_timer_def)
  obtain q2 where q2: "addEvent (os_ctl k) (Some (self q)) me True (fr_fd fr) (fr_event fr) None (timed now a fr q) = Inr (0, q2)"
      "fr2 = fr\<lparr>fr_timer := Some a\<rparr>" "s2 = ?s\<lparr>errno := e, ep := Some q2\<rparr>"
    using arm fr(2) q by (auto simp: arm_eq rbind_eq_Inr split: if_splits)
  have t: "a \<in> set (m_timers (tm q2))" "m_next (heap (tm q2) a) = now + fr_to fr"
    using addEvent_tm [OF q2(1)] timed_timers [OF tm, where now=now and fr=fr] fr(2)
    by (simp_all add: new_timer_def)
  have "infos s2 (fr_info fr) \<noteq> None" using mid q2(3) by (auto simp: io_mid_def)
  then have "infos s2 (fr_info fr) = Some 0" using c q2(3) by (auto simp: cancelled_def)
  then have "infos s3 (fr_info fr2) = Some ETIMEDOUT"
    using late q2(2) by (auto simp: hook_callback_def Let_def rbind_eq_Inr split: option.splits)
  then have "do_io_resume k now' b me fr2 rs' s3 = Inr (Returned (-1),
      drop_info (fr_info fr2) ((disarm (fr_timer fr2) s3)\<lparr>errno := ETIMEDOUT\<rparr>))"
    by (simp add: do_io_resume_def cancelled_def ETIMEDOUT_def)
  then show ?thesis using t q2 by auto
qed


text \<open>The witness: a call with a timeout of 100 whose timer has fired, its closure not yet run.\<close>

definition late_frame :: io_frame where
  "late_frame = \<lparr>fr_fd = 3, fr_event = READ, fr_to = 100, fr_timer = Some 9, fr_info = 0\<rparr>"

definition late_state :: hook_state where
  "late_state = a_hook\<lparr>infos := (\<lambda>_. None)(0 := Some 0), next_info := 1\<rparr>"

lemma late_state_facts:
  "io_inv late_state {late_frame}" "fresh_in 10 late_state {late_frame}"
  "disarm (fr_timer late_frame) late_state = late_state"
proof -
  have h: "heap (tm a_hook_poller) = (\<lambda>_. new_deadline 0)"
    by (simp add: a_hook_poller_def a_hook_def new_poller_ctx new_manager_def)
  have p: "ep late_state = Some a_hook_poller" by (simp add: late_state_def a_hook_facts)
  show "io_inv late_state {late_frame}"
    by (simp add: io_inv_def p tm_ok_def a_hook_facts frame_ok_def late_frame_def h new_deadline_def own_timers_def)
       (simp add: late_state_def)
  show "fresh_in 10 late_state {late_frame}"
    by (simp add: fresh_in_def p fresh_timer_def a_hook_facts late_frame_def)
  have "snd (cancel 9 (tm a_hook_poller)) = tm a_hook_poller" by (simp add: cancel_def h new_deadline_def)
  then have "a_hook_poller\<lparr>tm := snd (cancel 9 (tm a_hook_poller))\<rparr> = a_hook_poller" by simp
  then show "disarm (fr_timer late_frame) late_state = late_state"
    using p by (simp add: disarm_def late_frame_def)
qed

theorem late_timeout_witness:
  "\<exists>fr2 s2 s3 s4. do_io_resume an_os 60 10 7 late_frame [(-1, EAGAIN)] late_state = Inr (Held fr2, s2) \<and>
     hook_callback an_os (Io_timeout (fr_info late_frame) 3 READ) s2 = Inr s3 \<and>
     do_io_resume an_os 61 11 7 fr2 [(5, 0)] s3 = Inr (Returned (-1), s4) \<and> errno s4 = ETIMEDOUT"
proof -
  let ?s = "late_state\<lparr>errno := EAGAIN\<rparr>"
  have p: "ep ?s = Some a_hook_poller" by (simp add: late_state_def a_hook_facts)
  have f: "0 \<le> fr_fd late_frame" "nat (fr_fd late_frame) < length (m_fdContexts a_hook_poller)"
      "is_event (fr_event late_frame) 0" "10 \<notin> set (m_timers (tm a_hook_poller))"
    by (simp_all add: late_frame_def a_hook_facts is_event_READ)
  have "\<not> awaited (fr_fd late_frame) 0 a_hook_poller" "accepts an_os (fr_fd late_frame) (fr_event late_frame) a_hook_poller"
    by (simp_all add: awaited_def accepts_def a_hook_facts late_frame_def an_os_def)
  then obtain q' where q': "arm an_os 60 10 7 late_frame ?s =
        Inr (0, late_frame\<lparr>fr_timer := Some 10\<rparr>, ?s\<lparr>ep := Some q'\<rparr>)"
      "ep_inv q'" "awaited 3 0 q'" "length (m_fdContexts q') = 32"
    using arm_cases(3) [OF p a_hook_facts(3,4) f(4) f(1-3), of an_os 60 7] by (auto simp: late_frame_def a_hook_facts)
  let ?s2 = "?s\<lparr>ep := Some q'\<rparr>"
  have again: "do_io_resume an_os 60 10 7 late_frame [(-1, EAGAIN)] late_state =
      Inr (Held (late_frame\<lparr>fr_timer := Some 10\<rparr>), ?s2)"
    using q'(1) unfolding do_io_resume_def Let_def late_state_facts(3)
    by (simp add: retry_def EAGAIN_def EINTR_def cancelled_def late_frame_def late_state_def)
  obtain q3 where "cancelEvent (os_ctl an_os) 3 READ q' = Inr (True, q3)"
    using cancelEvent_ok [OF q'(2) is_event_READ, of 3 "os_ctl an_os"] q'(3,4)
    by (auto simp: awaited_def removal_ok_def an_os_def)
  then have "\<exists>s3. hook_callback an_os (Io_timeout (fr_info late_frame) 3 READ) ?s2 = Inr s3"
    by (simp add: hook_callback_def late_frame_def late_state_def)
  then obtain s3 where late: "hook_callback an_os (Io_timeout (fr_info late_frame) 3 READ) ?s2 = Inr s3" by blast
  have "fr_to late_frame \<noteq> -1" by (simp add: late_frame_def)
  from late_timeout [OF late_state_facts(1) _ this late_state_facts(2) again late, where now'=61 and b=11 and rs'="[(5, 0)]"]
  show ?thesis using again late by auto
qed

end
