(* ===== verification/Hook_Calls.thy ===== *)
theory Hook_Calls
  imports Hook_Properties
begin

text \<open>
  The properties of the other hooked functions: connecting, closing, sleeping, and the flags and
  timeouts of descriptors.
\<close>

section \<open>Connecting and closing\<close>

text \<open>A lookup depends on the table alone.\<close>

lemma find_fd_data:
  "find_fd fd m = (if fd = -1 \<or> int (length (m_datas m)) \<le> fd then Inr None else data_at fd (m_datas m))"
  by (cases "data_at fd (m_datas m)") (simp_all add: find_fd_def fd_get_def get_check_def)

lemma find_ctx_cong: "m_datas (fdm t) = m_datas (fdm s) \<Longrightarrow> find_ctx fd t = find_ctx fd s"
  by (simp add: find_ctx_def find_fd_data)

lemma connect_waited:
  assumes "waited_for fd p s"
  shows "connect_with_timeout k now a me fd ms rs so s = connect_call k now a me fd ms rs so s"
  using assms by (simp add: connect_with_timeout_def waited_for_def)

text \<open>C32. A connection that is in progress waits for the descriptor to become writable, with a timer
  unless the timeout is -1, just as the other hooked calls. But when \<^verbatim>\<open>epoll_ctl\<close> refuses the event
  the error is only logged: the function goes on to ask for \<^verbatim>\<open>SO_ERROR\<close>, and as a connection in
  progress has none, it returns 0, as if the connection had been made.\<close>

theorem connect_outcome:
  assumes fd: "waited_for fd p s" and rs: "rs = (-1, EINPROGRESS) # rest"
    and q: "ep s = Some q" "ep_inv q" "tm_inv (tm q)" "a \<notin> set (m_timers (tm q))"
    and ev: "0 \<le> fd" "nat fd < length (m_fdContexts q)" and i: "infos s (next_info s) = None"
  shows "\<exists>r s'. connect_with_timeout k now a me fd ms rs so s =
       (if awaited fd 2 q then Inl (Poller_failed Assert_failed) else Inr (r, s')) \<and>
     (\<not> awaited fd 2 q \<and> accepts k fd WRITE q \<longrightarrow>
        (\<exists>fr q'. r = Held fr \<and> ep s' = Some q' \<and> ep_inv q' \<and> awaited fd 2 q' \<and>
           ctx_write (m_fdContexts q' ! nat fd) = \<lparr>ec_scheduler = Some (self q), ec_fiber = Some me, ec_cb = None\<rparr> \<and>
           (if ms = -1 then fr_timer fr = None \<and> set (m_timers (tm q')) = set (m_timers (tm q))
            else fr_timer fr = Some a \<and> set (m_timers (tm q')) = insert a (set (m_timers (tm q))) \<and>
                 heap (tm q') a = new_timer now ms (Some (closure fr)) False))) \<and>
     (\<not> awaited fd 2 q \<and> \<not> accepts k fd WRITE q \<longrightarrow>
        r = Returned (if so = Inr 0 then 0 else -1) \<and> infos s' = infos s)"
proof -
  let ?fr = "\<lparr>fr_fd = fd, fr_event = WRITE, fr_to = ms, fr_timer = None, fr_info = next_info s\<rparr>"
  let ?s = "s\<lparr>errno := EINPROGRESS, infos := (infos s)(next_info s := Some 0), next_info := Suc (next_info s)\<rparr>"
  have io: "connect_with_timeout k now a me fd ms rs so s =
      rbind (arm k now a me ?fr ?s) (\<lambda>(rt, fr, s3).
        if rt = 0 then Inr (Held fr, s3) else Inr (connect_result so (next_info s) (disarm (fr_timer fr) s3)))"
    by (simp add: connect_waited [OF fd] connect_call_def plain_def rs new_info_def)
  have s: "ep ?s = Some q" using q(1) by simp
  have f: "0 \<le> fr_fd ?fr" "nat (fr_fd ?fr) < length (m_fdContexts q)" "is_event (fr_event ?fr) 2"
    using ev by (simp_all add: is_event_WRITE)
  note arm = arm_cases [OF s q(2-4) f, of k now me]
  have same: "(infos s)(next_info s := None) = infos s" using i by auto
  have res: "\<exists>s'. connect_result so (next_info s) t = (Returned (if so = Inr 0 then 0 else -1), s') \<and>
      infos s' = (infos t)(next_info s := None)" for t
    by (cases so) (auto simp: connect_result_def)
  consider "awaited fd 2 q" | "\<not> awaited fd 2 q" "\<not> accepts k fd WRITE q" | "\<not> awaited fd 2 q" "accepts k fd WRITE q"
    by blast
  then show ?thesis
  proof cases
    case 1
    then show ?thesis unfolding io using arm(1) by simp
  next
    case 2
    obtain s' where "connect_result so (next_info s) (disarm (if ms = -1 then None else Some a)
        (?s\<lparr>ep := Some (timed now a ?fr q), errno := os_errno k\<rparr>)) = (Returned (if so = Inr 0 then 0 else -1), s')"
      "infos s' = infos s"
      using res [of "disarm (if ms = -1 then None else Some a) (?s\<lparr>ep := Some (timed now a ?fr q), errno := os_errno k\<rparr>)"]
        same by auto
    then show ?thesis unfolding io using 2 arm(2) by simp
  next
    case 3
    obtain q' where q': "arm k now a me ?fr ?s = Inr (0, ?fr\<lparr>fr_timer := if ms = -1 then None else Some a\<rparr>, ?s\<lparr>ep := Some q'\<rparr>)"
      "ep_inv q'" "awaited fd 2 q'" "tm q' = tm (timed now a ?fr q)"
      "ctx_of 2 (m_fdContexts q' ! nat fd) = \<lparr>ec_scheduler = Some (self q), ec_fiber = Some me, ec_cb = None\<rparr>"
      using arm(3) 3 by auto
    note t = timed_timers [OF q(3,4), where now=now and fr="?fr"]
    show ?thesis
    proof (cases "ms = -1")
      case True
      then show ?thesis unfolding io using 3 q' t(1) by (simp add: ctx_of_def)
    next
      case False
      then show ?thesis unfolding io using 3 q' t by (simp add: closure_def ctx_of_def)
    qed
  qed
qed

theorem connect_outcome_witness:
  "\<exists>s'. connect_with_timeout \<lparr>os_ctl = \<lambda>_ _ _. False, os_errno = 9\<rparr> 50 9 7 3 (-1) [(-1, EINPROGRESS)] (Inr 0) a_hook =
     Inr (Returned 0, s')"
proof -
  have "\<not> awaited 3 2 a_hook_poller" by (simp add: awaited_def a_hook_facts)
  moreover have "\<not> accepts \<lparr>os_ctl = \<lambda>_ _ _. False, os_errno = 9\<rparr> 3 WRITE a_hook_poller" by (simp add: accepts_def)
  moreover have "9 \<notin> set (m_timers (tm a_hook_poller))" "nat 3 < length (m_fdContexts a_hook_poller)"
    "infos a_hook (next_info a_hook) = None"
    by (simp_all add: a_hook_facts)
  ultimately show ?thesis
    using connect_outcome [where k="\<lparr>os_ctl = \<lambda>_ _ _. False, os_errno = 9\<rparr>" and now=50 and a=9 and me=7 and ms="-1"
        and so="Inr 0", OF a_hook_facts(1) refl a_hook_facts(2-4)]
    by auto
qed

lemma find_ctx_eq: "0 \<le> fd \<Longrightarrow> find_ctx fd s = Inr (slot fd (fdm s))"
  by (simp add: find_ctx_def find_fd_eq)

text \<open>Closing a descriptor the hooks know: if \<^verbatim>\<open>epoll_ctl\<close> lets it go, no event of it is awaited any
  more; if it refuses, the poller's context is as it was, and whoever waits in it is not woken.
  The descriptor's context is gone in both cases, and the system call is made.\<close>

theorem close_outcome:
  assumes on: "t_hook_enable s" and fd: "0 \<le> fd" "find_ctx fd s = Inr (Some p)" and inv: "fd_inv (fdm s)"
    and q: "ep s = Some q" "ep_inv q" "nat fd < length (m_fdContexts q)"
  shows "\<exists>s' q'. close_hook k fd rs s = Inr (plain rs s') \<and> find_ctx fd s' = Inr None \<and> fd_inv (fdm s') \<and>
    ep s' = Some q' \<and> ep_inv q' \<and>
    (if os_ctl k EPOLL_CTL_DEL fd 0 then ctx_events (m_fdContexts q' ! nat fd) = 0
     else m_fdContexts q' = m_fdContexts q \<and> scheds q' = scheds q)"
proof -
  let ?c = "m_fdContexts q ! nat fd"
  have "\<exists>b q'. cancelAll (os_ctl k) fd q = Inr (b, q') \<and> ep_inv q' \<and>
      (if os_ctl k EPOLL_CTL_DEL fd 0 then ctx_events (m_fdContexts q' ! nat fd) = 0
       else m_fdContexts q' = m_fdContexts q \<and> scheds q' = scheds q)"
  proof (cases "ctx_events ?c \<noteq> 0 \<and> os_ctl k EPOLL_CTL_DEL fd 0")
    case True
    then show ?thesis using cancelAll_ok [where ctl="os_ctl k", OF q(2) fd(1) q(3)] by auto
  next
    case False
    then have "cancelAll (os_ctl k) fd q = Inr (False, unlock_twice q)"
      using fd(1) q(3) by (auto simp: cancelAll_def Let_def)
    then show ?thesis using False q(2) by auto
  qed
  then obtain b q' where c: "cancelAll (os_ctl k) fd q = Inr (b, q')" "ep_inv q'"
      "if os_ctl k EPOLL_CTL_DEL fd 0 then ctx_events (m_fdContexts q' ! nat fd) = 0
       else m_fdContexts q' = m_fdContexts q \<and> scheds q' = scheds q" by blast
  obtain m where m: "fd_del fd (fdm s) = Inr m" "fd_inv m" "slot fd m = None"
    using fd_del_eq [OF fd(1) inv] fd(1) by auto
  have "close_hook k fd rs s = Inr (plain rs (s\<lparr>ep := Some q', fdm := m\<rparr>))"
    using on fd(2) q(1) c(1) m(1) by (simp add: close_hook_def)
  then show ?thesis
    using c m by (intro exI [of _ "s\<lparr>ep := Some q', fdm := m\<rparr>"] exI [of _ q']) (simp add: find_ctx_eq [OF fd(1)])
qed


section \<open>The blocking mode\<close>










section \<open>Sleeping\<close>

lemma sleep_ms: "unat (ucast (secs * 1000 :: 32 word) :: 64 word) = 1000 * unat secs mod 2 ^ 32"
proof -
  have "unat (ucast (secs * 1000 :: 32 word) :: 64 word) = unat (secs * 1000)"
    by (simp add: unsigned_ucast_eq take_bit_nat_eq_self_iff order_less_trans [OF unsigned_less])
  then show ?thesis by (simp add: unat_word_ariths mult.commute)
qed
lemma sdiv_thousands: "0 \<le> (n::int) \<Longrightarrow> n sdiv 1000 sdiv 1000 = n div 1000000"
proof -
  assume n: "0 \<le> n"
  have "n sdiv 1000 = n div 1000" using n by (cases "n = 0") (simp_all add: signed_divide_int_def sgn_if)
  moreover have "(n div 1000) sdiv 1000 = n div 1000 div 1000"
    using n by (cases "n div 1000 = 0") (simp_all add: signed_divide_int_def sgn_if)
  ultimately show ?thesis by (simp add: zdiv_zmult2_eq [of 1000 n 1000, simplified])
qed
lemma sint32: "sint (word_of_int x :: 32 word) = signed_take_bit 31 x"
  by (simp add: signed_of_int)
lemma small_ms: assumes "0 \<le> ms" "ms < 2^31" shows "uint (scast (word_of_int ms :: 32 word) :: 64 word) = ms"
proof -
  have "signed_take_bit 31 ms = ms" using assms by (intro signed_take_bit_int_eq_self) simp_all
  moreover have "take_bit 64 ms = ms" using assms by (intro take_bit_int_eq_self) simp_all
  ultimately show ?thesis using assms(1) unfolding scast_eq sint32 by (simp only: unsigned_of_int) simp
qed
lemma large_ms: assumes "2^31 \<le> ms" "ms < 2^32" "2^31 \<le> unat (now::64 word)" shows "now + (scast (word_of_int ms :: 32 word) :: 64 word) < now"
proof -
  have "ms div 2 ^ 31 = 1"
    by (rule int_div_pos_eq [of _ _ _ "ms - 2 ^ 31"]) (use assms(1,2) in simp_all)
  then have "bit ms 31" by (simp add: bit_iff_odd)
  moreover have "take_bit 32 ms = ms" using assms(1,2) by (intro take_bit_int_eq_self) simp_all
  ultimately have s: "signed_take_bit 31 ms = ms - 2 ^ 32"
    by (simp add: signed_take_bit_eq_take_bit_minus)
  have u: "2 ^ 31 \<le> uint now" using assms(3) of_nat_le_iff [of "2 ^ 31" "unat now", where 'a=int] by (simp only: of_nat_unat of_nat_power of_nat_numeral)
  have "now + word_of_int (ms - 2 ^ 32) = word_of_int (uint now + (ms - 2 ^ 32))"
    by (simp only: wi_hom_add [symmetric] word_of_int_uint)
  moreover have "uint (word_of_int (uint now + (ms - 2 ^ 32)) :: 64 word) = uint now + (ms - 2 ^ 32)"
  proof -
    have "take_bit 64 (uint now + (ms - 2 ^ 32)) = uint now + (ms - 2 ^ 32)"
      by (intro take_bit_int_eq_self) (use u assms(1,2) unsigned_less [of now, where 'a=int] in simp_all)
    then show ?thesis using u assms(1) by (simp only: unsigned_of_int) simp
  qed
  ultimately show ?thesis unfolding scast_eq sint32 s using assms(2) by (simp add: word_less_def)
qed

text \<open>A hooked sleep adds one timer, which puts the calling fiber on the poller's queue when it is
  due. How far off that is: \<^verbatim>\<open>usleep\<close> rounds down to milliseconds; \<^verbatim>\<open>sleep\<close> computes them with 32 bits,
  so that the time is right up to 4294967 seconds and wraps around from there; \<^verbatim>\<open>nanosleep\<close> is
  right below \<open>2 ^ 31\<close> milliseconds, and from there up to \<open>2 ^ 32\<close> the deadline lies in the past.\<close>

theorem sleep_outcome:
  assumes on: "t_hook_enable s" and q: "ep s = Some q" "tm_inv (tm q)" "a \<notin> set (m_timers (tm q))"
    and nano: "0 \<le> sec" "0 \<le> nsec" "ms = sec * 1000 + nsec div 1000000" "ms < 2 ^ 32"
  shows "\<exists>f. (\<forall>x. \<exists>q'. f x = Inr (Sleeping, s\<lparr>ep := Some q'\<rparr>) \<and> tm_inv (tm q') \<and>
            set (m_timers (tm q')) = insert a (set (m_timers (tm q))) \<and>
            heap (tm q') a = new_timer now x (Some (Func (Wake me))) False) \<and>
     usleep_hook now a me usec rs s = f (ucast (usec div 1000)) \<and>
     (\<exists>x. sleep_hook now a me secs rs s = f x \<and> unat x = 1000 * unat secs mod 2 ^ 32 \<and>
        (unat x = 1000 * unat secs \<longleftrightarrow> unat secs \<le> 4294967)) \<and>
     (\<exists>x. nanosleep_hook now a me sec nsec rs s = f x \<and> (ms < 2 ^ 31 \<longrightarrow> uint x = ms) \<and>
        (2 ^ 31 \<le> ms \<and> 2 ^ 31 \<le> unat now \<longrightarrow> now + x < now))"
proof -
  let ?f = "\<lambda>x. sleep_for now a me x s"
  have timer: "\<exists>q'. ?f x = Inr (Sleeping, s\<lparr>ep := Some q'\<rparr>) \<and> tm_inv (tm q') \<and>
            set (m_timers (tm q')) = insert a (set (m_timers (tm q))) \<and>
            heap (tm q') a = new_timer now x (Some (Func (Wake me))) False" for x
    using addTimer_inv [OF q(2,3), of "Some (Func (Wake me))" now x False] q(1)
    by (intro exI [of _ "with_tm (addTimer now a x (Some (Func (Wake me))) False (tm q)) q"])
       (simp add: sleep_for_def)
  let ?x = "ucast (secs * 1000 :: u32) :: u64"
  have small: "unat ?x = 1000 * unat secs \<longleftrightarrow> unat secs \<le> 4294967"
  proof
    assume e: "unat ?x = 1000 * unat secs"
    have "unat ?x < 2 ^ 32" unfolding sleep_ms by simp
    then show "unat secs \<le> 4294967" unfolding e by simp
  next
    assume "unat secs \<le> 4294967"
    then show "unat ?x = 1000 * unat secs" unfolding sleep_ms by simp
  qed
  have n: "sec * 1000 + nsec sdiv 1000 sdiv 1000 = ms" "0 \<le> ms"
    using sdiv_thousands [OF nano(2)] nano by simp_all
  have "sleep_hook now a me secs rs s = ?f ?x" "usleep_hook now a me usec rs s = ?f (ucast (usec div 1000))"
      "nanosleep_hook now a me sec nsec rs s = ?f (scast (word_of_int ms :: u32))"
    using on n by (simp_all add: sleep_hook_def usleep_hook_def nanosleep_hook_def nanosleep_ms_def)
  moreover have "ms < 2 ^ 31 \<longrightarrow> uint (scast (word_of_int ms :: u32) :: u64) = ms"
    using small_ms n(2) by blast
  moreover have "2 ^ 31 \<le> ms \<and> 2 ^ 31 \<le> unat now \<longrightarrow> now + scast (word_of_int ms :: u32) < now"
    using large_ms nano(4) by blast
  ultimately show ?thesis using timer sleep_ms small by (intro exI [of _ ?f]) blast
qed

theorem sleep_outcome_witness:
  "\<exists>x q'. sleep_hook 50 9 7 4294968 [] a_hook = Inr (Sleeping, a_hook\<lparr>ep := Some q'\<rparr>) \<and>
     heap (tm q') 9 = new_timer 50 x (Some (Func (Wake 7))) False \<and> unat x = 704"
proof -
  have on: "t_hook_enable a_hook" "9 \<notin> set (m_timers (tm a_hook_poller))"
    using a_hook_facts(1,5) by (simp_all add: waited_for_def)
  have "unat (4294968 :: u32) = 4294968" by simp
  then show ?thesis
    using sleep_outcome [where now=50 and me=7 and secs=4294968 and usec=0 and rs="[]" and sec=0 and nsec=0,
        OF on(1) a_hook_facts(2,4) on(2) order_refl order_refl refl]
    by (simp, elim exE conjE, simp, metis)
qed

section \<open>Timeouts\<close>

text \<open>\<^verbatim>\<open>setsockopt\<close> of a timeout sets the timeout of the descriptor's context to its milliseconds,
  and leaves the other one and the descriptor's mode alone, whatever the system call answers. A
  timeout of zero, with which a socket has none, is taken as a deadline: the next call that has to
  wait adds a timer that is already due.\<close>

theorem setsockopt_outcome:
  assumes fd: "waited_for fd p s" and opt: "opt = SO_RCVTIMEO \<or> opt = SO_SNDTIMEO"
    and s1: "(r, s1) = (plain rs (upd_ctx p (setTimeout opt (timeval_ms sec usec)) s))"
  shows "setsockopt_hook fd SOL_SOCKET opt (sec, usec) rs s = Inr (r, s1) \<and> waited_for fd p s1 \<and>
    getTimeout opt (the_ctx p s1) = word_of_int (sec * 1000 + usec sdiv 1000) \<and>
    (\<forall>opt'. (opt' = SO_RCVTIMEO) \<noteq> (opt = SO_RCVTIMEO) \<longrightarrow> getTimeout opt' (the_ctx p s1) = getTimeout opt' (the_ctx p s)) \<and>
    (sec = 0 \<and> usec = 0 \<and> (\<forall>x. io_call rs' x = Some (-1, EAGAIN)) \<and>
     ep s = Some q \<and> ep_inv q \<and> tm_inv (tm q) \<and> a \<notin> set (m_timers (tm q)) \<and> 0 \<le> fd \<and>
     nat fd < length (m_fdContexts q) \<and> is_event v j \<and> \<not> awaited fd j q \<and> accepts k fd v q \<longrightarrow>
       (\<exists>fr s2 q2. do_io k now a me fd v opt rs' s1 = Inr (Held fr, s2) \<and> ep s2 = Some q2 \<and>
          a \<in> set (m_timers (tm q2)) \<and> m_next (heap (tm q2) a) = now))"
proof -
  have ctx: "the_ctx p s1 = setTimeout opt (timeval_ms sec usec) (the_ctx p s)" and ep1: "ep s1 = ep s"
    and on: "t_hook_enable s1 = t_hook_enable s"
    using s1 by (auto simp: plain_def the_ctx_def upd_ctx_def split: list.splits if_splits)
  have d: "m_datas (fdm s1) = m_datas (fdm s)"
    using s1 by (auto simp: plain_def upd_ctx_def split: list.splits if_splits)
  have f: "find_ctx fd s1 = Inr (Some p)"
    using fd find_ctx_cong [OF d] by (simp add: waited_for_def)
  have w: "waited_for fd p s1"
    using fd f on by (simp add: waited_for_def ctx setTimeout_def)
  have set: "setsockopt_hook fd SOL_SOCKET opt (sec, usec) rs s = Inr (r, s1)"
    using fd opt s1 by (auto simp: setsockopt_hook_def waited_for_def)
  have get: "getTimeout t (the_ctx p s1) =
      (if (t = SO_RCVTIMEO) = (opt = SO_RCVTIMEO) then timeval_ms sec usec else getTimeout t (the_ctx p s))" for t
    by (simp add: ctx getTimeout_setTimeout)
  have now: "\<exists>fr s2 q2. do_io k now a me fd v opt rs' s1 = Inr (Held fr, s2) \<and> ep s2 = Some q2 \<and>
          a \<in> set (m_timers (tm q2)) \<and> m_next (heap (tm q2) a) = now"
    if "sec = 0" "usec = 0" "\<forall>x. io_call rs' x = Some (-1, EAGAIN)" "ep s = Some q" "ep_inv q" "tm_inv (tm q)"
      "a \<notin> set (m_timers (tm q))" "0 \<le> fd" "nat fd < length (m_fdContexts q)" "is_event v j" "\<not> awaited fd j q"
      "accepts k fd v q"
  proof -
    have "getTimeout opt (the_ctx p s1) = 0" using that(1,2) by (simp add: get timeval_ms_def)
    then show ?thesis
      using do_io_held [OF w refl _ _ that(5-12), where so=opt and rs=rs' and now=now and me=me] that(3,4) ep1
      by (auto simp: new_timer_def)
  qed
  show ?thesis using set w get now by (simp add: timeval_ms_def)
qed

theorem setsockopt_outcome_witness:
  "\<exists>s1 fr s2. setsockopt_hook 3 SOL_SOCKET SO_RCVTIMEO (0, 0) [(0, 0)] a_hook = Inr (Returned 0, s1) \<and>
     do_io an_os 50 9 7 3 READ SO_RCVTIMEO [(-1, EAGAIN)] s1 = Inr (Held fr, s2)"
proof -
  let ?s = "upd_ctx 0 (setTimeout SO_RCVTIMEO (timeval_ms 0 0)) a_hook"
  have s: "(Returned 0, ?s) = plain [(0, 0)] ?s" by (simp add: plain_def)
  have ready: "ep a_hook = Some a_hook_poller \<and> ep_inv a_hook_poller \<and> tm_inv (tm a_hook_poller) \<and>
      9 \<notin> set (m_timers (tm a_hook_poller)) \<and> nat 3 < length (m_fdContexts a_hook_poller) \<and> is_event READ 0 \<and>
      \<not> awaited 3 0 a_hook_poller \<and> accepts an_os 3 READ a_hook_poller"
    by (simp add: a_hook_facts is_event_READ awaited_def accepts_def an_os_def)
  have call: "\<forall>x. io_call [(-1, EAGAIN)] x = Some (-1, EAGAIN)" by (simp add: EAGAIN_def EINTR_def)
  note out = setsockopt_outcome [where rs'="[(-1, EAGAIN)]" and q=a_hook_poller and a=9 and v=READ and j=0
      and k=an_os and now=50 and me=7, OF a_hook_facts(1) disjI1 [OF refl] s]
  from out have "setsockopt_hook 3 SOL_SOCKET SO_RCVTIMEO (0, 0) [(0, 0)] a_hook = Inr (Returned 0, ?s)" by (rule conjunct1)
  moreover have "\<exists>fr s2. do_io an_os 50 9 7 3 READ SO_RCVTIMEO [(-1, EAGAIN)] ?s = Inr (Held fr, s2)"
    using out [THEN conjunct2, THEN conjunct2, THEN conjunct2, THEN conjunct2] ready call by auto
  ultimately show ?thesis by blast
qed

theorem close_outcome_witness:
  "\<exists>s'. close_hook an_os 3 [(0, 0)] a_hook = Inr (plain [(0, 0)] s') \<and> find_ctx 3 s' = Inr None"
proof -
  have "fd_inv (fdm a_hook)"
    by (simp add: a_hook_def fd_inv_def fd_get_def get_check_def new_fd_manager_def data_at_def data_put_def
        get_create_def resize_to_def FdCtx_def FdCtx_init_def)
  then show ?thesis
    using close_outcome [where k=an_os and rs="[(0, 0)]", OF _ _ _ _ a_hook_facts(2,3), of 3 0]
      a_hook_facts(1,6) by (auto simp: waited_for_def)
qed

end
