(* ===== verification/Socket.thy ===== *)
theory Socket
  imports Hook Address_Text
begin

text \<open>
  \<^verbatim>\<open>src/src/socket/socket.{h,cpp}\<close>: sockets, over the hooked functions and the addresses. What the
  system does is \<open>sys\<close>, any function of a call and a state of the world; a call that waits is given
  by its final answer, what happens while it waits being the subject of \<^verbatim>\<open>Hook\<close>. Descriptor
  contexts, options and pollers are those of the hooks' state.
\<close>

section \<open>The system\<close>

datatype sys_call =
    Sys_socket int int int
  | Sys_setsockopt int int int "int \<times> int"
  | Sys_getsockopt int int int
  | Sys_bind int "u8 list" nat
  | Sys_connect int "u8 list" nat u64     \<comment> \<open>with the timeout of the hooks\<close>
  | Sys_listen int int
  | Sys_accept int
  | Sys_close int
  | Sys_send int "u8 list list" int
  | Sys_sendto int "u8 list list" int "u8 list" nat
  | Sys_recv int "nat list" int
  | Sys_recvfrom int "nat list" int nat
  | Sys_getsockname int
  | Sys_getpeername int
  | Sys_unlink string

text \<open>The value, \<^verbatim>\<open>errno\<close> if it is -1, the data read, and the address written with its length.\<close>

record reply =
  rp_n :: int
  rp_errno :: int
  rp_data :: "u8 list list"
  rp_addr :: "u8 list"
  rp_len :: u32

type_synonym 'w sys = "sys_call \<Rightarrow> 'w \<Rightarrow> reply \<times> 'w"

record 'w env =
  host :: endian
  sys :: "'w sys"
  kos :: os

record 'w net =
  hs :: hook_state
  world :: 'w
  next_ctx :: nat      \<comment> \<open>the address of the next descriptor context\<close>

datatype sock_error = Hook_failed hook_error | Addr_failed addr_error

fun lift_hook :: "hook_error + 'a \<Rightarrow> sock_error + 'a" where
  "lift_hook (Inl e) = Inl (Hook_failed e)"
| "lift_hook (Inr x) = Inr x"

fun lift_addr :: "addr_error + 'a \<Rightarrow> sock_error + 'a" where
  "lift_addr (Inl e) = Inl (Addr_failed e)"
| "lift_addr (Inr x) = Inr x"

definition ask :: "'w env \<Rightarrow> sys_call \<Rightarrow> 'w net \<Rightarrow> reply \<times> 'w net" where
  "ask env c w = (let (r, w') = sys env c (world w) in (r, w\<lparr>world := w'\<rparr>))"

definition answer_of :: "reply \<Rightarrow> answer" where
  "answer_of r = (rp_n r, rp_errno r)"

definition put_hs :: "io_result \<times> hook_state \<Rightarrow> 'w net \<Rightarrow> int \<times> 'w net" where
  "put_hs r w = (case r of (Returned n, s) \<Rightarrow> (n, w\<lparr>hs := s\<rparr>) | (_, s) \<Rightarrow> (-1, w\<lparr>hs := s\<rparr>))"

text \<open>A call that is not hooked.\<close>

definition libc :: "'w env \<Rightarrow> sys_call \<Rightarrow> 'w net \<Rightarrow> reply \<times> 'w net" where
  "libc env c w =
     (let (r, w1) = ask env c w; (_, w2) = put_hs (plain [answer_of r] (hs w1)) w1 in (r, w2))"

definition SOCK_STREAM :: int where "SOCK_STREAM = 1"
definition SOCK_DGRAM :: int where "SOCK_DGRAM = 2"
definition SO_REUSEADDR :: int where "SO_REUSEADDR = 2"
definition SO_ERROR :: int where "SO_ERROR = 4"
definition IPPROTO_TCP :: int where "IPPROTO_TCP = 6"
definition TCP_NODELAY :: int where "TCP_NODELAY = 1"
definition SOMAXCONN :: int where "SOMAXCONN = 4096"

text \<open>A value returned as \<^verbatim>\<open>int\<close>.\<close>

definition to_int32 :: "int \<Rightarrow> int" where
  "to_int32 n = sint (word_of_int n :: u32)"

section \<open>Sockets\<close>

record socket =
  m_sock :: int
  m_type :: int
  m_family :: int
  m_protocol :: int
  m_Connected :: bool
  m_localAddress :: "address option"
  m_remoteAddress :: "address option"

definition Socket_new :: "int \<Rightarrow> int \<Rightarrow> int \<Rightarrow> socket" where
  "Socket_new family type protocol =
     \<lparr>m_sock = -1, m_type = type, m_family = family, m_protocol = protocol, m_Connected = False,
      m_localAddress = None, m_remoteAddress = None\<rparr>"

definition CreateTCP :: "endian \<Rightarrow> address \<Rightarrow> socket" where
  "CreateTCP h a = Socket_new (uint (getFamily h a)) SOCK_STREAM 0"

definition CreateUDP :: "endian \<Rightarrow> address \<Rightarrow> socket" where
  "CreateUDP h a = Socket_new (uint (getFamily h a)) SOCK_DGRAM 0"

definition CreateTCPSocket :: socket where "CreateTCPSocket = Socket_new (uint AF_INET) SOCK_STREAM 0"
definition CreateUDPSocket :: socket where "CreateUDPSocket = Socket_new (uint AF_INET) SOCK_DGRAM 0"
definition CreateTCPSocket6 :: socket where "CreateTCPSocket6 = Socket_new (uint AF_INET6) SOCK_STREAM 0"
definition CreateUDPSocket6 :: socket where "CreateUDPSocket6 = Socket_new (uint AF_INET6) SOCK_DGRAM 0"
definition CreateUnixTCPSocket :: socket where "CreateUnixTCPSocket = Socket_new (uint AF_UNIX) SOCK_STREAM 0"
definition CreateUnixUDPSocket :: socket where "CreateUnixUDPSocket = Socket_new (uint AF_UNIX) SOCK_DGRAM 0"

definition isValid :: "socket \<Rightarrow> bool" where
  "isValid s \<longleftrightarrow> m_sock s \<noteq> -1"

section \<open>Options and timeouts\<close>

definition get_sock_timeout :: "int \<Rightarrow> socket \<Rightarrow> 'w net \<Rightarrow> sock_error + int" where
  "get_sock_timeout type s w =
     rbind (lift_hook (find_ctx (m_sock s) (hs w))) (\<lambda>c. case c of
       Some p \<Rightarrow> Inr (sint (getTimeout type (the_ctx p (hs w)))) | None \<Rightarrow> Inr (-1))"

definition set_sock_timeout :: "int \<Rightarrow> int \<Rightarrow> socket \<Rightarrow> 'w net \<Rightarrow> sock_error + 'w net" where
  "set_sock_timeout type v s w =
     rbind (lift_hook (find_ctx (m_sock s) (hs w))) (\<lambda>c. case c of
       Some p \<Rightarrow> Inr (w\<lparr>hs := upd_ctx p (setTimeout type (word_of_int v)) (hs w)\<rparr>) | None \<Rightarrow> Inr w)"

definition getSendTimeout :: "socket \<Rightarrow> 'w net \<Rightarrow> sock_error + int" where
  "getSendTimeout = get_sock_timeout SO_SNDTIMEO"

definition setSendTimeout :: "int \<Rightarrow> socket \<Rightarrow> 'w net \<Rightarrow> sock_error + 'w net" where
  "setSendTimeout = set_sock_timeout SO_SNDTIMEO"

definition getRecvTimeout :: "socket \<Rightarrow> 'w net \<Rightarrow> sock_error + int" where
  "getRecvTimeout = get_sock_timeout SO_RCVTIMEO"

definition setRecvTimeout :: "int \<Rightarrow> socket \<Rightarrow> 'w net \<Rightarrow> sock_error + 'w net" where
  "setRecvTimeout = set_sock_timeout SO_RCVTIMEO"

text \<open>The option's value comes back in the data.\<close>

definition getOption :: "'w env \<Rightarrow> int \<Rightarrow> int \<Rightarrow> socket \<Rightarrow> 'w net \<Rightarrow> bool \<times> u8 list list \<times> 'w net" where
  "getOption env level option s w =
     (let (r, w1) = ask env (Sys_getsockopt (m_sock s) level option) w;
          (n, w2) = put_hs (getsockopt_hook [answer_of r] (hs w1)) w1
      in (n = 0, rp_data r, w2))"

definition setOption ::
  "'w env \<Rightarrow> int \<Rightarrow> int \<Rightarrow> int \<times> int \<Rightarrow> socket \<Rightarrow> 'w net \<Rightarrow> sock_error + bool \<times> 'w net" where
  "setOption env level option v s w =
     (let (r, w1) = ask env (Sys_setsockopt (m_sock s) level option v) w
      in rbind (lift_hook (setsockopt_hook (m_sock s) level option v [answer_of r] (hs w1))) (\<lambda>x.
         let (n, w2) = put_hs x w1 in Inr (n = 0, w2)))"

definition initSock :: "'w env \<Rightarrow> socket \<Rightarrow> 'w net \<Rightarrow> sock_error + 'w net" where
  "initSock env s w =
     rbind (setOption env SOL_SOCKET SO_REUSEADDR (1, 0) s w) (\<lambda>(_, w1).
       if m_type s = SOCK_STREAM
       then rbind (setOption env IPPROTO_TCP TCP_NODELAY (1, 0) s w1) (\<lambda>(_, w2). Inr w2)
       else Inr w1)"

definition newSock :: "'w env \<Rightarrow> socket \<Rightarrow> 'w net \<Rightarrow> sock_error + socket \<times> 'w net" where
  "newSock env s w =
     (let (r, w1) = ask env (Sys_socket (m_family s) (m_type s) (m_protocol s)) w
      in rbind (lift_hook (socket_hook (next_ctx w1) [answer_of r] (hs w1))) (\<lambda>x.
         let (n, w2) = put_hs x (w1\<lparr>next_ctx := Suc (next_ctx w1)\<rparr>);
             s1 = s\<lparr>m_sock := n\<rparr>
         in if m_sock s1 = -1 then rbind (initSock env s1 w2) (\<lambda>w3. Inr (s1, w3))
            else Inr (s1, w2)))"

section \<open>Addresses\<close>

definition UnknownAddress :: "int \<Rightarrow> sockaddr" where
  "UnknownAddress family = \<lparr>sa_family = word_of_int family, sa_data = replicate 14 0\<rparr>"

definition un_of :: "endian \<Rightarrow> u8 list \<Rightarrow> u32 \<Rightarrow> sockaddr_un" where
  "un_of h bs len = \<lparr>sun_family = mem_word h (take 2 bs), sun_path = map (\<lambda>b. char_of (unat b)) (drop 2 bs), m_length = len\<rparr>"

text \<open>What \<^verbatim>\<open>getsockname\<close> leaves in the structure: it writes at most \<^verbatim>\<open>getAddrLen\<close> bytes.\<close>

definition store_addr :: "endian \<Rightarrow> u8 list \<Rightarrow> address \<Rightarrow> address" where
  "store_addr h bs a =
     (let mem = overwrite 0 (take (getAddrLen a) bs) (getAddr h a)
      in case a of IPv4 _ \<Rightarrow> IPv4 (in_of h mem) | IPv6 _ \<Rightarrow> IPv6 (in6_of h mem)
         | Unix u \<Rightarrow> Unix (un_of h mem (m_length u)) | Unknown _ \<Rightarrow> Unknown (sa_of h mem))"

definition blank_addr :: "endian \<Rightarrow> int \<Rightarrow> address" where
  "blank_addr h family =
     (if family = uint AF_INET then IPv4 (IPv4Address h 0 0)
      else if family = uint AF_INET6 then IPv6 IPv6Address_default
      else if family = uint AF_UNIX then Unix UnixAddress_default
      else Unknown (UnknownAddress family))"

definition set_addr_len :: "u32 \<Rightarrow> address \<Rightarrow> address" where
  "set_addr_len len a = (case a of Unix u \<Rightarrow> Unix (setAddrLen len u) | _ \<Rightarrow> a)"

text \<open>What the two functions share: \<^verbatim>\<open>None\<close> when the call fails.\<close>

definition query_addr :: "'w env \<Rightarrow> sys_call \<Rightarrow> int \<Rightarrow> 'w net \<Rightarrow> address option \<times> 'w net" where
  "query_addr env c family w =
     (let result = blank_addr (host env) family; (r, w1) = libc env c w
      in if rp_n r \<noteq> 0 then (None, w1)
         else let result1 = store_addr (host env) (rp_addr r) result
              in (Some (if family = uint AF_UNIX then set_addr_len (rp_len r) result1 else result1), w1))"

definition getLocalAddress :: "'w env \<Rightarrow> socket \<Rightarrow> 'w net \<Rightarrow> address \<times> socket \<times> 'w net" where
  "getLocalAddress env s w =
     (case m_localAddress s of
        Some a \<Rightarrow> (a, s, w)
      | None \<Rightarrow>
          case query_addr env (Sys_getsockname (m_sock s)) (m_family s) w of
            (None, w1) \<Rightarrow> (Unknown (UnknownAddress (m_family s)), s, w1)
          | (Some a, w1) \<Rightarrow> (a, s\<lparr>m_localAddress := Some a\<rparr>, w1))"

definition getRemoteAddress :: "'w env \<Rightarrow> socket \<Rightarrow> 'w net \<Rightarrow> address \<times> socket \<times> 'w net" where
  "getRemoteAddress env s w =
     (case m_remoteAddress s of
        Some a \<Rightarrow> (a, s, w)
      | None \<Rightarrow>
          case query_addr env (Sys_getpeername (m_sock s)) (m_family s) w of
            (None, w1) \<Rightarrow> (Unknown (UnknownAddress (m_family s)), s, w1)
          | (Some a, w1) \<Rightarrow> (a, s\<lparr>m_remoteAddress := Some a\<rparr>, w1))"

section \<open>Life of a socket\<close>

definition Socket_close :: "'w env \<Rightarrow> socket \<Rightarrow> 'w net \<Rightarrow> sock_error + bool \<times> socket \<times> 'w net" where
  "Socket_close env s w =
     (if \<not> m_Connected s \<and> m_sock s = -1 then Inr (True, s, w)
      else let s1 = s\<lparr>m_Connected := False\<rparr>
      in if m_sock s1 \<noteq> -1 then
           (let (r, w1) = ask env (Sys_close (m_sock s1)) w
            in rbind (lift_hook (close_hook (kos env) (m_sock s1) [answer_of r] (hs w1))) (\<lambda>x.
               let (_, w2) = put_hs x w1 in Inr (False, s1\<lparr>m_sock := -1\<rparr>, w2)))
         else Inr (False, s1, w))"

definition Socket_destroy :: "'w env \<Rightarrow> socket \<Rightarrow> 'w net \<Rightarrow> sock_error + 'w net" where
  "Socket_destroy env s w = rbind (Socket_close env s w) (\<lambda>(_, _, w1). Inr w1)"

definition Socket_init :: "'w env \<Rightarrow> int \<Rightarrow> socket \<Rightarrow> 'w net \<Rightarrow> sock_error + bool \<times> socket \<times> 'w net" where
  "Socket_init env sock s w =
     rbind (lift_hook (find_ctx sock (hs w))) (\<lambda>ctx. case ctx of
       None \<Rightarrow> Inr (False, s, w)
     | Some p \<Rightarrow>
         if m_isSocket (the_ctx p (hs w)) \<and> \<not> m_isClosed (the_ctx p (hs w)) then
           (let s1 = s\<lparr>m_sock := sock, m_Connected := True\<rparr>
            in rbind (initSock env s1 w) (\<lambda>w1.
               let (_, s2, w2) = getLocalAddress env s1 w1; (_, s3, w3) = getRemoteAddress env s2 w2
               in Inr (True, s3, w3)))
         else Inr (False, s, w))"

text \<open>\<^verbatim>\<open>accept\<close>, with the socket it makes, which is destroyed when it cannot be used.\<close>

definition Socket_accept :: "'w env \<Rightarrow> socket \<Rightarrow> 'w net \<Rightarrow> sock_error + socket option \<times> 'w net" where
  "Socket_accept env s w =
     (let (r, w1) = ask env (Sys_accept (m_sock s)) w;
          (_, w2) = put_hs (plain [answer_of r] (hs w1)) w1
      in rbind (lift_hook (after_create (next_ctx w2) (Returned (rp_n r), hs w2))) (\<lambda>x.
         let (sockFd, w3) = put_hs x (w2\<lparr>next_ctx := Suc (next_ctx w2)\<rparr>)
         in if sockFd = -1 then Inr (None, w3)
            else let sock = Socket_new (m_family s) (m_type s) (m_protocol s)
            in rbind (Socket_init env sockFd sock w3) (\<lambda>(ok, sock1, w4).
               if ok then Inr (Some sock1, w4)
               else rbind (Socket_destroy env sock1 w4) (\<lambda>w5. Inr (None, w5)))))"

text \<open>What \<^verbatim>\<open>bind\<close> and \<^verbatim>\<open>connect\<close> begin with; the flag says whether to go on.\<close>

definition make_valid :: "'w env \<Rightarrow> socket \<Rightarrow> 'w net \<Rightarrow> sock_error + bool \<times> socket \<times> 'w net" where
  "make_valid env s w =
     (if \<not> isValid s
      then rbind (newSock env s w) (\<lambda>(s1, w1). Inr (isValid s1, s1, w1))
      else Inr (True, s, w))"

definition Socket_connect ::
  "'w env \<Rightarrow> address \<Rightarrow> u64 \<Rightarrow> socket \<Rightarrow> 'w net \<Rightarrow> sock_error + bool \<times> socket \<times> 'w net" where
  "Socket_connect env addr timeout_ms s w =
     rbind (make_valid env s w) (\<lambda>(ok, s1, w1).
       if \<not> ok then Inr (False, s1, w1)
       else if uint (getFamily (host env) addr) \<noteq> m_family s1 then Inr (False, s1, w1)
       else let s2 = s1\<lparr>m_remoteAddress := Some addr\<rparr>;
                to = (if timeout_ms = -1 then s_connect_timeout else timeout_ms);
                (r, w2) = libc env (Sys_connect (m_sock s2) (getAddr (host env) addr) (getAddrLen addr) to) w1
            in if rp_n r \<noteq> 0
               then rbind (Socket_close env s2 w2) (\<lambda>(_, s3, w3). Inr (False, s3, w3))
               else let s3 = s2\<lparr>m_Connected := True\<rparr>;
                        (_, s4, w4) = getLocalAddress env s3 w2; (_, s5, w5) = getRemoteAddress env s4 w4
                    in Inr (True, s5, w5))"

definition Socket_reconnect :: "'w env \<Rightarrow> u64 \<Rightarrow> socket \<Rightarrow> 'w net \<Rightarrow> sock_error + bool \<times> socket \<times> 'w net" where
  "Socket_reconnect env timeout_ms s w =
     (case m_remoteAddress s of
        None \<Rightarrow> Inr (False, s, w)
      | Some a \<Rightarrow> Socket_connect env a timeout_ms (s\<lparr>m_localAddress := None\<rparr>) w)"

text \<open>
  A Unix-domain path is tried first: if someone accepts connections there, \<^verbatim>\<open>bind\<close> fails, otherwise
  the path is removed. The flag says whether to go on.
\<close>

definition clear_path :: "'w env \<Rightarrow> address \<Rightarrow> 'w net \<Rightarrow> sock_error + bool \<times> 'w net" where
  "clear_path env addr w =
     (case addr of
        Unix u \<Rightarrow>
          rbind (Socket_connect env addr (-1) CreateUnixTCPSocket w) (\<lambda>(ok, sock, w1).
          rbind (if ok then Inr (False, w1)
                 else rbind (lift_addr (getPath u)) (\<lambda>path.
                      let (_, w2) = libc env (Sys_unlink (cstr path)) w1 in Inr (True, w2))) (\<lambda>(go, w2).
          rbind (Socket_destroy env sock w2) (\<lambda>w3. Inr (go, w3))))
      | _ \<Rightarrow> Inr (True, w))"

definition Socket_bind :: "'w env \<Rightarrow> address \<Rightarrow> socket \<Rightarrow> 'w net \<Rightarrow> sock_error + bool \<times> socket \<times> 'w net" where
  "Socket_bind env addr s w =
     rbind (make_valid env s w) (\<lambda>(ok, s1, w1).
       if \<not> ok then Inr (False, s1, w1)
       else if uint (getFamily (host env) addr) \<noteq> m_family s1 then Inr (False, s1, w1)
       else rbind (clear_path env addr w1) (\<lambda>(go, w2).
         if \<not> go then Inr (False, s1, w2)
         else let (r, w3) = libc env (Sys_bind (m_sock s1) (getAddr (host env) addr) (getAddrLen addr)) w2
              in if rp_n r \<noteq> 0 then Inr (False, s1, w3)
                 else let (_, s2, w4) = getLocalAddress env s1 w3 in Inr (True, s2, w4)))"

definition Socket_listen :: "'w env \<Rightarrow> int \<Rightarrow> socket \<Rightarrow> 'w net \<Rightarrow> bool \<times> 'w net" where
  "Socket_listen env backlog s w =
     (if \<not> isValid s then (False, w)
      else let (r, w1) = libc env (Sys_listen (m_sock s) backlog) w in (rp_n r = 0, w1))"

section \<open>Data\<close>

text \<open>
  The overloads for one buffer and for several differ in the list of buffers only. Nothing is
  called on a socket that is not connected.
\<close>

definition Socket_send :: "'w env \<Rightarrow> u8 list list \<Rightarrow> int \<Rightarrow> socket \<Rightarrow> 'w net \<Rightarrow> int \<times> 'w net" where
  "Socket_send env buffers flags s w =
     (if m_Connected s then
        let (r, w1) = libc env (Sys_send (m_sock s) buffers flags) w in (to_int32 (rp_n r), w1)
      else (-1, w))"

definition Socket_sendTo :: "'w env \<Rightarrow> u8 list list \<Rightarrow> address \<Rightarrow> int \<Rightarrow> socket \<Rightarrow> 'w net \<Rightarrow> int \<times> 'w net" where
  "Socket_sendTo env buffers to flags s w =
     (if m_Connected s then
        let (r, w1) = libc env (Sys_sendto (m_sock s) buffers flags (getAddr (host env) to) (getAddrLen to)) w
        in (to_int32 (rp_n r), w1)
      else (-1, w))"

definition Socket_recv :: "'w env \<Rightarrow> nat list \<Rightarrow> int \<Rightarrow> socket \<Rightarrow> 'w net \<Rightarrow> int \<times> u8 list list \<times> 'w net" where
  "Socket_recv env lengths flags s w =
     (if m_Connected s then
        let (r, w1) = libc env (Sys_recv (m_sock s) lengths flags) w in (to_int32 (rp_n r), rp_data r, w1)
      else (-1, [], w))"

text \<open>The sender's address is stored in the structure of \<open>from\<close>, whatever its kind; its length is lost.\<close>

definition Socket_recvFrom ::
  "'w env \<Rightarrow> nat list \<Rightarrow> address \<Rightarrow> int \<Rightarrow> socket \<Rightarrow> 'w net \<Rightarrow> int \<times> u8 list list \<times> address \<times> 'w net" where
  "Socket_recvFrom env lengths from_addr flags s w =
     (if m_Connected s then
        let (r, w1) = libc env (Sys_recvfrom (m_sock s) lengths flags (getAddrLen from_addr)) w
        in (to_int32 (rp_n r), rp_data r,
            if rp_n r = -1 then from_addr else store_addr (host env) (rp_addr r) from_addr, w1)
      else (-1, [], from_addr, w))"

section \<open>Errors, text and cancelling\<close>

definition getError :: "'w env \<Rightarrow> socket \<Rightarrow> 'w net \<Rightarrow> int \<times> 'w net" where
  "getError env s w =
     (let (ok, data, w1) = getOption env SOL_SOCKET SO_ERROR s w
      in if ok then (sint (mem_word (host env) (concat data) :: u32), w1) else (errno (hs w1), w1))"

definition dump_addr :: "endian \<Rightarrow> string \<Rightarrow> address option \<Rightarrow> sock_error + string" where
  "dump_addr h label a = (case a of None \<Rightarrow> Inr ''''
     | Some x \<Rightarrow> rbind (lift_addr (Address_toString h x)) (\<lambda>t. Inr (label @ t)))"

definition Socket_toString :: "endian \<Rightarrow> socket \<Rightarrow> sock_error + string" where
  "Socket_toString h s =
     rbind (dump_addr h '' local_address='' (m_localAddress s)) (\<lambda>l.
     rbind (dump_addr h '' remote_address='' (m_remoteAddress s)) (\<lambda>r.
       Inr (''[Socket sock='' @ dec_int (m_sock s) @ '' is_connected='' @ (if m_Connected s then ''1'' else ''0'') @
            '' family='' @ dec_int (m_family s) @ '' type='' @ dec_int (m_type s) @
            '' protocol='' @ dec_int (m_protocol s) @ l @ r @ '']'')))"

definition on_this_poller ::
  "(hook_cb poller \<Rightarrow> poller_error + bool \<times> hook_cb poller) \<Rightarrow> 'w net \<Rightarrow> sock_error + bool \<times> 'w net" where
  "on_this_poller f w = (case ep (hs w) of
       None \<Rightarrow> Inl (Hook_failed Null_poller)
     | Some p \<Rightarrow> rbind (lift_hook (lift_poller (f p))) (\<lambda>(b, p1). Inr (b, w\<lparr>hs := (hs w)\<lparr>ep := Some p1\<rparr>\<rparr>)))"

definition cancelRead :: "'w env \<Rightarrow> socket \<Rightarrow> 'w net \<Rightarrow> sock_error + bool \<times> 'w net" where
  "cancelRead env s w = on_this_poller (cancelEvent (os_ctl (kos env)) (m_sock s) READ) w"

definition cancelWrite :: "'w env \<Rightarrow> socket \<Rightarrow> 'w net \<Rightarrow> sock_error + bool \<times> 'w net" where
  "cancelWrite env s w = on_this_poller (cancelEvent (os_ctl (kos env)) (m_sock s) WRITE) w"

definition cancelAccept :: "'w env \<Rightarrow> socket \<Rightarrow> 'w net \<Rightarrow> sock_error + bool \<times> 'w net" where
  "cancelAccept env s w = on_this_poller (cancelEvent (os_ctl (kos env)) (m_sock s) READ) w"

definition Socket_cancelAll :: "'w env \<Rightarrow> socket \<Rightarrow> 'w net \<Rightarrow> sock_error + bool \<times> 'w net" where
  "Socket_cancelAll env s w = on_this_poller (cancelAll (os_ctl (kos env)) (m_sock s)) w"

end
