(* ===== verification/TcpServer.thy ===== *)
theory TcpServer
  imports Socket
begin

text \<open>
  \<^verbatim>\<open>src/src/server/TCPserver.{h,cpp}\<close>: a server that listens on sockets and gives the connections it
  accepts to a worker. Sockets are shared: they live in a heap, and besides \<^verbatim>\<open>m_socks\<close> the closures
  of the listening fibers refer to them (\<open>listening\<close>); a socket dropped by both is destroyed.
  The two pollers are the numbers of schedulers; their queues hold the closures the server
  schedules. \<^verbatim>\<open>shared_from_this\<close> keeps the server alive, and is left out.
\<close>

section \<open>State\<close>

datatype server_task = Start_listen nat | Handle_client nat | Close_all

record server =
  m_running :: bool
  m_name :: string
  m_recvTimeout :: u64
  m_socks :: "nat list"
  m_worker :: nat
  m_listener :: nat
  sock_heap :: "nat \<Rightarrow> socket"
  next_sock :: nat
  listening :: "nat list"
  queues :: "nat \<Rightarrow> server_task scheduler"

definition TcpServer :: "nat \<Rightarrow> nat \<Rightarrow> (nat \<Rightarrow> server_task scheduler) \<Rightarrow> server" where
  "TcpServer worker listener qs =
     \<lparr>m_running = False, m_name = ''test'', m_recvTimeout = 60 * 1000 * 2, m_socks = [], m_worker = worker,
      m_listener = listener, sock_heap = (\<lambda>_. Socket_new 0 0 0), next_sock = 0, listening = [], queues = qs\<rparr>"

definition on_queue :: "nat \<Rightarrow> server_task \<Rightarrow> server \<Rightarrow> server" where
  "on_queue q t sv = sv\<lparr>queues := (queues sv)(q := schedule (FiberTask None (Some t) (-1)) (queues sv q))\<rparr>"

definition new_sock :: "socket \<Rightarrow> server \<Rightarrow> nat \<times> server" where
  "new_sock s sv = (next_sock sv, sv\<lparr>sock_heap := (sock_heap sv)(next_sock sv := s), next_sock := Suc (next_sock sv)\<rparr>)"

section \<open>Binding\<close>

text \<open>\<^verbatim>\<open>m_socks.clear()\<close>: the sockets no closure refers to are destroyed.\<close>

primrec destroy_all :: "'w env \<Rightarrow> nat list \<Rightarrow> server \<Rightarrow> 'w net \<Rightarrow> sock_error + server \<times> 'w net" where
  "destroy_all env [] sv w = Inr (sv, w)"
| "destroy_all env (i # is) sv w =
     (if i \<in> set (listening sv) then destroy_all env is sv w
      else rbind (Socket_close env (sock_heap sv i) w) (\<lambda>(_, s, w1).
           destroy_all env is (sv\<lparr>sock_heap := (sock_heap sv)(i := s)\<rparr>) w1))"

definition clear_socks :: "'w env \<Rightarrow> server \<Rightarrow> 'w net \<Rightarrow> sock_error + server \<times> 'w net" where
  "clear_socks env sv w =
     rbind (destroy_all env (m_socks sv) sv w) (\<lambda>(sv1, w1). Inr (sv1\<lparr>m_socks := []\<rparr>, w1))"

text \<open>The body of the loop over the addresses: \<open>None\<close> when the address fails.\<close>

definition bind_one :: "'w env \<Rightarrow> address \<Rightarrow> 'w net \<Rightarrow> sock_error + socket option \<times> 'w net" where
  "bind_one env addr w =
     rbind (Socket_bind env addr (CreateTCP (host env) addr) w) (\<lambda>(ok, s, w1).
       if \<not> ok then rbind (Socket_destroy env s w1) (\<lambda>w2. Inr (None, w2))
       else let (ok2, w2) = Socket_listen env SOMAXCONN s w1
            in if \<not> ok2 then rbind (Socket_destroy env s w2) (\<lambda>w3. Inr (None, w3))
               else Inr (Some s, w2))"

primrec bind_loop ::
  "'w env \<Rightarrow> address list \<Rightarrow> address list \<Rightarrow> bool \<Rightarrow> server \<Rightarrow> 'w net \<Rightarrow>
    sock_error + address list \<times> bool \<times> server \<times> 'w net" where
  "bind_loop env [] fails failFlag sv w = Inr (fails, failFlag, sv, w)"
| "bind_loop env (a # as) fails failFlag sv w =
     rbind (bind_one env a w) (\<lambda>(r, w1). case r of
       None \<Rightarrow> bind_loop env as (fails @ [a]) True sv w1
     | Some s \<Rightarrow> let (i, sv1) = new_sock s sv
                in bind_loop env as fails failFlag (sv1\<lparr>m_socks := m_socks sv1 @ [i]\<rparr>) w1)"

definition server_bind ::
  "'w env \<Rightarrow> address list \<Rightarrow> address list \<Rightarrow> server \<Rightarrow> 'w net \<Rightarrow>
    sock_error + bool \<times> address list \<times> server \<times> 'w net" where
  "server_bind env addrs fails sv w =
     rbind (bind_loop env addrs fails False sv w) (\<lambda>(fails1, failFlag, sv1, w1).
       if failFlag then rbind (clear_socks env sv1 w1) (\<lambda>(sv2, w2). Inr (False, fails1, sv2, w2))
       else Inr (True, fails1, sv1, w1))"

definition server_bind_one :: "'w env \<Rightarrow> address \<Rightarrow> server \<Rightarrow> 'w net \<Rightarrow> sock_error + bool \<times> server \<times> 'w net" where
  "server_bind_one env addr sv w =
     rbind (server_bind env [addr] [] sv w) (\<lambda>(ok, _, sv1, w1). Inr (ok, sv1, w1))"

section \<open>Running\<close>

text \<open>\<^verbatim>\<open>start\<close>: \<open>None\<close> stands for the end of the function without a return value.\<close>

definition server_start :: "server \<Rightarrow> bool option \<times> server" where
  "server_start sv =
     (if m_running sv then (Some True, sv)
      else (None, foldl (\<lambda>v i. (on_queue (m_listener v) (Start_listen i) v)\<lparr>listening := i # listening v\<rparr>)
              (sv\<lparr>m_running := True\<rparr>) (m_socks sv)))"

definition server_stop :: "server \<Rightarrow> server" where
  "server_stop sv = on_queue (m_listener sv) Close_all (sv\<lparr>m_running := False\<rparr>)"

text \<open>The closure \<^verbatim>\<open>stop\<close> schedules, and the destructor, which closes without cancelling.\<close>

primrec cancel_and_close :: "'w env \<Rightarrow> nat list \<Rightarrow> server \<Rightarrow> 'w net \<Rightarrow> sock_error + server \<times> 'w net" where
  "cancel_and_close env [] sv w = Inr (sv, w)"
| "cancel_and_close env (i # is) sv w =
     rbind (Socket_cancelAll env (sock_heap sv i) w) (\<lambda>(_, w1).
     rbind (Socket_close env (sock_heap sv i) w1) (\<lambda>(_, s, w2).
       cancel_and_close env is (sv\<lparr>sock_heap := (sock_heap sv)(i := s)\<rparr>) w2))"

definition close_all :: "'w env \<Rightarrow> server \<Rightarrow> 'w net \<Rightarrow> sock_error + server \<times> 'w net" where
  "close_all env sv w =
     rbind (cancel_and_close env (m_socks sv) sv w) (\<lambda>(sv1, w1). clear_socks env sv1 w1)"

definition server_destroy :: "'w env \<Rightarrow> server \<Rightarrow> 'w net \<Rightarrow> sock_error + server \<times> 'w net" where
  "server_destroy env sv w =
     rbind (destroy_all env (m_socks sv) (sv\<lparr>listening := []\<rparr>) w) (\<lambda>(sv1, w1). Inr (sv1\<lparr>m_socks := []\<rparr>, w1))"

text \<open>One turn of the loop of \<^verbatim>\<open>startListen\<close>.\<close>

definition listen_turn :: "'w env \<Rightarrow> nat \<Rightarrow> server \<Rightarrow> 'w net \<Rightarrow> sock_error + server \<times> 'w net" where
  "listen_turn env i sv w =
     rbind (Socket_accept env (sock_heap sv i) w) (\<lambda>(client, w1). case client of
       Some c \<Rightarrow>
         rbind (setRecvTimeout (uint (m_recvTimeout sv)) c w1) (\<lambda>w2.
           let (j, sv1) = new_sock c sv in Inr (on_queue (m_worker sv1) (Handle_client j) sv1, w2))
     | None \<Rightarrow> Inr (sv, w1))"

text \<open>
  The loop, over what other fibers do after each of its turns. The flag says whether the loop has
  ended; it has not when the list is used up first.
\<close>

fun startListen ::
  "'w env \<Rightarrow> nat \<Rightarrow> (server \<times> 'w net \<Rightarrow> server \<times> 'w net) list \<Rightarrow> server \<Rightarrow> 'w net \<Rightarrow>
    sock_error + bool \<times> server \<times> 'w net" where
  "startListen env i gs sv w =
     (if \<not> m_running sv then Inr (True, sv, w)
      else case gs of
             [] \<Rightarrow> Inr (False, sv, w)
           | g # gs' \<Rightarrow> rbind (listen_turn env i sv w) (\<lambda>r. let (sv1, w1) = g r in startListen env i gs' sv1 w1))"

declare startListen.simps [simp del]

definition server_setName :: "string \<Rightarrow> server \<Rightarrow> server" where
  "server_setName n sv = sv\<lparr>m_name := n\<rparr>"

definition server_setRecvTimeout :: "u64 \<Rightarrow> server \<Rightarrow> server" where
  "server_setRecvTimeout t sv = sv\<lparr>m_recvTimeout := t\<rparr>"

definition isStop :: "server \<Rightarrow> bool" where
  "isStop sv \<longleftrightarrow> \<not> m_running sv"

end
