(* ===== verification/Socket_Properties.thy ===== *)
theory Socket_Properties
  imports Socket
begin

text \<open>
  The properties of sockets: what stays true of one whatever is done with it, what connecting,
  closing and reconnecting leave, when its options are set, and when data calls do nothing.
\<close>

section \<open>What the operations change\<close>

text \<open>The kind of a socket, and the part the addresses do not touch.\<close>

definition kind :: "socket \<Rightarrow> int \<times> int \<times> int" where
  "kind s = (m_family s, m_type s, m_protocol s)"

definition core :: "socket \<Rightarrow> int \<times> bool \<times> int \<times> int \<times> int" where
  "core s = (m_sock s, m_Connected s, kind s)"

text \<open>The local address of the second is that of the first, or the answer of the system when there was none.\<close>

definition kept_or_asked :: "'w env \<Rightarrow> socket \<Rightarrow> socket \<Rightarrow> bool" where
  "kept_or_asked env s s' \<longleftrightarrow>
     (if m_localAddress s \<noteq> None then m_localAddress s' = m_localAddress s
      else \<exists>w. m_localAddress s' = fst (query_addr env (Sys_getsockname (m_sock s')) (m_family s) w))"

lemma getLocalAddress_frame:
  "getLocalAddress env s w = (a, s', w') \<Longrightarrow>
    core s' = core s \<and> m_remoteAddress s' = m_remoteAddress s \<and>
    (if m_localAddress s \<noteq> None then s' = s \<and> w' = w \<and> m_localAddress s = Some a
     else m_localAddress s' = fst (query_addr env (Sys_getsockname (m_sock s)) (m_family s) w))"
  by (auto simp: getLocalAddress_def core_def kind_def split: option.splits prod.splits)

lemma getRemoteAddress_frame:
  "getRemoteAddress env s w = (a, s', w') \<Longrightarrow>
    core s' = core s \<and> m_localAddress s' = m_localAddress s \<and>
    (m_remoteAddress s \<noteq> None \<longrightarrow> s' = s \<and> w' = w \<and> m_remoteAddress s = Some a)"
  by (auto simp: getRemoteAddress_def core_def kind_def split: option.splits prod.splits)

text \<open>A new descriptor changes nothing but the number.\<close>

lemma newSock_cases:
  assumes "newSock env s w = Inr (s', w')"
  obtains n r w1 x w2 where "ask env (Sys_socket (m_family s) (m_type s) (m_protocol s)) w = (r, w1)"
    "lift_hook (socket_hook (next_ctx w1) [answer_of r] (hs w1)) = Inr x"
    "put_hs x (w1\<lparr>next_ctx := Suc (next_ctx w1)\<rparr>) = (n, w2)" "s' = s\<lparr>m_sock := n\<rparr>"
    "if n = -1 then initSock env s' w2 = Inr w' else w' = w2"
proof -
  obtain r w1 where r: "ask env (Sys_socket (m_family s) (m_type s) (m_protocol s)) w = (r, w1)" by fastforce
  then obtain x where x: "lift_hook (socket_hook (next_ctx w1) [answer_of r] (hs w1)) = Inr x"
    using assms by (auto simp: newSock_def Let_def rbind_eq_Inr)
  obtain n w2 where n: "put_hs x (w1\<lparr>next_ctx := Suc (next_ctx w1)\<rparr>) = (n, w2)" by fastforce
  show thesis
    using assms r x n by (intro that [OF r x n]) (auto simp: newSock_def Let_def rbind_eq_Inr split: if_splits)
qed

lemma newSock_frame:
  assumes "newSock env s w = Inr (s', w')"
  shows "\<exists>n. s' = s\<lparr>m_sock := n\<rparr>"
  using assms by (rule newSock_cases) blast

lemma make_valid_frame:
  assumes "make_valid env s w = Inr (ok, s', w')"
  shows "\<exists>n. s' = s\<lparr>m_sock := n\<rparr> \<and> ok = (n \<noteq> -1) \<and> (isValid s \<longrightarrow> s' = s \<and> w' = w)"
proof (cases "isValid s")
  case True
  then show ?thesis
    using assms by (intro exI [of _ "m_sock s"]) (simp add: make_valid_def isValid_def)
next
  case False
  then show ?thesis
    using assms by (auto simp: make_valid_def rbind_eq_Inr isValid_def dest!: newSock_frame)
qed

lemma Socket_close_frame:
  assumes "Socket_close env s w = Inr (b, s', w')"
  shows "s' = s\<lparr>m_Connected := False, m_sock := -1\<rparr> \<and> b = (\<not> m_Connected s \<and> m_sock s = -1)"
proof (cases "m_sock s = -1")
  case True
  then show ?thesis using assms by (auto simp: Socket_close_def split: if_splits)
next
  case False
  obtain r w1 where r: "ask env (Sys_close (m_sock s)) w = (r, w1)" by fastforce
  then obtain x where "lift_hook (close_hook (kos env) (m_sock s) [answer_of r] (hs w1)) = Inr x"
    using assms False by (auto simp: Socket_close_def Let_def rbind_eq_Inr)
  then show ?thesis
    using assms False r by (cases "put_hs x w1") (auto simp: Socket_close_def Let_def rbind_eq_Inr)
qed

lemma Socket_connect_cases:
  assumes "Socket_connect env addr ms s w = Inr (ok, s', w')"
  obtains "\<not> ok" "s' = s\<lparr>m_sock := -1\<rparr>" "\<not> isValid s"
  | "\<not> ok" "uint (getFamily (host env) addr) \<noteq> m_family s" "\<exists>n. s' = s\<lparr>m_sock := n\<rparr> \<and> n \<noteq> -1"
  | "\<not> ok" "s' = s\<lparr>m_sock := -1, m_Connected := False, m_remoteAddress := Some addr\<rparr>"
      "uint (getFamily (host env) addr) = m_family s"
  | "ok" "m_Connected s'" "isValid s'" "kind s' = kind s" "m_remoteAddress s' = Some addr"
      "uint (getFamily (host env) addr) = m_family s"
      "kept_or_asked env s s'"
proof -
  obtain g s1 w1 where v: "make_valid env s w = Inr (g, s1, w1)"
    using assms by (auto simp: Socket_connect_def rbind_eq_Inr)
  obtain n where s1: "s1 = s\<lparr>m_sock := n\<rparr>" and g: "g = (n \<noteq> -1)" and same: "isValid s \<longrightarrow> s1 = s"
    using make_valid_frame [OF v] by blast
  show ?thesis
  proof (cases g)
    case False
    then have "s' = s1" "\<not> ok" using assms v by (simp_all add: Socket_connect_def)
    moreover have "\<not> isValid s"
    proof
      assume "isValid s"
      then have "s1 = s" using same by simp
      then show False using \<open>isValid s\<close> False g s1 by (metis isValid_def socket.select_convs(1) socket.surjective socket.update_convs(1))
    qed
    ultimately show ?thesis using that(1) s1 g False by simp
  next
    case True
    show ?thesis
    proof (cases "uint (getFamily (host env) addr) = m_family s")
      case False
      then have "s' = s1" "\<not> ok" using assms v True s1 by (simp_all add: Socket_connect_def)
      then show ?thesis using that(2) False True s1 g by auto
    next
      case fam: True
      let ?s2 = "s1\<lparr>m_remoteAddress := Some addr\<rparr>"
      obtain r w2 where r: "libc env (Sys_connect (m_sock s1) (getAddr (host env) addr) (getAddrLen addr)
          (if ms = -1 then s_connect_timeout else ms)) w1 = (r, w2)" by fastforce
      show ?thesis
      proof (cases "rp_n r = 0")
        case False
        then obtain b w3 where "Socket_close env ?s2 w2 = Inr (b, s', w3)" "\<not> ok"
          using assms v fam r \<open>g\<close> unfolding Socket_connect_def s1 by (auto simp: rbind_eq_Inr)
        then show ?thesis
          using that(3) Socket_close_frame [of env ?s2 w2 b s' w3] fam s1 by simp
      next
        case True
        let ?s3 = "?s2\<lparr>m_Connected := True\<rparr>"
        obtain a s4 w4 where l: "getLocalAddress env ?s3 w2 = (a, s4, w4)" by (metis prod_cases3)
        obtain a' s5 w5 where rem: "getRemoteAddress env s4 w4 = (a', s5, w5)" by (metis prod_cases3)
        have "s' = s5 \<and> ok"
          using assms v fam r l rem True \<open>g\<close> unfolding Socket_connect_def s1 by (simp add: Let_def)
        moreover have "s5 = s4" "core s4 = core ?s3" "m_remoteAddress s4 = Some addr"
          using getRemoteAddress_frame [OF rem] getLocalAddress_frame [OF l] by (simp_all add: kind_def)
        moreover have "kept_or_asked env s s4"
          using getLocalAddress_frame [OF l] by (auto simp: s1 core_def kept_or_asked_def split: if_splits)
        ultimately show ?thesis
          using that(4) fam \<open>g\<close> g s1 by (simp add: core_def kind_def isValid_def)
      qed
    qed
  qed
qed


lemma Socket_reconnect_cases:
  assumes "Socket_reconnect env ms s w = Inr (ok, s', w')"
  obtains "m_remoteAddress s = None" "\<not> ok" "s' = s" "w' = w"
  | a where "m_remoteAddress s = Some a"
      "Socket_connect env a ms (s\<lparr>m_localAddress := None\<rparr>) w = Inr (ok, s', w')"
  using assms by (cases "m_remoteAddress s") (simp_all add: Socket_reconnect_def)

lemma Socket_bind_frame:
  assumes "Socket_bind env addr s w = Inr (ok, s', w')"
  shows "m_Connected s' = m_Connected s \<and> kind s' = kind s \<and> (isValid s \<longrightarrow> m_sock s' = m_sock s) \<and>
    (ok \<longrightarrow> isValid s' \<and> uint (getFamily (host env) addr) = m_family s)"
proof -
  obtain g s1 w1 where v: "make_valid env s w = Inr (g, s1, w1)"
    using assms by (auto simp: Socket_bind_def rbind_eq_Inr)
  obtain n where s1: "s1 = s\<lparr>m_sock := n\<rparr>" "g = (n \<noteq> -1)" and same: "isValid s \<longrightarrow> s1 = s"
    using make_valid_frame [OF v] by blast
  have s1_ok: "m_Connected s1 = m_Connected s" "kind s1 = kind s" "isValid s \<longrightarrow> m_sock s1 = m_sock s"
    "g = isValid s1" "m_family s1 = m_family s"
    using s1 same by (auto simp: kind_def isValid_def)
  show ?thesis
  proof (cases "s' = s1 \<and> \<not> ok")
    case True
    then show ?thesis using s1_ok by simp
  next
    case False
    then have fam: "g" "uint (getFamily (host env) addr) = m_family s1"
      using assms v by (auto simp: Socket_bind_def split: if_splits)
    then obtain go w2 where go: "clear_path env addr w1 = Inr (go, w2)" "go"
      using assms v False by (auto simp: Socket_bind_def rbind_eq_Inr split: if_splits)
    obtain r w3 where r: "libc env (Sys_bind (m_sock s1) (getAddr (host env) addr) (getAddrLen addr)) w2 = (r, w3)"
      by fastforce
    obtain a s2 w4 where l: "getLocalAddress env s1 w3 = (a, s2, w4)" by (metis prod_cases3)
    have "s' = s2 \<and> ok"
      using assms v fam go r l False unfolding Socket_bind_def by (simp split: if_splits)
    moreover have "core s2 = core s1" using getLocalAddress_frame [OF l] by simp
    ultimately show ?thesis using s1_ok fam by (auto simp: core_def isValid_def)
  qed
qed

lemma Socket_init_cases:
  assumes "Socket_init env fd s w = Inr (ok, s', w')"
  obtains "\<not> ok" "s' = s" "w' = w"
  | w1 a s2 w2 a' where "ok" "fd \<noteq> -1" "initSock env (s\<lparr>m_sock := fd, m_Connected := True\<rparr>) w = Inr w1"
      "getLocalAddress env (s\<lparr>m_sock := fd, m_Connected := True\<rparr>) w1 = (a, s2, w2)"
      "getRemoteAddress env s2 w2 = (a', s', w')" "\<exists>p. find_ctx fd (hs w) = Inr (Some p)"
proof -
  obtain ctx where c: "find_ctx fd (hs w) = Inr ctx"
    using assms by (cases "find_ctx fd (hs w)") (auto simp: Socket_init_def)
  show ?thesis
  proof (cases "s' = s \<and> w' = w \<and> \<not> ok")
    case False
    then obtain p where p: "ctx = Some p" "m_isSocket (the_ctx p (hs w)) \<and> \<not> m_isClosed (the_ctx p (hs w))"
      using assms c by (auto simp: Socket_init_def split: option.splits if_splits)
    let ?s1 = "s\<lparr>m_sock := fd, m_Connected := True\<rparr>"
    obtain w1 where i: "initSock env ?s1 w = Inr w1"
      using assms c p by (auto simp: Socket_init_def rbind_eq_Inr Let_def)
    obtain a s2 w2 where l: "getLocalAddress env ?s1 w1 = (a, s2, w2)" by (metis prod_cases3)
    obtain a' s3 w3 where rem: "getRemoteAddress env s2 w2 = (a', s3, w3)" by (metis prod_cases3)
    have "s' = s3 \<and> w' = w3 \<and> ok"
      using assms c p i l rem unfolding Socket_init_def by simp
    moreover have "fd \<noteq> -1"
      using c p by (auto simp: find_ctx_def find_fd_def fd_get_def get_check_def)
    ultimately show ?thesis using that(2) i l rem c p(1) by blast
  qed (use that(1) in blast)
qed

lemma Socket_init_frame:
  assumes "Socket_init env fd s w = Inr (ok, s', w')"
  shows "kind s' = kind s \<and>
    (if ok then m_sock s' = fd \<and> fd \<noteq> -1 \<and> m_Connected s' else s' = s \<and> w' = w)"
  using assms
proof (cases rule: Socket_init_cases)
  case (2 w1 a s2 w2 a')
  have "core s' = core (s\<lparr>m_sock := fd, m_Connected := True\<rparr>)"
    using getLocalAddress_frame [OF 2(4)] getRemoteAddress_frame [OF 2(5)] by simp
  then show ?thesis using 2(1,2) by (simp add: core_def kind_def)
qed simp

section \<open>What is always true of a socket\<close>

text \<open>
  Everything a program can do to one socket. The other operations leave the socket as it is, and the
  rest of the program may change anything else between two of them (\<open>Elsewhere\<close>).
\<close>

inductive sock_step :: "'w env \<Rightarrow> socket \<times> 'w net \<Rightarrow> socket \<times> 'w net \<Rightarrow> bool" for env where
  Connects: "Socket_connect env a ms s w = Inr (ok, s', w') \<Longrightarrow> sock_step env (s, w) (s', w')"
| Reconnects: "Socket_reconnect env ms s w = Inr (ok, s', w') \<Longrightarrow> sock_step env (s, w) (s', w')"
| Binds: "Socket_bind env a s w = Inr (ok, s', w') \<Longrightarrow> sock_step env (s, w) (s', w')"
| Inits: "Socket_init env fd s w = Inr (ok, s', w') \<Longrightarrow> sock_step env (s, w) (s', w')"
| Closes: "Socket_close env s w = Inr (ok, s', w') \<Longrightarrow> sock_step env (s, w) (s', w')"
| Local: "getLocalAddress env s w = (a, s', w') \<Longrightarrow> sock_step env (s, w) (s', w')"
| Remote: "getRemoteAddress env s w = (a, s', w') \<Longrightarrow> sock_step env (s, w) (s', w')"
| Elsewhere: "sock_step env (s, w) (s, w')"

definition sock_inv :: "int \<times> int \<times> int \<Rightarrow> socket \<Rightarrow> bool" where
  "sock_inv t s \<longleftrightarrow> kind s = t \<and> (m_Connected s \<longrightarrow> isValid s)"

lemma Socket_connect_inv:
  assumes "Socket_connect env a ms s w = Inr (ok, s', w')" and "sock_inv t s"
  shows "sock_inv t s'"
  using assms(1)
proof (cases rule: Socket_connect_cases)
  case 1
  then show ?thesis using assms(2) by (simp add: sock_inv_def kind_def isValid_def)
next
  case 2
  then show ?thesis using assms(2) by (auto simp: sock_inv_def kind_def isValid_def)
next
  case 3
  then show ?thesis using assms(2) by (simp add: sock_inv_def kind_def)
next
  case 4
  then show ?thesis using assms(2) by (simp add: sock_inv_def)
qed

lemma sock_inv_local [simp]: "sock_inv t (s\<lparr>m_localAddress := a\<rparr>) = sock_inv t s"
  by (simp add: sock_inv_def kind_def isValid_def)

lemma sock_inv_core: "core s' = core s \<Longrightarrow> sock_inv t s' = sock_inv t s"
  by (simp add: sock_inv_def core_def isValid_def)

lemma sock_step_inv:
  assumes "sock_step env (s, w) (s', w')" and "sock_inv t s"
  shows "sock_inv t s'"
  using assms(1)
proof (cases rule: sock_step.cases)
  case (Connects a ms ok)
  then show ?thesis using assms(2) by (rule Socket_connect_inv)
next
  case (Reconnects ms ok)
  then show ?thesis
  proof (cases rule: Socket_reconnect_cases)
    case (2 a)
    show ?thesis by (rule Socket_connect_inv [OF 2(2)]) (use assms(2) in simp)
  qed (use assms(2) in simp)
next
  case (Binds a ok)
  then show ?thesis using Socket_bind_frame [of env a s w ok s' w'] assms(2)
    by (auto simp: sock_inv_def isValid_def)
next
  case (Inits fd ok)
  then show ?thesis using Socket_init_frame [of env fd s w ok s' w'] assms(2)
    by (cases ok) (auto simp: sock_inv_def isValid_def)
next
  case (Closes ok)
  then show ?thesis using Socket_close_frame [of env s w ok s' w'] assms(2)
    by (simp add: sock_inv_def kind_def)
next
  case (Local a)
  then show ?thesis using getLocalAddress_frame [of env s w a s' w'] sock_inv_core assms(2) by blast
next
  case (Remote a)
  then show ?thesis using getRemoteAddress_frame [of env s w a s' w'] sock_inv_core assms(2) by blast
qed (use assms(2) in simp)

lemma sock_reach_inv:
  assumes "(sock_step env)\<^sup>*\<^sup>* x y" and "sock_inv t (fst x)"
  shows "sock_inv t (fst y)"
  using assms
  by (induction rule: rtranclp_induct) (auto dest: sock_step_inv)

text \<open>C5. Whatever is done with a socket, its family, type and protocol stay those it was made with,
  and it is connected only as long as it has a descriptor: one without a descriptor sends, receives
  and listens without asking the system, and fails.\<close>

theorem socket_invariant:
  assumes "(sock_step env)\<^sup>*\<^sup>* (Socket_new family type protocol, w0) (s, w)"
  shows "kind s = (family, type, protocol) \<and> (m_Connected s \<longrightarrow> isValid s) \<and>
    (\<not> isValid s \<longrightarrow> Socket_send env bs fl s w = (-1, w) \<and> Socket_recv env ls fl s w = (-1, [], w) \<and>
       Socket_listen env n s w = (False, w))"
proof -
  have "sock_inv (family, type, protocol) s"
    using sock_reach_inv [OF assms, of "(family, type, protocol)"]
    by (simp add: sock_inv_def kind_def Socket_new_def)
  then show ?thesis
    by (auto simp: sock_inv_def Socket_send_def Socket_recv_def Socket_listen_def)
qed

section \<open>A system for the witnesses\<close>

text \<open>The world is the list of the calls made. Sockets get the descriptor 5, connections 6; the other
  calls succeed. Hooks are off.\<close>

definition trace_sys :: "sys_call list sys" where
  "trace_sys c w =
     (\<lparr>rp_n = (case c of Sys_socket _ _ _ \<Rightarrow> 5 | Sys_accept _ \<Rightarrow> 6 | _ \<Rightarrow> 0), rp_errno = 0, rp_data = [],
       rp_addr = [], rp_len = 0\<rparr>, w @ [c])"

definition trace_env :: "sys_call list env" where
  "trace_env = \<lparr>host = SYLAR_LITTLE_ENDIAN, sys = trace_sys, kos = \<lparr>os_ctl = \<lambda>_ _ _. True, os_errno = 0\<rparr>\<rparr>"

definition unhooked :: hook_state where
  "unhooked = \<lparr>t_hook_enable = False, errno = 0,
     fdm = new_fd_manager (\<lambda>_. fst (FdCtx 0 \<lparr>st_sock = \<lambda>_. None, fd_flags = \<lambda>_. 0\<rparr>))
       \<lparr>st_sock = \<lambda>_. Some True, fd_flags = \<lambda>_. 0\<rparr>,
     ep = None, infos = (\<lambda>_. None), next_info = 0\<rparr>"

definition trace_net :: "sys_call list net" where
  "trace_net = \<lparr>hs = unhooked, world = [], next_ctx = 0\<rparr>"

definition port80 :: address where "port80 = IPv4 (IPv4Address SYLAR_LITTLE_ENDIAN 0x7F000001 80)"

lemma port80_family [simp]: "uint (getFamily SYLAR_LITTLE_ENDIAN port80) = 2"
  by (simp add: port80_def IPv4Address_def AF_INET_def getFamily_def in_bytes_def)

lemma trace_sys_facts [simp]:
  "host trace_env = SYLAR_LITTLE_ENDIAN" "sys trace_env = trace_sys" "snd (trace_sys c w) = w @ [c]"
  "rp_n (fst (trace_sys (Sys_socket f t p) w)) = 5" "rp_n (fst (trace_sys (Sys_accept fd) w)) = 6"
  by (simp_all add: trace_env_def trace_sys_def)

lemma trace_connects:
  "\<exists>s w. Socket_connect trace_env port80 0 CreateTCPSocket trace_net = Inr (True, s, w)"
  by (simp add: Socket_connect_def make_valid_def newSock_def CreateTCPSocket_def AF_INET_def Socket_new_def isValid_def
     ask_def trace_net_def trace_env_def trace_sys_def socket_hook_def unhooked_def put_hs_def plain_def answer_of_def libc_def
     getLocalAddress_def getRemoteAddress_def query_addr_def Let_def split: option.splits prod.splits)

lemma socket_invariant_witness:
  "\<exists>s w. Socket_connect trace_env port80 0 CreateTCPSocket trace_net = Inr (True, s, w) \<and>
     kind s = (2, SOCK_STREAM, 0) \<and> isValid s"
proof -
  obtain s w where c: "Socket_connect trace_env port80 0 CreateTCPSocket trace_net = Inr (True, s, w)"
    using trace_connects by blast
  then have "(sock_step trace_env)\<^sup>*\<^sup>* (Socket_new 2 SOCK_STREAM 0, trace_net) (s, w)"
    by (intro r_into_rtranclp sock_step.Connects [of _ port80 0 _ _ True])
      (simp add: CreateTCPSocket_def AF_INET_def)
  moreover have "m_Connected s"
    using c by (cases rule: Socket_connect_cases) simp_all
  ultimately show ?thesis
    using socket_invariant [of trace_env 2 SOCK_STREAM 0 trace_net s w] c by blast
qed

end
