(* ===== verification/Socket_Calls.thy ===== *)
theory Socket_Calls
  imports Socket_Properties
begin

text \<open>
  What sockets ask of the system, and in which order: creating, accepting, reconnecting, and the
  data calls of a socket that is only bound.
\<close>

section \<open>The calls that reach the system\<close>

text \<open>The state of the world after a call.\<close>

definition after :: "'w env \<Rightarrow> sys_call \<Rightarrow> 'w \<Rightarrow> 'w" where
  "after env c x = snd (sys env c x)"

lemma ask_eq: "ask env c w = (r, w') \<longleftrightarrow> r = fst (sys env c (world w)) \<and> w' = w\<lparr>world := after env c (world w)\<rparr>"
  by (auto simp: ask_def after_def split: prod.split)

lemma world_put_hs [simp]: "world (snd (put_hs x w)) = world w" "next_ctx (snd (put_hs x w)) = next_ctx w"
  by (auto simp: put_hs_def split: prod.split io_result.split)

lemma put_hs_world: "put_hs x w = (n, w') \<Longrightarrow> world w' = world w"
  using world_put_hs by (metis snd_conv)

lemma libc_world: "libc env c w = (r, w') \<Longrightarrow> r = fst (sys env c (world w)) \<and> world w' = after env c (world w)"
  by (cases "ask env c w") (auto simp: libc_def ask_eq dest!: put_hs_world split: prod.splits)

lemma setOption_world:
  assumes "setOption env l opt v s w = Inr (b, w')"
  shows "world w' = after env (Sys_setsockopt (m_sock s) l opt v) (world w)"
proof -
  obtain r w1 where r: "ask env (Sys_setsockopt (m_sock s) l opt v) w = (r, w1)" by fastforce
  obtain x where "snd (put_hs x w1) = w'"
    using assms r by (auto simp: setOption_def rbind_eq_Inr case_prod_beta)
  then show ?thesis using r world_put_hs [of x w1] by (auto simp: ask_eq)
qed

text \<open>The options a socket of a type gets.\<close>

definition options_of :: "socket \<Rightarrow> sys_call list" where
  "options_of s = Sys_setsockopt (m_sock s) SOL_SOCKET SO_REUSEADDR (1, 0) #
     (if m_type s = SOCK_STREAM then [Sys_setsockopt (m_sock s) IPPROTO_TCP TCP_NODELAY (1, 0)] else [])"

definition calls :: "'w env \<Rightarrow> sys_call list \<Rightarrow> 'w \<Rightarrow> 'w" where
  "calls env cs x = foldl (\<lambda>x c. after env c x) x cs"

lemma calls_simps [simp]:
  "calls env [] x = x"
  "calls env (c # cs) x = calls env cs (after env c x)"
  "calls env (cs @ ds) x = calls env ds (calls env cs x)"
  by (simp_all add: calls_def)

lemma initSock_world:
  assumes "initSock env s w = Inr w'"
  shows "world w' = calls env (options_of s) (world w)"
  using assms
  by (auto simp: initSock_def rbind_eq_Inr options_of_def dest!: setOption_world split: if_splits)

section \<open>Creating\<close>

text \<open>\<^verbatim>\<open>newSock\<close> sets the options of a socket exactly when the socket could not be created, and
  then on the descriptor -1; a socket that was created gets none. The test is the wrong way round.\<close>

theorem newSock_options:
  assumes "newSock env s w = Inr (s', w')"
  shows "world w' = calls env (Sys_socket (m_family s) (m_type s) (m_protocol s) #
      (if isValid s' then [] else options_of (s\<lparr>m_sock := -1\<rparr>))) (world w)"
  using assms
proof (rule newSock_cases)
  fix n r w1 x w2
  assume r: "ask env (Sys_socket (m_family s) (m_type s) (m_protocol s)) w = (r, w1)"
    and n: "put_hs x (w1\<lparr>next_ctx := Suc (next_ctx w1)\<rparr>) = (n, w2)" and s': "s' = s\<lparr>m_sock := n\<rparr>"
    and i: "if n = -1 then initSock env s' w2 = Inr w' else w' = w2"
  have "world w2 = after env (Sys_socket (m_family s) (m_type s) (m_protocol s)) (world w)"
    using put_hs_world [OF n] r by (simp add: ask_eq)
  then show ?thesis
    using i s' by (auto simp: isValid_def dest!: initSock_world split: if_splits)
qed


section \<open>Accepting\<close>

lemma query_addr_world: "query_addr env c fam w = (a, w') \<Longrightarrow> world w' = after env c (world w)"
  by (auto simp: query_addr_def Let_def dest!: libc_world split: prod.splits if_splits)

lemma getLocalAddress_world:
  assumes "getLocalAddress env s w = (a, s', w')" and "m_localAddress s = None"
  shows "world w' = after env (Sys_getsockname (m_sock s)) (world w)"
  using assms by (auto simp: getLocalAddress_def dest!: query_addr_world split: prod.splits option.splits)

lemma getRemoteAddress_world:
  assumes "getRemoteAddress env s w = (a, s', w')" and "m_remoteAddress s = None"
  shows "world w' = after env (Sys_getpeername (m_sock s)) (world w)"
  using assms by (auto simp: getRemoteAddress_def dest!: query_addr_world split: prod.splits option.splits)

lemma Socket_init_world:
  assumes "Socket_init env fd s w = Inr (True, s', w')"
    and "m_localAddress s = None" and "m_remoteAddress s = None"
  shows "world w' = calls env (options_of (s\<lparr>m_sock := fd\<rparr>) @ [Sys_getsockname fd, Sys_getpeername fd]) (world w)"
  using assms(1)
proof (cases rule: Socket_init_cases)
  case (2 w1 a s2 w2 a')
  have "m_remoteAddress s2 = None" "m_sock s2 = fd"
    using getLocalAddress_frame [OF 2(4)] assms(3) by (simp_all add: core_def)
  then show ?thesis
    using getRemoteAddress_world [OF 2(5)] getLocalAddress_world [OF 2(4)] initSock_world [OF 2(3)] assms(2)
    by (simp add: options_of_def)
qed simp

lemma Socket_accept_cases:
  assumes "Socket_accept env s w = Inr (c, w')"
  obtains "c = None" "world w' = after env (Sys_accept (m_sock s)) (world w)"
  | fd w3 s1 where "c = Some s1" "fd = rp_n (fst (sys env (Sys_accept (m_sock s)) (world w)))"
      "world w3 = after env (Sys_accept (m_sock s)) (world w)"
      "Socket_init env fd (Socket_new (m_family s) (m_type s) (m_protocol s)) w3 = Inr (True, s1, w')"
proof -
  obtain r w1 where r: "ask env (Sys_accept (m_sock s)) w = (r, w1)" by fastforce
  obtain k w2 where p: "put_hs (plain [answer_of r] (hs w1)) w1 = (k, w2)" by fastforce
  obtain x where x: "after_create (next_ctx w2) (Returned (rp_n r), hs w2) = Inr x"
    using assms r p by (cases "after_create (next_ctx w2) (Returned (rp_n r), hs w2)") (auto simp: Socket_accept_def)
  have "fst x = Returned (rp_n r)"
    using x by (auto simp: after_create_def rbind_eq_Inr split: if_splits)
  then obtain w3 where w3: "put_hs x (w2\<lparr>next_ctx := Suc (next_ctx w2)\<rparr>) = (rp_n r, w3)"
    by (cases x) (simp add: put_hs_def)
  have fd: "rp_n r = rp_n (fst (sys env (Sys_accept (m_sock s)) (world w)))"
    and world: "world w3 = after env (Sys_accept (m_sock s)) (world w)"
    using r put_hs_world [OF p] put_hs_world [OF w3] by (simp_all add: ask_eq)
  let ?s0 = "Socket_new (m_family s) (m_type s) (m_protocol s)"
  show ?thesis
  proof (cases "rp_n r = -1")
    case True
    then show ?thesis using that(1) assms r p x w3 world by (simp add: Socket_accept_def)
  next
    case False
    then obtain ok s1 w4 where i: "Socket_init env (rp_n r) ?s0 w3 = Inr (ok, s1, w4)"
      using assms r p x w3 by (auto simp: Socket_accept_def rbind_eq_Inr)
    show ?thesis
    proof (cases ok)
      case True
      then have "c = Some s1" "w' = w4"
        using assms r p x w3 i False by (simp_all add: Socket_accept_def)
      then show ?thesis using that(2) [OF _ fd world] i True by simp
    next
      case not_ok: False
      then have "s1 = ?s0" "w4 = w3" using Socket_init_frame [OF i] by auto
      then have "c = None" "w' = w3"
        using assms r p x w3 i False not_ok
        by (simp_all add: Socket_accept_def Socket_destroy_def Socket_close_def Socket_new_def)
      then show ?thesis using that(1) world by simp
    qed
  qed
qed

text \<open>C25. \<^verbatim>\<open>accept\<close> gives a connected socket of the kind of the listening one, over the descriptor the
  system gave, with its options set and its two addresses asked for; or nothing, in which case only
  the system's \<^verbatim>\<open>accept\<close> was called: a descriptor that cannot be used is not closed again.\<close>

theorem accept_outcome:
  assumes "Socket_accept env s w = Inr (c, w')"
  shows "case c of
      Some s1 \<Rightarrow> kind s1 = kind s \<and> m_Connected s1 \<and> isValid s1 \<and>
        m_sock s1 = rp_n (fst (sys env (Sys_accept (m_sock s)) (world w))) \<and>
        world w' = calls env (Sys_accept (m_sock s) # options_of s1 @
          [Sys_getsockname (m_sock s1), Sys_getpeername (m_sock s1)]) (world w)
    | None \<Rightarrow> world w' = after env (Sys_accept (m_sock s)) (world w)"
  using assms
proof (cases rule: Socket_accept_cases)
  case (2 fd w3 s1)
  note frame = Socket_init_frame [OF 2(4)]
  then have "options_of (Socket_new (m_family s) (m_type s) (m_protocol s)\<lparr>m_sock := fd\<rparr>) = options_of s1"
    by (simp add: options_of_def kind_def)
  then show ?thesis
    using Socket_init_world [OF 2(4)] frame 2(1,2,3)
    by (simp add: Socket_new_def kind_def isValid_def)
qed simp

section \<open>Connecting again\<close>

text \<open>Closing a socket and connecting it again leaves the local address of the first connection;
  \<^verbatim>\<open>reconnect\<close> asks the system for the new one, and goes to the remote address of before.\<close>

theorem reconnect_outcome:
  assumes "Socket_close env s w = Inr (b, s1, w1)" and "m_remoteAddress s = Some a" and "m_localAddress s = Some l"
    and "Socket_connect env a ms s1 w1 = Inr (True, s2, w2)"
    and "Socket_reconnect env ms s1 w1 = Inr (True, s3, w3)"
  shows "b = (\<not> m_Connected s \<and> \<not> isValid s) \<and> m_localAddress s2 = Some l \<and> m_remoteAddress s3 = Some a \<and>
    (\<exists>v. m_localAddress s3 = fst (query_addr env (Sys_getsockname (m_sock s3)) (m_family s) v))"
proof -
  have s1: "s1 = s\<lparr>m_Connected := False, m_sock := -1\<rparr>" "b = (\<not> m_Connected s \<and> m_sock s = -1)"
    using Socket_close_frame [OF assms(1)] by simp_all
  have re: "Socket_connect env a ms (s1\<lparr>m_localAddress := None\<rparr>) w1 = Inr (True, s3, w3)"
    using assms(2,5) s1 by (simp add: Socket_reconnect_def)
  have "m_localAddress s2 = Some l"
    using assms(4) by (cases rule: Socket_connect_cases) (use s1 assms(3) in \<open>auto simp: kept_or_asked_def\<close>)
  moreover have "m_remoteAddress s3 = Some a \<and>
      (\<exists>v. m_localAddress s3 = fst (query_addr env (Sys_getsockname (m_sock s3)) (m_family s) v))"
    using re by (cases rule: Socket_connect_cases) (use s1 in \<open>auto simp: kept_or_asked_def\<close>)
  ultimately show ?thesis using s1 by (simp add: isValid_def)
qed

section \<open>Data without a connection\<close>

text \<open>A datagram socket that is bound is valid but not connected, and then neither sends to an
  address nor receives: all such calls return -1 at once, without asking the system.\<close>

theorem bound_socket_is_deaf:
  assumes "\<not> m_Connected s" and "Socket_bind env a s w = Inr (True, s1, w1)"
  shows "isValid s1 \<and> Socket_sendTo env bs to fl s1 w1 = (-1, w1) \<and>
    Socket_recvFrom env ls fr fl s1 w1 = (-1, [], fr, w1)"
  using Socket_bind_frame [OF assms(2)] assms(1)
  by (simp add: Socket_sendTo_def Socket_recvFrom_def)

section \<open>Examples\<close>

lemma newSock_options_witness:
  "\<exists>s w. newSock trace_env CreateTCPSocket trace_net = Inr (s, w) \<and> isValid s \<and>
     world w = [Sys_socket 2 SOCK_STREAM 0]"
proof -
  obtain s w where n: "newSock trace_env CreateTCPSocket trace_net = Inr (s, w)" "isValid s"
    by (simp add: newSock_def CreateTCPSocket_def AF_INET_def Socket_new_def isValid_def ask_def trace_net_def trace_env_def
      trace_sys_def socket_hook_def unhooked_def put_hs_def plain_def answer_of_def Let_def split: option.splits prod.splits)
  then show ?thesis
    using newSock_options [OF n(1)]
    by (simp add: after_def trace_net_def CreateTCPSocket_def Socket_new_def AF_INET_def)
qed

lemma trace_accepts:
  "\<exists>c w. Socket_accept trace_env (CreateTCPSocket\<lparr>m_sock := 5\<rparr>) trace_net = Inr (Some c, w)"
  by (simp add: Socket_accept_def Socket_init_def initSock_def setOption_def setsockopt_hook_def CreateTCPSocket_def
    AF_INET_def Socket_new_def ask_def trace_net_def trace_env_def trace_sys_def unhooked_def put_hs_def plain_def
    answer_of_def after_create_def create_ctx_def fd_get_def get_check_def get_create_def new_fd_manager_def data_at_def
    data_put_def resize_to_def FdCtx_def FdCtx_init_def find_ctx_def find_fd_def the_ctx_def nth_list_update
    getLocalAddress_def getRemoteAddress_def query_addr_def libc_def Let_def split: option.splits prod.splits)

lemma accept_outcome_witness:
  "\<exists>c w. Socket_accept trace_env (CreateTCPSocket\<lparr>m_sock := 5\<rparr>) trace_net = Inr (Some c, w) \<and>
     m_sock c = 6 \<and> m_Connected c"
proof -
  obtain c w where a: "Socket_accept trace_env (CreateTCPSocket\<lparr>m_sock := 5\<rparr>) trace_net = Inr (Some c, w)"
    using trace_accepts by blast
  then show ?thesis using accept_outcome [OF a] by simp
qed

lemma trace_getaddr:
  "\<exists>s w. Socket_close trace_env (CreateTCPSocket\<lparr>m_sock := 5, m_localAddress := Some port80, m_remoteAddress := Some port80\<rparr>) trace_net =
     Inr (False, s, w) \<and> (\<exists>s2 w2. Socket_connect trace_env port80 0 s w = Inr (True, s2, w2)) \<and>
     (\<exists>s3 w3. Socket_reconnect trace_env 0 s w = Inr (True, s3, w3))"
  by (simp add: Socket_close_def Socket_reconnect_def Socket_connect_def make_valid_def newSock_def CreateTCPSocket_def AF_INET_def
     Socket_new_def isValid_def ask_def trace_net_def trace_env_def trace_sys_def socket_hook_def close_hook_def unhooked_def
     put_hs_def plain_def answer_of_def libc_def getLocalAddress_def getRemoteAddress_def query_addr_def Let_def
     split: option.splits prod.splits)

lemma reconnect_outcome_witness:
  "\<exists>s1 s2 s3 w1 w2 w3. Socket_connect trace_env port80 0 s1 w1 = Inr (True, s2, w2) \<and>
     Socket_reconnect trace_env 0 s1 w1 = Inr (True, s3, w3) \<and>
     m_localAddress s2 = Some port80 \<and> m_remoteAddress s3 = Some port80"
proof -
  let ?s = "CreateTCPSocket\<lparr>m_sock := 5, m_localAddress := Some port80, m_remoteAddress := Some port80\<rparr>"
  obtain s1 w1 s2 w2 s3 w3 where "Socket_close trace_env ?s trace_net = Inr (False, s1, w1)"
    and c: "Socket_connect trace_env port80 0 s1 w1 = Inr (True, s2, w2)" "Socket_reconnect trace_env 0 s1 w1 = Inr (True, s3, w3)"
    using trace_getaddr by blast
  from reconnect_outcome [OF this(1) _ _ c, of port80]
  have "m_localAddress s2 = Some port80 \<and> m_remoteAddress s3 = Some port80" by simp
  then show ?thesis using c by blast
qed

lemma clear_path_port80 [simp]: "clear_path env port80 w = Inr (True, w)"
  by (simp add: clear_path_def port80_def)

lemma trace_binds:
  "\<exists>s w. Socket_bind trace_env port80 CreateUDPSocket trace_net = Inr (True, s, w)"
  by (simp add: Socket_bind_def make_valid_def newSock_def CreateUDPSocket_def AF_INET_def
     Socket_new_def isValid_def ask_def trace_net_def trace_env_def trace_sys_def socket_hook_def unhooked_def
     put_hs_def plain_def answer_of_def libc_def getLocalAddress_def query_addr_def Let_def
     split: option.splits prod.splits)

lemma bound_socket_is_deaf_witness:
  "\<exists>s w. Socket_bind trace_env port80 CreateUDPSocket trace_net = Inr (True, s, w) \<and>
     Socket_recvFrom trace_env [100] port80 0 s w = (-1, [], port80, w)"
proof -
  obtain s w where b: "Socket_bind trace_env port80 CreateUDPSocket trace_net = Inr (True, s, w)"
    using trace_binds by blast
  then show ?thesis
    using bound_socket_is_deaf [OF _ b] by (simp add: CreateUDPSocket_def Socket_new_def)
qed

end
