(* ===== verification/TcpServer_Properties.thy ===== *)
theory TcpServer_Properties
  imports TcpServer Socket_Calls Hook_Properties
begin

text \<open>
  The properties of the server: what binding a list of addresses leaves, what starting schedules,
  what a turn of a listening fiber does, and when such a fiber ends.
\<close>

section \<open>Binding\<close>

text \<open>The addresses tried in order, without the server: \<open>None\<close> for one that fails.\<close>

primrec bind_each :: "'w env \<Rightarrow> address list \<Rightarrow> 'w net \<Rightarrow> sock_error + socket option list \<times> 'w net" where
  "bind_each env [] w = Inr ([], w)"
| "bind_each env (a # as) w =
     rbind (bind_one env a w) (\<lambda>(r, w1). rbind (bind_each env as w1) (\<lambda>(rs, w2). Inr (r # rs, w2)))"

fun failed :: "address list \<Rightarrow> socket option list \<Rightarrow> address list" where
  "failed (a # as) (r # rs) = (if r = None then a # failed as rs else failed as rs)"
| "failed _ _ = []"

primrec bound :: "socket option list \<Rightarrow> socket list" where
  "bound [] = []"
| "bound (r # rs) = (case r of None \<Rightarrow> bound rs | Some s \<Rightarrow> s # bound rs)"

text \<open>Sockets put into the heap one after the other, and into \<^verbatim>\<open>m_socks\<close>.\<close>

definition keep_sock :: "server \<Rightarrow> socket \<Rightarrow> server" where
  "keep_sock sv s = (let (i, sv1) = new_sock s sv in sv1\<lparr>m_socks := m_socks sv1 @ [i]\<rparr>)"

lemma bind_loop_eq:
  "bind_loop env as fails flag sv w =
     rbind (bind_each env as w) (\<lambda>(rs, w1).
       Inr (fails @ failed as rs, flag \<or> None \<in> set rs, foldl keep_sock sv (bound rs), w1))"
proof (induction as arbitrary: fails flag sv w)
  case (Cons a as)
  show ?case
  proof (cases "bind_one env a w")
    case (Inr x)
    obtain r w1 where x: "x = (r, w1)" by fastforce
    show ?thesis
    proof (cases r)
      case None
      then show ?thesis using Inr x by (simp add: Cons.IH rbind_assoc case_prod_unfold)
    next
      case (Some s)
      then show ?thesis
        using Inr x by (simp add: Cons.IH rbind_assoc case_prod_unfold keep_sock_def Let_def)
    qed
  qed simp
qed simp

lemma keep_socks:
  "m_socks (foldl keep_sock sv ss) = m_socks sv @ [next_sock sv ..< next_sock sv + length ss] \<and>
   next_sock (foldl keep_sock sv ss) = next_sock sv + length ss \<and>
   listening (foldl keep_sock sv ss) = listening sv \<and> queues (foldl keep_sock sv ss) = queues sv \<and>
   m_running (foldl keep_sock sv ss) = m_running sv \<and>
   map (sock_heap (foldl keep_sock sv ss)) [next_sock sv ..< next_sock sv + length ss] = ss \<and>
   (\<forall>j < next_sock sv. sock_heap (foldl keep_sock sv ss) j = sock_heap sv j)"
proof (induction ss rule: rev_induct)
  case (snoc s ss)
  have k: "m_socks (keep_sock v s) = m_socks v @ [next_sock v]" "next_sock (keep_sock v s) = Suc (next_sock v)"
    "listening (keep_sock v s) = listening v" "queues (keep_sock v s) = queues v"
    "m_running (keep_sock v s) = m_running v" "sock_heap (keep_sock v s) = (sock_heap v)(next_sock v := s)" for v
    by (simp_all add: keep_sock_def new_sock_def Let_def)
  have "map ((sock_heap v)(next_sock v := s)) [n ..< next_sock v] = map (sock_heap v) [n ..< next_sock v]" for v n
    by simp
  then show ?case using snoc.IH by (simp add: k del: fun_upd_apply) (simp add: k)
qed simp

lemma length_bind_each: "bind_each env as w = Inr (rs, w') \<Longrightarrow> length rs = length as"
  by (induction as arbitrary: w rs) (auto simp: rbind_eq_Inr)

lemma bound_all: "None \<notin> set rs \<Longrightarrow> rs = map Some (bound rs) \<and> length (bound rs) = length rs"
proof (induction rs)
  case (Cons r rs)
  then show ?case by (cases r) auto
qed simp

lemma failed_none: "length rs = length as \<Longrightarrow> failed as rs = [] \<longleftrightarrow> None \<notin> set rs"
  by (induction as rs rule: failed.induct) auto

text \<open>Clearing \<^verbatim>\<open>m_socks\<close> closes what nothing else refers to.\<close>

lemma destroy_all_frame:
  assumes "destroy_all env is sv w = Inr (sv', w')"
  shows "m_socks sv' = m_socks sv \<and> listening sv' = listening sv \<and> queues sv' = queues sv \<and>
    m_running sv' = m_running sv \<and> next_sock sv' = next_sock sv \<and>
    (\<forall>i. (i \<in> set is \<and> i \<notin> set (listening sv) \<longrightarrow> \<not> isValid (sock_heap sv' i)) \<and>
         (i \<notin> set is \<or> i \<in> set (listening sv) \<longrightarrow> sock_heap sv' i = sock_heap sv i))"
  using assms
proof (induction "is" arbitrary: sv w)
  case (Cons i "is")
  show ?case
  proof (cases "i \<in> set (listening sv)")
    case True
    then show ?thesis using Cons by auto
  next
    case False
    then obtain b s w1 where c: "Socket_close env (sock_heap sv i) w = Inr (b, s, w1)"
      and d: "destroy_all env is (sv\<lparr>sock_heap := (sock_heap sv)(i := s)\<rparr>) w1 = Inr (sv', w')"
      using Cons.prems by (auto simp: rbind_eq_Inr)
    have "\<not> isValid s" using Socket_close_frame [OF c] by (simp add: isValid_def)
    with Cons.IH [OF d] False show ?thesis by (auto split: if_splits)
  qed
qed simp

lemma Socket_listen_net: "Socket_listen env n s w = (b, w') \<Longrightarrow> b \<longrightarrow> isValid s"
  by (auto simp: Socket_listen_def split: if_splits)

lemma bind_one_valid:
  assumes "bind_one env a w = Inr (Some s, w')"
  shows "isValid s \<and> \<not> m_Connected s \<and> kind s = (uint (getFamily (host env) a), SOCK_STREAM, 0)"
proof -
  obtain ok s1 w1 where b: "Socket_bind env a (CreateTCP (host env) a) w = Inr (ok, s1, w1)"
    using assms by (auto simp: bind_one_def rbind_eq_Inr)
  then have "ok" "s1 = s"
    using assms by (auto simp: bind_one_def rbind_eq_Inr split: if_splits prod.splits)
  then show ?thesis
    using Socket_bind_frame [OF b] unfolding CreateTCP_def Socket_new_def kind_def
    by (simp only: socket.select_convs simp_thms)
qed

lemma bind_each_valid: "bind_each env as w = Inr (rs, w') \<Longrightarrow> Some s \<in> set rs \<Longrightarrow> isValid s"
  by (induction as arbitrary: w rs) (auto simp: rbind_eq_Inr dest: bind_one_valid)

text \<open>C24. Binding the server to a list of addresses is all or nothing: every address is tried, those
  that fail are appended to \<open>fails\<close> in their order, and when there are none the new listening sockets
  follow the earlier ones. Otherwise the server has no socket left, the ones of earlier calls
  included, and those are closed.\<close>

theorem server_bind_outcome:
  assumes "server_bind env addrs fails sv w = Inr (ok, fails', sv', w')"
  shows "\<exists>rs w1. bind_each env addrs w = Inr (rs, w1) \<and> length rs = length addrs \<and>
    ok = (None \<notin> set rs) \<and> fails' = fails @ failed addrs rs \<and> ok = (failed addrs rs = []) \<and>
    m_running sv' = m_running sv \<and> queues sv' = queues sv \<and>
    (if ok then w' = w1 \<and> (\<exists>new. m_socks sv' = m_socks sv @ new \<and> map (\<lambda>i. Some (sock_heap sv' i)) new = rs \<and>
          (\<forall>i \<in> set new. next_sock sv \<le> i \<and> isValid (sock_heap sv' i)))
     else m_socks sv' = [] \<and> (\<forall>i \<in> set (m_socks sv). i \<notin> set (listening sv) \<longrightarrow> \<not> isValid (sock_heap sv' i)))"
proof -
  obtain rs w1 where b: "bind_each env addrs w = Inr (rs, w1)"
    using assms by (auto simp: server_bind_def bind_loop_eq rbind_eq_Inr)
  let ?v = "foldl keep_sock sv (bound rs)"
  let ?new = "[next_sock sv ..< next_sock sv + length (bound rs)]"
  have v: "m_socks ?v = m_socks sv @ ?new" "listening ?v = listening sv" "queues ?v = queues sv"
    "m_running ?v = m_running sv" "map (sock_heap ?v) ?new = bound rs"
    using keep_socks [of sv "bound rs"] by simp_all
  have len: "length rs = length addrs" by (rule length_bind_each [OF b])
  show ?thesis
  proof (cases "None \<in> set rs")
    case True
    then obtain sv2 where c: "clear_socks env ?v w1 = Inr (sv2, w')" "ok = False" "fails' = fails @ failed addrs rs" "sv' = sv2"
      using assms b by (auto simp: server_bind_def bind_loop_eq rbind_eq_Inr)
    obtain sv3 where d: "destroy_all env (m_socks ?v) ?v w1 = Inr (sv3, w')" "sv' = sv3\<lparr>m_socks := []\<rparr>"
      using c by (auto simp: clear_socks_def rbind_eq_Inr)
    show ?thesis
      using b len True c(2,3) d(2) destroy_all_frame [OF d(1)] v failed_none [OF len] by (auto simp: Ball_def)
  next
    case False
    then have all: "rs = map Some (bound rs)" using bound_all by blast
    have "sv' = ?v" "w' = w1" "ok" "fails' = fails @ failed addrs rs"
      using assms b False by (simp_all add: server_bind_def bind_loop_eq)
    moreover have "map (\<lambda>i. Some (sock_heap ?v i)) ?new = rs"
      using arg_cong [OF v(5), of "map Some"] all by (simp add: comp_def)
    moreover have "isValid (sock_heap ?v i)" if "i \<in> set ?new" for i
    proof (rule bind_each_valid [OF b])
      show "Some (sock_heap ?v i) \<in> set rs"
        using image_eqI [OF refl that, of "\<lambda>i. Some (sock_heap ?v i)"] calculation(5) by (metis set_map)
    qed
    ultimately show ?thesis
      using b len False v failed_none [OF len] by (intro exI [of _ rs] exI [of _ w1]) auto
  qed
qed

section \<open>Starting\<close>

lemma foldl_start:
  fixes sv defines "sv' is \<equiv> foldl (\<lambda>v i. (on_queue (m_listener v) (Start_listen i) v)\<lparr>listening := i # listening v\<rparr>) sv is"
  shows "m_listener (sv' is) = m_listener sv \<and> m_running (sv' is) = m_running sv \<and> m_socks (sv' is) = m_socks sv \<and>
    sock_heap (sv' is) = sock_heap sv \<and> set (listening (sv' is)) = set is \<union> set (listening sv) \<and>
    m_fibers (queues (sv' is) q) = m_fibers (queues sv q) @
      (if q = m_listener sv then map (\<lambda>i. FiberTask None (Some (Start_listen i)) (-1)) is else [])"
  unfolding sv'_def
  by (induction "is" rule: rev_induct) (auto simp: on_queue_def FiberTask_def)

text \<open>A server that is not running schedules one listening task for each of its sockets, in their
  order, on the queue of its listener and nowhere else, and then flows off the end of a function that
  should return a value; one that is running does nothing and returns true.\<close>

theorem start_outcome:
  assumes "\<not> m_running sv" and "server_start sv = (r, sv')"
  shows "r = None \<and> m_running sv' \<and> m_socks sv' = m_socks sv \<and> server_start sv' = (Some True, sv') \<and>
    m_fibers (queues sv' q) = m_fibers (queues sv q) @
      (if q = m_listener sv then map (\<lambda>i. FiberTask None (Some (Start_listen i)) (-1)) (m_socks sv) else [])"
  using assms foldl_start [of "sv\<lparr>m_running := True\<rparr>" "m_socks sv" q]
  by (auto simp: server_start_def)

section \<open>Listening\<close>

text \<open>Nothing in making a connected socket touches the descriptor contexts.\<close>

lemma plain_fdm: "fdm (snd (plain rs s)) = fdm s"
  by (auto simp: plain_def split: list.split)

lemma put_hs_fdm: "put_hs x w = (n, w') \<Longrightarrow> hs w' = snd x"
  by (auto simp: put_hs_def split: prod.splits io_result.splits)

lemma ask_hs: "ask env c w = (r, w') \<Longrightarrow> hs w' = hs w"
  by (auto simp: ask_eq)

lemma libc_fdm: "libc env c w = (r, w') \<Longrightarrow> fdm (hs w') = fdm (hs w)"
  by (auto simp: libc_def plain_fdm dest!: put_hs_fdm ask_hs split: prod.splits)

lemma setOption_fdm:
  assumes "setOption env l opt v s w = Inr (b, w')" and "l \<noteq> SOL_SOCKET \<or> opt \<noteq> SO_RCVTIMEO \<and> opt \<noteq> SO_SNDTIMEO"
  shows "fdm (hs w') = fdm (hs w)"
proof -
  obtain r w1 where r: "ask env (Sys_setsockopt (m_sock s) l opt v) w = (r, w1)" by fastforce
  have "setsockopt_hook (m_sock s) l opt v [answer_of r] (hs w1) = Inr (plain [answer_of r] (hs w1))"
    using assms(2) by (auto simp: setsockopt_hook_def)
  then show ?thesis
    using assms(1) r ask_hs [OF r] plain_fdm
    by (cases "put_hs (plain [answer_of r] (hs w1)) w1") (auto simp: setOption_def dest!: put_hs_fdm)
qed

lemma initSock_fdm:
  assumes "initSock env s w = Inr w'"
  shows "fdm (hs w') = fdm (hs w)"
proof -
  obtain b w1 where o: "setOption env SOL_SOCKET SO_REUSEADDR (1, 0) s w = Inr (b, w1)"
    using assms by (auto simp: initSock_def rbind_eq_Inr)
  have one: "fdm (hs w1) = fdm (hs w)"
    by (rule setOption_fdm [OF o]) (simp add: SO_REUSEADDR_def SO_RCVTIMEO_def SO_SNDTIMEO_def)
  show ?thesis
  proof (cases "m_type s = SOCK_STREAM")
    case True
    then obtain b' where o': "setOption env IPPROTO_TCP TCP_NODELAY (1, 0) s w1 = Inr (b', w')"
      using assms o by (auto simp: initSock_def rbind_eq_Inr)
    show ?thesis
      using setOption_fdm [OF o'] one by (simp add: IPPROTO_TCP_def SOL_SOCKET_def)
  qed (use assms o one in \<open>simp add: initSock_def\<close>)
qed

lemma query_addr_fdm: "query_addr env c fam w = (a, w') \<Longrightarrow> fdm (hs w') = fdm (hs w)"
  by (auto simp: query_addr_def Let_def dest!: libc_fdm split: prod.splits if_splits)

lemma getLocalAddress_fdm: "getLocalAddress env s w = (a, s', w') \<Longrightarrow> fdm (hs w') = fdm (hs w)"
  by (auto simp: getLocalAddress_def dest!: query_addr_fdm split: prod.splits option.splits)

lemma getRemoteAddress_fdm: "getRemoteAddress env s w = (a, s', w') \<Longrightarrow> fdm (hs w') = fdm (hs w)"
  by (auto simp: getRemoteAddress_def dest!: query_addr_fdm split: prod.splits option.splits)

lemma Socket_init_ctx:
  assumes "Socket_init env fd s w = Inr (True, s', w')"
  shows "\<exists>p. find_ctx fd (hs w') = Inr (Some p)"
  using assms
proof (cases rule: Socket_init_cases)
  case (2 w1 a s2 w2 a')
  have "fdm (hs w') = fdm (hs w)"
    using initSock_fdm [OF 2(3)] getLocalAddress_fdm [OF 2(4)] getRemoteAddress_fdm [OF 2(5)] by simp
  then show ?thesis using 2(6) by (simp add: find_ctx_def)
qed simp

lemma Socket_accept_ctx:
  assumes "Socket_accept env s w = Inr (Some c, w')"
  shows "\<exists>p. find_ctx (m_sock c) (hs w') = Inr (Some p)"
  using assms
proof (cases rule: Socket_accept_cases)
  case (2 fd w3 s1)
  then show ?thesis using Socket_init_ctx [OF 2(4)] Socket_init_frame [OF 2(4)] by simp
qed simp

lemma setRecvTimeout_get:
  fixes v :: u64
  assumes "setRecvTimeout (uint v) c w = Inr w'" and "find_ctx (m_sock c) (hs w) = Inr (Some p)"
  shows "getRecvTimeout c w' = Inr (sint v)"
proof -
  have w': "w' = w\<lparr>hs := upd_ctx p (setTimeout SO_RCVTIMEO v) (hs w)\<rparr>"
    using assms by (simp add: setRecvTimeout_def set_sock_timeout_def)
  have "find_ctx fd (upd_ctx p f h) = find_ctx fd h" for fd f h
    by (simp add: find_ctx_def find_fd_def fd_get_def get_check_def upd_ctx_def rbind_def get_create_def
        split: sum.split option.split)
  then show ?thesis
    using assms(2) by (simp add: w' getRecvTimeout_def get_sock_timeout_def upd_ctx_def the_ctx_def getTimeout_setTimeout)
qed

text \<open>A turn of a listening fiber whose \<^verbatim>\<open>accept\<close> fails changes nothing in the server. Otherwise
  the connection, with the server's receive timeout, becomes a new socket of the heap, and one task
  that handles it is added to the queue of the worker, and to no other.\<close>

theorem listen_turn_outcome:
  assumes "listen_turn env i sv w = Inr (sv', w')"
  shows "\<exists>r w1. Socket_accept env (sock_heap sv i) w = Inr (r, w1) \<and> (case r of
      None \<Rightarrow> sv' = sv \<and> w' = w1
    | Some c \<Rightarrow> m_Connected c \<and> isValid c \<and> kind c = kind (sock_heap sv i) \<and>
        getRecvTimeout c w' = Inr (sint (m_recvTimeout sv)) \<and>
        sock_heap sv' = (sock_heap sv)(next_sock sv := c) \<and> next_sock sv' = Suc (next_sock sv) \<and>
        m_socks sv' = m_socks sv \<and> m_running sv' = m_running sv \<and>
        m_fibers (queues sv' q) = m_fibers (queues sv q) @
          (if q = m_worker sv then [FiberTask None (Some (Handle_client (next_sock sv))) (-1)] else []))"
proof -
  obtain r w1 where a: "Socket_accept env (sock_heap sv i) w = Inr (r, w1)"
    using assms by (auto simp: listen_turn_def rbind_eq_Inr)
  show ?thesis
  proof (cases r)
    case None
    then show ?thesis using assms a by (simp add: listen_turn_def)
  next
    case (Some c)
    obtain w2 where t: "setRecvTimeout (uint (m_recvTimeout sv)) c w1 = Inr w2"
      using assms a Some by (auto simp: listen_turn_def rbind_eq_Inr)
    obtain p where "find_ctx (m_sock c) (hs w1) = Inr (Some p)"
      using Socket_accept_ctx a Some by blast
    from setRecvTimeout_get [OF t this] show ?thesis
      using assms a Some t accept_outcome [OF a]
      by (auto simp: listen_turn_def new_sock_def on_queue_def FiberTask_def)
  qed
qed

lemma listen_turn_running: "listen_turn env i sv w = Inr (sv', w') \<Longrightarrow> m_running sv' = m_running sv"
  by (auto simp: listen_turn_def rbind_eq_Inr new_sock_def on_queue_def split: option.splits)

text \<open>A listening fiber ends exactly when it finds the server not running at the beginning of a turn:
  failures of \<^verbatim>\<open>accept\<close>, a closed socket and the number of turns make no difference.\<close>

lemma startListen_ends:
  assumes "startListen env i gs sv w = Inr (ended, sv', w')"
  shows "ended = (\<not> m_running sv') \<and>
    ((\<forall>g \<in> set gs. \<forall>r. m_running (fst (g r)) = m_running (fst r)) \<longrightarrow> ended = (\<not> m_running sv))"
  using assms
proof (induction gs arbitrary: sv w)
  case Nil
  then show ?case by (cases "m_running sv") (auto simp: startListen.simps)
next
  case (Cons g gs)
  show ?case
  proof (cases "m_running sv")
    case True
    then obtain sv1 w1 where t: "listen_turn env i sv w = Inr (sv1, w1)"
      using Cons.prems by (auto simp: startListen.simps [of env i "_ # _"] rbind_eq_Inr)
    obtain sv2 w2 where g: "g (sv1, w1) = (sv2, w2)" by fastforce
    have "startListen env i gs sv2 w2 = Inr (ended, sv', w')"
      using Cons.prems True t g by (simp add: startListen.simps [of env i "_ # _"])
    moreover have "m_running sv2 = m_running sv" if "\<forall>r. m_running (fst (g r)) = m_running (fst r)"
      using that [rule_format, of "(sv1, w1)"] g listen_turn_running [OF t] by simp
    ultimately show ?thesis using Cons.IH by auto
  qed (use Cons.prems in \<open>simp add: startListen.simps\<close>)
qed

lemma cancel_and_close_frame:
  assumes "cancel_and_close env is sv w = Inr (sv', w')"
  shows "m_socks sv' = m_socks sv \<and> listening sv' = listening sv \<and> queues sv' = queues sv \<and>
    m_running sv' = m_running sv \<and>
    (\<forall>i. sock_heap sv' i = sock_heap sv i \<or> m_sock (sock_heap sv' i) = -1) \<and>
    (\<forall>i \<in> set is. m_sock (sock_heap sv' i) = -1)"
  using assms
proof (induction "is" arbitrary: sv w)
  case (Cons i "is")
  obtain b w1 where x: "Socket_cancelAll env (sock_heap sv i) w = Inr (b, w1)"
    using Cons.prems by (auto simp: rbind_eq_Inr)
  then obtain b' s w2 where c: "Socket_close env (sock_heap sv i) w1 = Inr (b', s, w2)"
    and d: "cancel_and_close env is (sv\<lparr>sock_heap := (sock_heap sv)(i := s)\<rparr>) w2 = Inr (sv', w')"
    using Cons.prems by (auto simp: rbind_eq_Inr)
  have "m_sock s = -1" using Socket_close_frame [OF c] by simp
  with Cons.IH [OF d] show ?case by (auto split: if_splits)
qed simp

lemma close_all_frame:
  assumes "close_all env sv w = Inr (sv', w')"
  shows "m_socks sv' = [] \<and> m_running sv' = m_running sv \<and> (\<forall>i \<in> set (m_socks sv). m_sock (sock_heap sv' i) = -1)"
proof -
  obtain sv1 w1 where c: "cancel_and_close env (m_socks sv) sv w = Inr (sv1, w1)" "clear_socks env sv1 w1 = Inr (sv', w')"
    using assms by (auto simp: close_all_def rbind_eq_Inr)
  then obtain sv2 where d: "destroy_all env (m_socks sv1) sv1 w1 = Inr (sv2, w')" "sv' = sv2\<lparr>m_socks := []\<rparr>"
    by (auto simp: clear_socks_def rbind_eq_Inr)
  have "m_sock (sock_heap sv2 i) = -1" if "i \<in> set (m_socks sv)" for i
    using cancel_and_close_frame [OF c(1)] destroy_all_frame [OF d(1)] that by (auto simp: isValid_def)
  then show ?thesis
    using cancel_and_close_frame [OF c(1)] destroy_all_frame [OF d(1)] d(2) by simp
qed

text \<open>Accepting on a socket without a descriptor.\<close>

lemma listen_turn_closed:
  assumes "m_sock (sock_heap sv i) = -1" and "rp_n (fst (sys env (Sys_accept (-1)) (world w))) = -1"
  shows "\<exists>w'. listen_turn env i sv w = Inr (sv, w')"
proof -
  obtain r w1 where r: "ask env (Sys_accept (-1)) w = (r, w1)" by fastforce
  then have n: "rp_n r = -1" using assms(2) by (simp add: ask_eq)
  then have "after_create c (Returned (rp_n r), h) = Inr (Returned (-1), h)" for c h
    by (simp add: after_create_def)
  then show ?thesis
    using assms(1) r n
    by (simp add: listen_turn_def Socket_accept_def put_hs_def split: prod.splits option.splits io_result.splits)
qed

lemma startListen_spins:
  assumes "m_running sv" and "m_sock (sock_heap sv i) = -1" and "\<And>x. rp_n (fst (sys env (Sys_accept (-1)) x)) = -1"
  shows "\<exists>w'. startListen env i (replicate n (\<lambda>r. r)) sv w = Inr (False, sv, w')"
proof (induction n arbitrary: w)
  case 0
  then show ?case using assms(1) by (simp add: startListen.simps)
next
  case (Suc n)
  obtain w1 where "listen_turn env i sv w = Inr (sv, w1)"
    using listen_turn_closed [OF assms(2)] assms(3) by blast
  then show ?case using Suc.IH [of w1] assms(1) by (simp add: startListen.simps [of env i "_ # _"])
qed

text \<open>C26. A server stopped and started again before its listener has run the task of \<^verbatim>\<open>stop\<close>: the
  listener finds that task before the new listening tasks, closes all sockets, and every listening
  fiber, old or new, then turns for ever on a socket without a descriptor.\<close>

theorem restart_spins:
  assumes "i \<in> set (m_socks sv)" and "sv1 = snd (server_start (server_stop sv))"
    and "close_all env sv1 w = Inr (sv2, w2)" and "\<And>x. rp_n (fst (sys env (Sys_accept (-1)) x)) = -1"
  shows "m_fibers (queues sv1 (m_listener sv)) = m_fibers (queues sv (m_listener sv)) @
      FiberTask None (Some Close_all) (-1) # map (\<lambda>i. FiberTask None (Some (Start_listen i)) (-1)) (m_socks sv) \<and>
    m_running sv2 \<and> m_socks sv2 = [] \<and>
    (\<exists>w3. startListen env i (replicate n (\<lambda>r. r)) sv2 w2 = Inr (False, sv2, w3))"
proof -
  let ?st = "server_stop sv"
  have st: "\<not> m_running ?st" "m_socks ?st = m_socks sv" "m_listener ?st = m_listener sv"
    "m_fibers (queues ?st (m_listener sv)) = m_fibers (queues sv (m_listener sv)) @ [FiberTask None (Some Close_all) (-1)]"
    by (simp_all add: server_stop_def on_queue_def FiberTask_def)
  have sv1: "sv1 = foldl (\<lambda>v i. (on_queue (m_listener v) (Start_listen i) v)\<lparr>listening := i # listening v\<rparr>)
      (?st\<lparr>m_running := True\<rparr>) (m_socks sv)"
    using assms(2) st by (simp add: server_start_def)
  have "m_running sv1 \<and> m_socks sv1 = m_socks sv \<and> m_fibers (queues sv1 (m_listener sv)) =
      m_fibers (queues sv (m_listener sv)) @ FiberTask None (Some Close_all) (-1) #
        map (\<lambda>i. FiberTask None (Some (Start_listen i)) (-1)) (m_socks sv)"
    using foldl_start [of "?st\<lparr>m_running := True\<rparr>" "m_socks sv" "m_listener sv"] st unfolding sv1 by simp
  moreover from this have "m_running sv2" "m_sock (sock_heap sv2 i) = -1" "m_socks sv2 = []"
    using close_all_frame [OF assms(3)] assms(1) by auto
  ultimately show ?thesis
    using startListen_spins [OF _ _ assms(4), of sv2 i n w2] by blast
qed

section \<open>Examples\<close>

text \<open>A server with one listening socket, whose two pollers have empty queues.\<close>

definition a_server :: server where
  "a_server = (TcpServer 1 0 (\<lambda>_. case Scheduler 1 False 100 0 Close_all of Inr q \<Rightarrow> q))
     \<lparr>m_socks := [0], next_sock := 1, sock_heap := (\<lambda>_. CreateTCPSocket\<lparr>m_sock := 5\<rparr>)\<rparr>"

lemma a_server_facts [simp]:
  "m_socks a_server = [0]" "sock_heap a_server i = CreateTCPSocket\<lparr>m_sock := 5\<rparr>" "\<not> m_running a_server"
  "m_listener a_server = 0" "m_worker a_server = 1" "next_sock a_server = 1" "listening a_server = []" "m_fibers (queues a_server q) = []"
  by (simp_all add: a_server_def TcpServer_def Scheduler_def)

lemma trace_listens:
  "\<exists>s w. bind_one trace_env port80 trace_net = Inr (Some s, w)"
  by (simp add: bind_one_def Socket_listen_def SOMAXCONN_def CreateTCP_def Socket_bind_def make_valid_def newSock_def
     AF_INET_def Socket_new_def isValid_def ask_def trace_net_def trace_env_def trace_sys_def socket_hook_def unhooked_def
     put_hs_def plain_def answer_of_def libc_def getLocalAddress_def query_addr_def Let_def
     split: option.splits prod.splits)

lemma server_bind_outcome_witness:
  "\<exists>sv w i. server_bind trace_env [port80] [] a_server trace_net = Inr (True, [], sv, w) \<and>
     m_socks sv = [0, i] \<and> isValid (sock_heap sv i)"
proof -
  obtain s w where "bind_one trace_env port80 trace_net = Inr (Some s, w)"
    using trace_listens by blast
  then have e: "bind_each trace_env [port80] trace_net = Inr ([Some s], w)" by simp
  then obtain sv' w' where b: "server_bind trace_env [port80] [] a_server trace_net = Inr (True, [], sv', w')"
    by (simp add: server_bind_def bind_loop_eq)
  from server_bind_outcome [OF b] obtain new where "m_socks sv' = [0] @ new"
    "map (\<lambda>i. Some (sock_heap sv' i)) new = [Some s]" "\<forall>i \<in> set new. isValid (sock_heap sv' i)"
    using e by auto
  then show ?thesis using b by auto
qed

lemma start_outcome_witness:
  "\<exists>sv. server_start a_server = (None, sv) \<and> m_running sv \<and>
     m_fibers (queues sv 0) = [FiberTask None (Some (Start_listen 0)) (-1)] \<and> m_fibers (queues sv 1) = []"
proof -
  obtain r sv where s: "server_start a_server = (r, sv)" by fastforce
  show ?thesis
    using start_outcome [OF a_server_facts(3) s, of 0] start_outcome [OF a_server_facts(3) s, of 1] s by simp
qed

lemma listen_turn_outcome_witness:
  "\<exists>sv w. listen_turn trace_env 0 a_server trace_net = Inr (sv, w) \<and>
     m_fibers (queues sv 1) = [FiberTask None (Some (Handle_client 1)) (-1)]"
proof -
  obtain c w where a: "Socket_accept trace_env (sock_heap a_server 0) trace_net = Inr (Some c, w)"
    using trace_accepts by auto
  obtain p where p: "find_ctx (m_sock c) (hs w) = Inr (Some p)" using Socket_accept_ctx [OF a] by blast
  then obtain sv w' where t: "listen_turn trace_env 0 a_server trace_net = Inr (sv, w')"
    using a by (simp add: listen_turn_def setRecvTimeout_def set_sock_timeout_def Let_def case_prod_unfold)
  show ?thesis
    using listen_turn_outcome [OF t, of 1] a t by auto
qed

text \<open>The system refuses to accept on -1.\<close>

definition strict_env :: "sys_call list env" where
  "strict_env = trace_env\<lparr>sys := (\<lambda>c w. if c = Sys_accept (-1)
     then (\<lparr>rp_n = -1, rp_errno = EBADF, rp_data = [], rp_addr = [], rp_len = 0\<rparr>, w @ [c]) else trace_sys c w)\<rparr>"

lemma restart_spins_witness:
  "\<exists>sv w w'. close_all strict_env (snd (server_start (server_stop a_server))) (trace_net\<lparr>hs := unhooked\<lparr>ep := Some a_hook_poller\<rparr>\<rparr>) =
       Inr (sv, w) \<and> startListen strict_env 0 (replicate 1000 (\<lambda>r. r)) sv w = Inr (False, sv, w')"
proof -
  let ?w = "trace_net\<lparr>hs := unhooked\<lparr>ep := Some a_hook_poller\<rparr>\<rparr>"
  let ?sv1 = "snd (server_start (server_stop a_server))"
  have l: "m_socks ?sv1 = [0]" "listening ?sv1 = [0]" "sock_heap ?sv1 0 = CreateTCPSocket\<lparr>m_sock := 5\<rparr>"
    by (simp_all add: server_start_def server_stop_def on_queue_def)
  have "cancelAll x 5 a_hook_poller = Inr (False, unlock_twice a_hook_poller)" for x
    using a_hook_facts(11) [of 5] by (simp add: cancelAll_def a_hook_facts(6))
  then obtain sv w where "cancel_and_close strict_env [0] ?sv1 ?w = Inr (sv, w)"
    by (simp add: Socket_cancelAll_def on_this_poller_def trace_net_def strict_env_def trace_env_def l Socket_close_def
        ask_def trace_sys_def close_hook_def unhooked_def plain_def answer_of_def put_hs_def CreateTCPSocket_def
        Socket_new_def Let_def)
  moreover obtain sv' w' where "destroy_all strict_env [0] sv w = Inr (sv', w')"
    using cancel_and_close_frame [OF calculation] l by simp
  ultimately obtain sv2 w2 where c: "close_all strict_env ?sv1 ?w = Inr (sv2, w2)"
    using cancel_and_close_frame l by (fastforce simp: close_all_def clear_socks_def)
  have "rp_n (fst (sys strict_env (Sys_accept (-1)) x)) = -1" for x by (simp add: strict_env_def)
  from restart_spins [OF _ refl c this, of 0 1000] show ?thesis using c by auto
qed

end
