(* ===== verification/Lexical_Cast.thy ===== *)
theory Lexical_Cast
  imports Text "HOL-Library.List_Lexorder" "HOL-Library.Char_ord"
begin

text \<open>
  The conversions of \<^verbatim>\<open>src/src/config/config.h\<close> between configuration values and YAML text. The YAML
  library is the record \<open>yaml_lib\<close> of what the code uses of it, over any type of nodes; the
  conversions of the element type are arguments. A set is a set of values and a map a partial
  function, which is what their comparison sees; \<^verbatim>\<open>std::set\<close> and \<^verbatim>\<open>std::map\<close> are visited in the order
  of their keys, the unordered ones in an order \<open>ord\<close> of their implementation.
\<close>

section \<open>The YAML library\<close>

datatype cast_error = Bad_cast | Yaml_failed

record 'n yaml_lib =
  y_load :: "string \<Rightarrow> cast_error + 'n"
  y_dump :: "'n \<Rightarrow> string"                      \<comment> \<open>\<^verbatim>\<open>operator<<\<close>\<close>
  y_size :: "'n \<Rightarrow> nat"
  y_at :: "nat \<Rightarrow> 'n \<Rightarrow> 'n"                       \<comment> \<open>\<^verbatim>\<open>node[i]\<close>\<close>
  y_entries :: "'n \<Rightarrow> (string \<times> 'n) list"        \<comment> \<open>\<^verbatim>\<open>it->first.Scalar()\<close> and \<^verbatim>\<open>it->second\<close>\<close>
  y_seq :: "'n list \<Rightarrow> 'n"                       \<comment> \<open>a sequence, by \<^verbatim>\<open>push_back\<close>\<close>
  y_map :: "(string \<times> 'n) list \<Rightarrow> 'n"            \<comment> \<open>a map, by assignments\<close>
  y_is_map :: "'n \<Rightarrow> bool"
  y_is_scalar :: "'n \<Rightarrow> bool"
  y_scalar :: "'n \<Rightarrow> string"

primrec rmap :: "('a \<Rightarrow> 'e + 'b) \<Rightarrow> 'a list \<Rightarrow> 'e + 'b list" where
  "rmap f [] = Inr []"
| "rmap f (x # xs) = rbind (f x) (\<lambda>y. rbind (rmap f xs) (\<lambda>ys. Inr (y # ys)))"

lemma rmap_Inr: "(\<And>x. x \<in> set xs \<Longrightarrow> f x = Inr (g x)) \<Longrightarrow> rmap f xs = Inr (map g xs)"
  by (induction xs) auto

lemma rmap_map: "rmap f (map g xs) = rmap (f \<circ> g) xs"
  by (induction xs) auto

lemma rmap_append: "rmap f (xs @ ys) = rbind (rmap f xs) (\<lambda>as. rbind (rmap f ys) (\<lambda>bs. Inr (as @ bs)))"
  by (induction xs) (auto simp: rbind_def split: sum.split)

section \<open>Sequences\<close>

text \<open>\<^verbatim>\<open>std::vector\<close> and \<^verbatim>\<open>std::list\<close>.\<close>

definition vector_from :: "'n yaml_lib \<Rightarrow> (string \<Rightarrow> cast_error + 'a) \<Rightarrow> string \<Rightarrow> cast_error + 'a list" where
  "vector_from y elem v =
     rbind (y_load y v) (\<lambda>node. rmap (\<lambda>i. elem (y_dump y (y_at y i node))) [0 ..< y_size y node])"

definition vector_to :: "'n yaml_lib \<Rightarrow> ('a \<Rightarrow> cast_error + string) \<Rightarrow> 'a list \<Rightarrow> cast_error + string" where
  "vector_to y elem v =
     rbind (rmap (\<lambda>i. rbind (elem i) (y_load y)) v) (\<lambda>ns. Inr (y_dump y (y_seq y ns)))"

definition list_from :: "'n yaml_lib \<Rightarrow> (string \<Rightarrow> cast_error + 'a) \<Rightarrow> string \<Rightarrow> cast_error + 'a list" where
  "list_from y elem v =
     rbind (y_load y v) (\<lambda>node. rmap (\<lambda>i. elem (y_dump y (y_at y i node))) [0 ..< y_size y node])"

definition list_to :: "'n yaml_lib \<Rightarrow> ('a \<Rightarrow> cast_error + string) \<Rightarrow> 'a list \<Rightarrow> cast_error + string" where
  "list_to y elem v =
     rbind (rmap (\<lambda>i. rbind (elem i) (y_load y)) v) (\<lambda>ns. Inr (y_dump y (y_seq y ns)))"

section \<open>Sets\<close>

definition set_from :: "'n yaml_lib \<Rightarrow> (string \<Rightarrow> cast_error + 'a) \<Rightarrow> string \<Rightarrow> cast_error + 'a set" where
  "set_from y elem v =
     rbind (y_load y v) (\<lambda>node. rbind (rmap (\<lambda>i. elem (y_dump y (y_at y i node))) [0 ..< y_size y node])
       (\<lambda>xs. Inr (foldl (\<lambda>s x. insert x s) {} xs)))"

definition set_to :: "'n yaml_lib \<Rightarrow> ('a::linorder \<Rightarrow> cast_error + string) \<Rightarrow> 'a set \<Rightarrow> cast_error + string" where
  "set_to y elem v =
     rbind (rmap (\<lambda>i. rbind (elem i) (y_load y)) (sorted_list_of_set v)) (\<lambda>ns. Inr (y_dump y (y_seq y ns)))"

definition unordered_set_from :: "'n yaml_lib \<Rightarrow> (string \<Rightarrow> cast_error + 'a) \<Rightarrow> string \<Rightarrow> cast_error + 'a set" where
  "unordered_set_from = set_from"

definition unordered_set_to ::
  "('a set \<Rightarrow> 'a list) \<Rightarrow> 'n yaml_lib \<Rightarrow> ('a \<Rightarrow> cast_error + string) \<Rightarrow> 'a set \<Rightarrow> cast_error + string" where
  "unordered_set_to ord y elem v =
     rbind (rmap (\<lambda>i. rbind (elem i) (y_load y)) (ord v)) (\<lambda>ns. Inr (y_dump y (y_seq y ns)))"

section \<open>Maps\<close>

text \<open>\<^verbatim>\<open>insert\<close> keeps the first value of a key.\<close>

definition insert_new :: "('k \<rightharpoonup> 'a) \<Rightarrow> 'k \<times> 'a \<Rightarrow> ('k \<rightharpoonup> 'a)" where
  "insert_new m e = (if m (fst e) = None then m(fst e \<mapsto> snd e) else m)"

definition map_from :: "'n yaml_lib \<Rightarrow> (string \<Rightarrow> cast_error + 'a) \<Rightarrow> string \<Rightarrow> cast_error + (string \<rightharpoonup> 'a)" where
  "map_from y elem v =
     rbind (y_load y v) (\<lambda>node.
     rbind (rmap (\<lambda>(k, n). rbind (elem (y_dump y n)) (\<lambda>x. Inr (k, x))) (y_entries y node)) (\<lambda>es.
       Inr (foldl insert_new Map.empty es)))"

definition map_to :: "'n yaml_lib \<Rightarrow> ('a \<Rightarrow> cast_error + string) \<Rightarrow> (string \<rightharpoonup> 'a) \<Rightarrow> cast_error + string" where
  "map_to y elem v =
     rbind (rmap (\<lambda>k. rbind (rbind (elem (the (v k))) (y_load y)) (\<lambda>n. Inr (k, n))) (sorted_list_of_set (dom v))) (\<lambda>es.
       Inr (y_dump y (y_map y es)))"

definition unordered_map_from :: "'n yaml_lib \<Rightarrow> (string \<Rightarrow> cast_error + 'a) \<Rightarrow> string \<Rightarrow> cast_error + (string \<rightharpoonup> 'a)" where
  "unordered_map_from = map_from"

definition unordered_map_to ::
  "(string set \<Rightarrow> string list) \<Rightarrow> 'n yaml_lib \<Rightarrow> ('a \<Rightarrow> cast_error + string) \<Rightarrow> (string \<rightharpoonup> 'a) \<Rightarrow> cast_error + string" where
  "unordered_map_to ord y elem v =
     rbind (rmap (\<lambda>k. rbind (rbind (elem (the (v k))) (y_load y)) (\<lambda>n. Inr (k, n))) (ord (dom v))) (\<lambda>es.
       Inr (y_dump y (y_map y es)))"

section \<open>Round trips\<close>

text \<open>The node that is made of an element.\<close>

definition node_of :: "'n yaml_lib \<Rightarrow> ('a \<Rightarrow> cast_error + string) \<Rightarrow> 'a \<Rightarrow> 'n" where
  "node_of y to_text x = projr (rbind (to_text x) (y_load y))"

text \<open>
  A value survives being written, loaded, dumped and read back. This is what the conversion of a
  container needs of its elements, and what it gives for the container.
\<close>

definition castable ::
  "'n yaml_lib \<Rightarrow> (string \<Rightarrow> cast_error + 'a) \<Rightarrow> ('a \<Rightarrow> cast_error + string) \<Rightarrow> 'a \<Rightarrow> bool" where
  "castable y of_text to_text x \<longleftrightarrow>
     (case rbind (to_text x) (y_load y) of Inl e \<Rightarrow> False | Inr n \<Rightarrow> of_text (y_dump y n) = Inr x)"

lemma castableI: "t x = Inr s \<Longrightarrow> y_load y s = Inr n \<Longrightarrow> f (y_dump y n) = Inr x \<Longrightarrow> castable y f t x"
  by (simp add: castable_def)

lemma castable_node:
  assumes "castable y f t x"
  shows "rbind (t x) (y_load y) = Inr (node_of y t x)" and "f (y_dump y (node_of y t x)) = Inr x"
  using assms by (auto simp: castable_def node_of_def split: sum.splits)

text \<open>What the library is relied on for: a dumped sequence or map loads as one with the same elements,
  which dumps in the same way.\<close>

definition loads_seq :: "'n yaml_lib \<Rightarrow> 'n list \<Rightarrow> bool" where
  "loads_seq y ns \<longleftrightarrow> (case y_load y (y_dump y (y_seq y ns)) of Inl e \<Rightarrow> False
     | Inr m \<Rightarrow> y_dump y m = y_dump y (y_seq y ns) \<and> y_size y m = length ns \<and>
         (\<forall>i < length ns. y_dump y (y_at y i m) = y_dump y (ns ! i)))"

definition loads_map :: "'n yaml_lib \<Rightarrow> (string \<times> 'n) list \<Rightarrow> bool" where
  "loads_map y es \<longleftrightarrow> (case y_load y (y_dump y (y_map y es)) of Inl e \<Rightarrow> False
     | Inr m \<Rightarrow> y_dump y m = y_dump y (y_map y es) \<and>
         map (\<lambda>(k, n). (k, y_dump y n)) (y_entries y m) = map (\<lambda>(k, n). (k, y_dump y n)) es)"

lemma elements_read:
  assumes "\<And>x. x \<in> set xs \<Longrightarrow> castable y f t x"
    and "\<forall>i < length xs. y_dump y (y_at y i m) = y_dump y (map (node_of y t) xs ! i)"
  shows "rmap (\<lambda>i. f (y_dump y (y_at y i m))) [0 ..< length xs] = Inr xs"
proof -
  have "f (y_dump y (y_at y i m)) = Inr (xs ! i)" if "i < length xs" for i
    using assms(2) that castable_node(2) [OF assms(1) [OF nth_mem [OF that]]] by simp
  then have "rmap (\<lambda>i. f (y_dump y (y_at y i m))) [0 ..< length xs] = Inr (map ((!) xs) [0 ..< length xs])"
    by (intro rmap_Inr) simp
  then show ?thesis by (simp add: map_nth)
qed

lemma seq_back:
  assumes "\<And>x. x \<in> set xs \<Longrightarrow> castable y f t x" and "loads_seq y (map (node_of y t) xs)"
  obtains m where "rmap (\<lambda>i. rbind (t i) (y_load y)) xs = Inr (map (node_of y t) xs)"
    "y_load y (y_dump y (y_seq y (map (node_of y t) xs))) = Inr m"
    "y_dump y m = y_dump y (y_seq y (map (node_of y t) xs))" "y_load y (y_dump y m) = Inr m"
    "rmap (\<lambda>i. f (y_dump y (y_at y i m))) [0 ..< y_size y m] = Inr xs"
proof -
  let ?ns = "map (node_of y t) xs"
  obtain m where m: "y_load y (y_dump y (y_seq y ?ns)) = Inr m" "y_dump y m = y_dump y (y_seq y ?ns)"
    "y_size y m = length xs" "\<forall>i < length xs. y_dump y (y_at y i m) = y_dump y (?ns ! i)"
    using assms(2) by (auto simp: loads_seq_def split: sum.splits)
  have "rmap (\<lambda>i. rbind (t i) (y_load y)) xs = Inr ?ns"
    using castable_node(1) [OF assms(1)] by (intro rmap_Inr)
  then show thesis
    using that m(1,2) elements_read [OF assms(1) m(4)] by (simp add: m(3))
qed

lemma foldl_insert: "foldl (\<lambda>s x. insert x s) s xs = s \<union> set xs"
  by (induction xs arbitrary: s) auto

text \<open>C27. Sequences and sets survive being written as YAML and read back when their elements do: vectors
  and lists with their order, sets in whatever order they are visited. The statement gives for the
  container what it takes for the elements, so it applies to nested containers.\<close>

theorem sequence_roundtrip:
  assumes "\<And>x. x \<in> set xs \<Longrightarrow> castable y f t x" and "loads_seq y (map (node_of y t) xs)"
  shows "castable y (vector_from y f) (vector_to y t) xs \<and> castable y (list_from y f) (list_to y t) xs \<and>
    (sorted_list_of_set (set xs) = xs \<longrightarrow> castable y (set_from y f) (set_to y t) (set xs)) \<and>
    (ord (set xs) = xs \<longrightarrow> castable y (unordered_set_from y f) (unordered_set_to ord y t) (set xs))"
proof -
  from seq_back [OF assms] obtain m where m: "rmap (\<lambda>i. rbind (t i) (y_load y)) xs = Inr (map (node_of y t) xs)"
    "y_load y (y_dump y (y_seq y (map (node_of y t) xs))) = Inr m"
    "y_dump y m = y_dump y (y_seq y (map (node_of y t) xs))" "y_load y (y_dump y m) = Inr m"
    "rmap (\<lambda>i. f (y_dump y (y_at y i m))) [0 ..< y_size y m] = Inr xs" by metis
  show ?thesis
    using m by (auto intro!: castableI [OF _ m(2)] simp: vector_from_def vector_to_def list_from_def list_to_def set_from_def
      set_to_def unordered_set_from_def unordered_set_to_def foldl_insert)
qed

lemma foldl_insert_new:
  "distinct (map fst es) \<Longrightarrow> (\<forall>k \<in> fst ` set es. m k = None) \<Longrightarrow> foldl insert_new m es = m ++ map_of es"
proof (induction es arbitrary: m)
  case (Cons e es)
  have "insert_new m e = m(fst e \<mapsto> snd e)"
    using Cons.prems by (simp add: insert_new_def)
  moreover have "foldl insert_new (m(fst e \<mapsto> snd e)) es = m(fst e \<mapsto> snd e) ++ map_of es"
    by (rule Cons.IH) (use Cons.prems in \<open>auto simp: image_iff\<close>)
  ultimately have "foldl insert_new m (e # es) = m(fst e \<mapsto> snd e) ++ map_of es" by simp
  also have "\<dots> = m ++ map_of (e # es)"
    using Cons.prems map_add_upd_left [of "fst e" "map_of es" m "snd e"] by (cases e) (simp add: dom_map_of_conv_image_fst)
  finally show ?case .
qed simp

text \<open>Maps survive being written as YAML and read back when their values do.\<close>

theorem map_roundtrip:
  assumes "\<And>k. k \<in> dom m \<Longrightarrow> castable y f t (the (m k))" and "distinct ks" and "set ks = dom m"
    and "loads_map y (map (\<lambda>k. (k, node_of y t (the (m k)))) ks)"
  shows "(sorted_list_of_set (dom m) = ks \<longrightarrow> castable y (map_from y f) (map_to y t) m) \<and>
    (ord (dom m) = ks \<longrightarrow> castable y (unordered_map_from y f) (unordered_map_to ord y t) m)"
proof -
  let ?es = "map (\<lambda>k. (k, node_of y t (the (m k)))) ks"
  obtain n where n: "y_load y (y_dump y (y_map y ?es)) = Inr n" "y_dump y n = y_dump y (y_map y ?es)"
    "map (\<lambda>(k, n). (k, y_dump y n)) (y_entries y n) = map (\<lambda>(k, n). (k, y_dump y n)) ?es"
    using assms(4) by (auto simp: loads_map_def split: sum.splits)
  have w: "rmap (\<lambda>k. rbind (rbind (t (the (m k))) (y_load y)) (\<lambda>n. Inr (k, n))) ks = Inr ?es"
    using castable_node(1) [OF assms(1)] assms(3) by (intro rmap_Inr) simp
  have reads: "rmap (\<lambda>(k, n). rbind (f (y_dump y n)) (\<lambda>x. Inr (k, x))) es =
      rmap (\<lambda>(k, s). rbind (f s) (\<lambda>x. Inr (k, x))) (map (\<lambda>(k, n). (k, y_dump y n)) es)" for es
    by (induction es) auto
  have "rmap ((\<lambda>(k, s). rbind (f s) (\<lambda>x. Inr (k, x))) \<circ> (\<lambda>k. (k, y_dump y (node_of y t (the (m k)))))) ks =
      Inr (map (\<lambda>k. (k, the (m k))) ks)"
    using castable_node(2) [OF assms(1)] assms(3) by (intro rmap_Inr) simp
  then have r: "rmap (\<lambda>(k, n). rbind (f (y_dump y n)) (\<lambda>x. Inr (k, x))) (y_entries y n) = Inr (map (\<lambda>k. (k, the (m k))) ks)"
    unfolding reads n(3) by (simp add: rmap_map comp_def)
  have "map_of (map (\<lambda>k. (k, the (m k))) ks) = m"
    using assms(3) by (auto simp: map_of_map_restrict fun_eq_iff restrict_map_def)
  then have same: "foldl insert_new Map.empty (map (\<lambda>k. (k, the (m k))) ks) = m"
    using foldl_insert_new [of "map (\<lambda>k. (k, the (m k))) ks" Map.empty] assms(2) by (simp add: comp_def)
  have "y_load y (y_dump y n) = Inr n" using n by simp
  then show ?thesis
    using n(1,2) w r same by (auto intro!: castableI [OF _ n(1)] simp: map_from_def map_to_def unordered_map_from_def unordered_map_to_def)
qed

section \<open>Examples\<close>

text \<open>As much of a YAML library as the examples need: texts are nodes, and one sequence and one map are known.\<close>

definition a_yaml :: "string list yaml_lib" where
  "a_yaml = \<lparr>y_load = \<lambda>t. Inr (if t = ''[a, b]'' then [''a'', ''b''] else [t]),
     y_dump = \<lambda>ns. if ns = [''a'', ''b''] then ''[a, b]'' else concat ns,
     y_size = length, y_at = \<lambda>i ns. [ns ! i], y_entries = \<lambda>ns. [(''k'', [''v''])], y_seq = concat,
     y_map = \<lambda>es. [''{k: v}''], y_is_map = \<lambda>ns. ns = [''{k: v}''], y_is_scalar = \<lambda>ns. length ns = 1, y_scalar = concat\<rparr>"

lemma sequence_roundtrip_witness:
  "castable a_yaml (vector_from a_yaml Inr) (vector_to a_yaml Inr) [''a'', ''b''] \<and>
   castable a_yaml (set_from a_yaml Inr) (set_to a_yaml Inr) {''a'', ''b''}"
proof -
  have "castable a_yaml Inr Inr x" if "x \<in> set [''a'', ''b'']" for x
    using that by (auto simp: castable_def a_yaml_def)
  moreover have "loads_seq a_yaml (map (node_of a_yaml Inr) [''a'', ''b''])"
    by (simp add: loads_seq_def node_of_def a_yaml_def All_less_Suc)
  ultimately show ?thesis
    using sequence_roundtrip [of "[''a'', ''b'']" a_yaml Inr Inr "\<lambda>_. []"] by simp
qed

lemma map_roundtrip_witness:
  "castable a_yaml (map_from a_yaml Inr) (map_to a_yaml Inr) [''k'' \<mapsto> ''v'']"
proof -
  have "castable a_yaml Inr Inr (the ([''k'' \<mapsto> ''v''] k))" if "k \<in> dom [''k'' \<mapsto> ''v'']" for k
    using that by (auto simp: castable_def a_yaml_def)
  moreover have "loads_map a_yaml (map (\<lambda>k. (k, node_of a_yaml Inr (the ([''k'' \<mapsto> ''v''] k)))) [''k''])"
    by (simp add: loads_map_def node_of_def a_yaml_def)
  ultimately show ?thesis
    using map_roundtrip [of "[''k'' \<mapsto> ''v'']" a_yaml Inr Inr "[''k'']" "\<lambda>_. []"] by simp
qed

end
