(* ===== verification/Config.thy ===== *)
theory Config
  imports Lexical_Cast
begin

text \<open>
  \<^verbatim>\<open>src/src/config/config.{h,cc}\<close>: configuration variables with their listeners, the registry of
  variables by name, and loading values from a YAML tree. Variables are shared: the registry maps a
  name to a number of the heap \<open>vars\<close>. The type parameter of \<^verbatim>\<open>ConfigVar<T>\<close> is a tag \<open>'t\<close>, the values
  of all types are \<open>'v\<close>, and \<open>conv\<close> has the conversions of each type (\<^verbatim>\<open>Lexical_Cast\<close>). A listener does
  anything to the rest of the program \<open>'w\<close>, and returns or throws; one that changes its own variable
  is not modelled.
\<close>

section \<open>Variables\<close>

type_synonym ('v, 'w) listener = "'v \<Rightarrow> 'v \<Rightarrow> 'w \<Rightarrow> bool \<times> 'w"

record ('t, 'v, 'w) config_var =
  cv_name :: string
  cv_description :: string
  cv_type :: 't
  cv_val :: 'v
  cv_cbs :: "(u64 \<times> ('v, 'w) listener) list"      \<comment> \<open>\<^verbatim>\<open>std::map\<close>, in the order of the keys\<close>

record ('t, 'v) conversions =
  from_str :: "'t \<Rightarrow> string \<Rightarrow> cast_error + 'v"
  to_str :: "'t \<Rightarrow> 'v \<Rightarrow> cast_error + string"

definition tolower :: "char \<Rightarrow> char" where
  "tolower c = (if of_char c \<in> {65 .. 90 :: nat} then char_of (of_char c + 32 :: nat) else c)"

definition ConfigVar :: "'t \<Rightarrow> string \<Rightarrow> 'v \<Rightarrow> string \<Rightarrow> ('t, 'v, 'w) config_var" where
  "ConfigVar type name default_value description =
     \<lparr>cv_name = map tolower name, cv_description = description, cv_type = type, cv_val = default_value, cv_cbs = []\<rparr>"

text \<open>The text of a value, or the empty text when the conversion throws.\<close>

definition cv_toString :: "('t, 'v) conversions \<Rightarrow> ('t, 'v, 'w) config_var \<Rightarrow> string" where
  "cv_toString conv x = (case to_str conv (cv_type x) (cv_val x) of Inl e \<Rightarrow> '''' | Inr s \<Rightarrow> s)"

text \<open>The loop over the listeners: the flag is false when one has thrown.\<close>

primrec notify :: "('v, 'w) listener list \<Rightarrow> 'v \<Rightarrow> 'v \<Rightarrow> 'w \<Rightarrow> bool \<times> 'w" where
  "notify [] old new w = (True, w)"
| "notify (f # fs) old new w = (let (ok, w1) = f old new w in if ok then notify fs old new w1 else (False, w1))"

definition setValue :: "'v \<Rightarrow> ('t, 'v, 'w) config_var \<Rightarrow> 'w \<Rightarrow> bool \<times> ('t, 'v, 'w) config_var \<times> 'w" where
  "setValue v x w =
     (if v = cv_val x then (True, x, w)
      else let (ok, w1) = notify (map snd (cv_cbs x)) (cv_val x) v w
           in if ok then (True, x\<lparr>cv_val := v\<rparr>, w1) else (False, x, w1))"

text \<open>Every exception is caught, and the result is always false.\<close>

definition fromString ::
  "('t, 'v) conversions \<Rightarrow> string \<Rightarrow> ('t, 'v, 'w) config_var \<Rightarrow> 'w \<Rightarrow> bool \<times> ('t, 'v, 'w) config_var \<times> 'w" where
  "fromString conv val x w =
     (case from_str conv (cv_type x) val of
        Inl e \<Rightarrow> (False, x, w)
      | Inr v \<Rightarrow> let (_, x1, w1) = setValue v x w in (False, x1, w1))"

text \<open>\<^verbatim>\<open>m_cbs[key] = cb\<close>.\<close>

fun put_cb :: "u64 \<Rightarrow> 'l \<Rightarrow> (u64 \<times> 'l) list \<Rightarrow> (u64 \<times> 'l) list" where
  "put_cb k f [] = [(k, f)]"
| "put_cb k f ((j, g) # cbs) =
     (if k < j then (k, f) # (j, g) # cbs else if k = j then (k, f) # cbs else (j, g) # put_cb k f cbs)"

text \<open>The counter is one per type.\<close>

definition addListener ::
  "('v, 'w) listener \<Rightarrow> u64 \<Rightarrow> ('t, 'v, 'w) config_var \<Rightarrow> u64 \<times> u64 \<times> ('t, 'v, 'w) config_var" where
  "addListener cb s_fun_id x =
     (let s1 = s_fun_id + 1 in (s1, s1, x\<lparr>cv_cbs := put_cb s1 cb (cv_cbs x)\<rparr>))"

definition delListener :: "u64 \<Rightarrow> ('t, 'v, 'w) config_var \<Rightarrow> ('t, 'v, 'w) config_var" where
  "delListener key x = x\<lparr>cv_cbs := filter (\<lambda>e. fst e \<noteq> key) (cv_cbs x)\<rparr>"

definition getListener :: "u64 \<Rightarrow> ('t, 'v, 'w) config_var \<Rightarrow> ('v, 'w) listener option" where
  "getListener key x = map_of (cv_cbs x) key"

definition clearListener :: "('t, 'v, 'w) config_var \<Rightarrow> ('t, 'v, 'w) config_var" where
  "clearListener x = x\<lparr>cv_cbs := []\<rparr>"

section \<open>The registry\<close>

record ('t, 'v, 'w) config =
  datas :: "string \<rightharpoonup> nat"
  vars :: "nat \<Rightarrow> ('t, 'v, 'w) config_var"
  next_var :: nat

definition name_chars :: string where
  "name_chars = ''abcdefghikjlmnopqrstuvwxyz._012345678''"

definition valid_name :: "string \<Rightarrow> bool" where
  "valid_name s \<longleftrightarrow> list_all (\<lambda>c. c \<in> set name_chars) s"

text \<open>\<open>Inl\<close> is the exception with the name; \<open>None\<close> a null pointer.\<close>

definition Config_Lookup ::
  "'t \<Rightarrow> string \<Rightarrow> 'v \<Rightarrow> string \<Rightarrow> ('t, 'v, 'w) config \<Rightarrow> string + nat option \<times> ('t, 'v, 'w) config" where
  "Config_Lookup type name default_value description c =
     (case datas c name of
        Some p \<Rightarrow> Inr (if cv_type (vars c p) = type then Some p else None, c)
      | None \<Rightarrow>
          if \<not> valid_name name then Inl name
          else let p = next_var c
               in Inr (Some p, c\<lparr>datas := (datas c)(name \<mapsto> p),
                    vars := (vars c)(p := ConfigVar type name default_value description), next_var := Suc p\<rparr>))"

definition Config_find :: "'t \<Rightarrow> string \<Rightarrow> ('t, 'v, 'w) config \<Rightarrow> nat option" where
  "Config_find type name c = (case datas c name of None \<Rightarrow> None
     | Some p \<Rightarrow> if cv_type (vars c p) = type then Some p else None)"

definition LookupBase :: "string \<Rightarrow> ('t, 'v, 'w) config \<Rightarrow> nat option" where
  "LookupBase name c = datas c name"

text \<open>\<open>names\<close> is the order in which the implementation visits its hash table.\<close>

definition Visit :: "string list \<Rightarrow> (('t, 'v, 'w) config_var \<Rightarrow> 'w \<Rightarrow> 'w) \<Rightarrow> ('t, 'v, 'w) config \<Rightarrow> 'w \<Rightarrow> 'w" where
  "Visit names cb c w = foldl (\<lambda>w n. cb (vars c (the (datas c n))) w) w names"

section \<open>Loading\<close>

definition member_name :: "string \<Rightarrow> string \<Rightarrow> string" where
  "member_name prefix k = (if prefix = '''' then k else prefix @ ''.'' @ k)"

primrec list_members ::
  "(string \<Rightarrow> 'n \<Rightarrow> (string \<times> 'n) list \<Rightarrow> (string \<times> 'n) list option) \<Rightarrow> string \<Rightarrow> (string \<times> 'n) list \<Rightarrow>
    (string \<times> 'n) list \<Rightarrow> (string \<times> 'n) list option" where
  "list_members into prefix [] out = Some out"
| "list_members into prefix (e # es) out =
     Option.bind (into (member_name prefix (fst e)) (snd e) out) (list_members into prefix es)"

text \<open>The first argument bounds the depth of the tree; \<open>None\<close> when it is deeper.\<close>

primrec ListAllMember ::
  "nat \<Rightarrow> 'n yaml_lib \<Rightarrow> string \<Rightarrow> 'n \<Rightarrow> (string \<times> 'n) list \<Rightarrow> (string \<times> 'n) list option" where
  "ListAllMember 0 y prefix node out = None"
| "ListAllMember (Suc n) y prefix node out =
     (if \<not> valid_name prefix then Some out
      else let out1 = out @ [(prefix, node)]
           in if y_is_map y node then list_members (ListAllMember n y) prefix (y_entries y node) out1
              else Some out1)"

definition load_member ::
  "('t, 'v) conversions \<Rightarrow> 'n yaml_lib \<Rightarrow> ('t, 'v, 'w) config \<times> 'w \<Rightarrow> string \<times> 'n \<Rightarrow> ('t, 'v, 'w) config \<times> 'w" where
  "load_member conv y s i =
     (let (c, w) = s; key = fst i
      in if key = '''' then (c, w)
         else case LookupBase (map tolower key) c of
                None \<Rightarrow> (c, w)
              | Some p \<Rightarrow>
                  let val = (if y_is_scalar y (snd i) then y_scalar y (snd i) else y_dump y (snd i));
                      (_, x, w1) = fromString conv val (vars c p) w
                  in (c\<lparr>vars := (vars c)(p := x)\<rparr>, w1))"

definition LoadFromYaml ::
  "nat \<Rightarrow> ('t, 'v) conversions \<Rightarrow> 'n yaml_lib \<Rightarrow> 'n \<Rightarrow> ('t, 'v, 'w) config \<times> 'w \<Rightarrow> (('t, 'v, 'w) config \<times> 'w) option" where
  "LoadFromYaml n conv y root s =
     map_option (foldl (load_member conv y) s) (ListAllMember n y '''' root [])"

end
