(* ===== verification/FSUtil.thy ===== *)
theory FSUtil
  imports Text
begin

text \<open>
  \<^verbatim>\<open>src/src/util/util.{h,cpp}\<close>: the functions on paths and files, the clock in milliseconds and the
  printing of call stacks. The file system is the record \<open>fs\<close> of what the system calls answer and
  do, over any state of the world; a directory is read as a whole, in the order \<^verbatim>\<open>readdir\<close> has. The
  two recursive functions take the depth to which they may descend; \<open>None\<close> is reached only when it is
  not enough.
\<close>

unbundle bit_operations_syntax

section \<open>The file system\<close>

definition S_IFDIR :: u32 where "S_IFDIR = 0x4000"
definition DT_DIR :: u8 where "DT_DIR = 4"
definition DT_REG :: u8 where "DT_REG = 8"

record 'w fs =
  lstat_mode :: "string \<Rightarrow> 'w \<Rightarrow> u32 option"                    \<comment> \<open>\<^verbatim>\<open>None\<close> when \<^verbatim>\<open>lstat\<close> fails\<close>
  lstat_mtime :: "string \<Rightarrow> 'w \<Rightarrow> u64"
  accessible :: "string \<Rightarrow> 'w \<Rightarrow> bool"                           \<comment> \<open>\<^verbatim>\<open>access(path, F_OK) == 0\<close>\<close>
  readdir_of :: "string \<Rightarrow> 'w \<Rightarrow> (string \<times> u8) list option"      \<comment> \<open>names with \<^verbatim>\<open>d_type\<close>\<close>
  do_unlink :: "string \<Rightarrow> 'w \<Rightarrow> bool \<times> 'w"                        \<comment> \<open>true for success\<close>
  do_rmdir :: "string \<Rightarrow> 'w \<Rightarrow> bool \<times> 'w"
  do_mkdir :: "string \<Rightarrow> 'w \<Rightarrow> bool \<times> 'w"
  do_rename :: "string \<Rightarrow> string \<Rightarrow> 'w \<Rightarrow> bool \<times> 'w"
  do_symlink :: "string \<Rightarrow> string \<Rightarrow> 'w \<Rightarrow> bool \<times> 'w"
  real_path :: "string \<Rightarrow> 'w \<Rightarrow> string option"
  first_line :: "string \<Rightarrow> 'w \<Rightarrow> string option"
  alive :: "int \<Rightarrow> 'w \<Rightarrow> bool"                                     \<comment> \<open>\<^verbatim>\<open>kill(pid, 0) == 0\<close>\<close>
  open_read :: "string \<Rightarrow> 'w \<Rightarrow> bool"
  open_write :: "string \<Rightarrow> 'w \<Rightarrow> bool \<times> 'w"

section \<open>Names\<close>

text \<open>\<^verbatim>\<open>rfind\<close> of one character.\<close>

definition rfind :: "char \<Rightarrow> string \<Rightarrow> nat option" where
  "rfind c s = (if c \<in> set s then Some (length s - Suc (length (takeWhile (\<lambda>d. d \<noteq> c) (rev s)))) else None)"

definition Dirname :: "string \<Rightarrow> string" where
  "Dirname filename =
     (if filename = '''' then ''.''
      else case rfind CHR ''/'' filename of
             Some 0 \<Rightarrow> ''/''
           | None \<Rightarrow> ''.''
           | Some pos \<Rightarrow> take pos filename)"

definition Basename :: "string \<Rightarrow> string" where
  "Basename filename =
     (if filename = '''' then filename
      else case rfind CHR ''/'' filename of
             None \<Rightarrow> filename
           | Some pos \<Rightarrow> drop (Suc pos) filename)"

section \<open>Listing\<close>

definition has_subfix :: "string \<Rightarrow> string \<Rightarrow> bool" where
  "has_subfix subfix name \<longleftrightarrow> subfix = '''' \<or>
     \<not> length name < length subfix \<and> drop (length name - length subfix) name = subfix"

primrec list_entries ::
  "(string list \<Rightarrow> string \<Rightarrow> string list option) \<Rightarrow> string \<Rightarrow> string \<Rightarrow> (string \<times> u8) list \<Rightarrow> string list \<Rightarrow> string list option" where
  "list_entries into path subfix [] files = Some files"
| "list_entries into path subfix (e # es) files =
     (let (name, ty) = e
      in if ty = DT_DIR then
           (if name = ''.'' \<or> name = ''..'' then list_entries into path subfix es files
            else Option.bind (into files (path @ ''/'' @ name)) (list_entries into path subfix es))
         else if ty = DT_REG then
           list_entries into path subfix es (if has_subfix subfix name then files @ [path @ ''/'' @ name] else files)
         else list_entries into path subfix es files)"

primrec ListAllFile :: "'w fs \<Rightarrow> 'w \<Rightarrow> string \<Rightarrow> nat \<Rightarrow> string list \<Rightarrow> string \<Rightarrow> string list option" where
  "ListAllFile fs w subfix 0 files path = None"
| "ListAllFile fs w subfix (Suc n) files path =
     (if \<not> accessible fs (cstr path) w then Some files
      else case readdir_of fs (cstr path) w of
             None \<Rightarrow> Some files
           | Some es \<Rightarrow> list_entries (ListAllFile fs w subfix n) path subfix es files)"

section \<open>Making directories\<close>

definition make_one :: "'w fs \<Rightarrow> string \<Rightarrow> 'w \<Rightarrow> bool \<times> 'w" where
  "make_one fs dirname w = (if accessible fs dirname w then (True, w) else do_mkdir fs dirname w)"

text \<open>The loop of \<^verbatim>\<open>Mkdir\<close>: the part of the path before \<^verbatim>\<open>ptr\<close>, and the part still to search.\<close>

primrec mkdir_loop :: "'w fs \<Rightarrow> string \<Rightarrow> string \<Rightarrow> 'w \<Rightarrow> bool \<times> 'w" where
  "mkdir_loop fs path [] w = (True, w)"
| "mkdir_loop fs path (c # cs) w =
     (if c = CHR ''/'' then
        let (ok, w1) = make_one fs path w
        in if ok then mkdir_loop fs (path @ [c]) cs w1 else (False, w1)
      else mkdir_loop fs (path @ [c]) cs w)"

text \<open>\<open>None\<close>: with an empty name, the search starts behind the terminating zero.\<close>

definition Mkdir :: "'w fs \<Rightarrow> string \<Rightarrow> 'w \<Rightarrow> (bool \<times> 'w) option" where
  "Mkdir fs dirname w =
     (if lstat_mode fs (cstr dirname) w \<noteq> None then Some (True, w)
      else case cstr dirname of
             [] \<Rightarrow> None
           | c # cs \<Rightarrow>
               let (ok, w1) = mkdir_loop fs [c] cs w
               in if \<not> ok then Some (False, w1) else Some (make_one fs (c # cs) w1))"

section \<open>Removing and moving\<close>

definition Unlink :: "'w fs \<Rightarrow> string \<Rightarrow> bool \<Rightarrow> 'w \<Rightarrow> bool \<times> 'w" where
  "Unlink fs filename exist w =
     (if \<not> exist \<and> lstat_mode fs (cstr filename) w = None then (True, w)
      else do_unlink fs (cstr filename) w)"

primrec rm_entries ::
  "(string \<Rightarrow> 'w \<Rightarrow> (bool \<times> 'w) option) \<Rightarrow> string \<Rightarrow> string list \<Rightarrow> bool \<Rightarrow> 'w \<Rightarrow> (bool \<times> 'w) option" where
  "rm_entries rm path [] ret w = Some (ret, w)"
| "rm_entries rm path (name # names) ret w =
     (if name = ''.'' \<or> name = ''..'' then rm_entries rm path names ret w
      else Option.bind (rm (path @ ''/'' @ name) w) (\<lambda>(r, w1). rm_entries rm path names r w1))"

primrec Rm :: "'w fs \<Rightarrow> nat \<Rightarrow> string \<Rightarrow> 'w \<Rightarrow> (bool \<times> 'w) option" where
  "Rm fs 0 path w = None"
| "Rm fs (Suc n) path w =
     (case lstat_mode fs (cstr path) w of
        None \<Rightarrow> Some (True, w)
      | Some mode \<Rightarrow>
          if mode AND S_IFDIR = 0 then Some (Unlink fs path False w)
          else case readdir_of fs (cstr path) w of
                 None \<Rightarrow> Some (False, w)
               | Some es \<Rightarrow>
                   Option.bind (rm_entries (Rm fs n) path (map fst es) True w) (\<lambda>(ret, w1).
                     let (ok, w2) = do_rmdir fs (cstr path) w1 in Some (if ok then ret else False, w2)))"

definition Mv :: "'w fs \<Rightarrow> nat \<Rightarrow> string \<Rightarrow> string \<Rightarrow> 'w \<Rightarrow> (bool \<times> 'w) option" where
  "Mv fs n from_name to w =
     Option.bind (Rm fs n to w) (\<lambda>(ok, w1).
       Some (if \<not> ok then (False, w1) else do_rename fs (cstr from_name) (cstr to) w1))"

definition Symlink :: "'w fs \<Rightarrow> nat \<Rightarrow> string \<Rightarrow> string \<Rightarrow> 'w \<Rightarrow> (bool \<times> 'w) option" where
  "Symlink fs n from_name to w =
     Option.bind (Rm fs n to w) (\<lambda>(ok, w1).
       Some (if \<not> ok then (False, w1) else do_symlink fs (cstr from_name) (cstr to) w1))"

text \<open>The second component is \<^verbatim>\<open>rpath\<close>, which is left as it is on failure.\<close>

definition Realpath :: "'w fs \<Rightarrow> string \<Rightarrow> string \<Rightarrow> 'w \<Rightarrow> bool \<times> string" where
  "Realpath fs path rpath w =
     (if lstat_mode fs (cstr path) w = None then (False, rpath)
      else case real_path fs (cstr path) w of None \<Rightarrow> (False, rpath) | Some p \<Rightarrow> (True, p))"

section \<open>Opening\<close>

definition OpenForRead :: "'w fs \<Rightarrow> string \<Rightarrow> 'w \<Rightarrow> bool" where
  "OpenForRead fs filename w = open_read fs (cstr filename) w"

definition OpenForWrite :: "'w fs \<Rightarrow> string \<Rightarrow> 'w \<Rightarrow> (bool \<times> 'w) option" where
  "OpenForWrite fs filename w =
     (let (ok, w1) = open_write fs (cstr filename) w
      in if ok then Some (True, w1)
         else Option.bind (Mkdir fs (Dirname filename) w1) (\<lambda>(_, w2). Some (open_write fs (cstr filename) w2)))"

section \<open>Process files\<close>

text \<open>\<^verbatim>\<open>atoi\<close>: white space, a sign, digits; the value is that of \<^verbatim>\<open>strtol\<close>, cut to 32 bits.\<close>

definition isspace :: "char \<Rightarrow> bool" where
  "isspace c \<longleftrightarrow> c \<in> set [CHR '' '', CHR 0x09, CHR 0x0A, CHR 0x0B, CHR 0x0C, CHR 0x0D]"

definition atoi :: "string \<Rightarrow> int" where
  "atoi s =
     (let t = dropWhile isspace s;
          neg = (t \<noteq> [] \<and> hd t = CHR ''-'');
          u = (if t \<noteq> [] \<and> (hd t = CHR ''-'' \<or> hd t = CHR ''+'') then tl t else t);
          n = int (read_base 10 (takeWhile (\<lambda>c. of_char c \<in> {48 .. 57 :: nat}) u));
          v = (if neg then max (- n) (- (2 ^ 63)) else min n (2 ^ 63 - 1))
      in sint (word_of_int v :: u32))"

definition IsRunningPidfile :: "'w fs \<Rightarrow> string \<Rightarrow> 'w \<Rightarrow> bool" where
  "IsRunningPidfile fs pidfile w =
     (if lstat_mode fs (cstr pidfile) w = None then False
      else case first_line fs (cstr pidfile) w of
             None \<Rightarrow> False
           | Some line \<Rightarrow>
               if line = '''' then False
               else let pid = atoi (cstr line)
                    in if pid \<le> 1 then False else alive fs pid w)"

section \<open>The directory of a file\<close>

text \<open>
  \<^verbatim>\<open>filePathCheck\<close>, with the operations of \<^verbatim>\<open>std::filesystem::path\<close> it uses: appending a path, which an
  absolute one replaces, and the path without what follows its last slashes. \<^verbatim>\<open>create_directories\<close> is
  an argument.
\<close>

definition path_append :: "string \<Rightarrow> string \<Rightarrow> string" where
  "path_append p q =
     (if q \<noteq> '''' \<and> hd q = CHR ''/'' then q
      else if p \<noteq> '''' \<and> last p \<noteq> CHR ''/'' then p @ ''/'' @ q else p @ q)"

definition parent_path :: "string \<Rightarrow> string" where
  "parent_path p =
     (if set p \<subseteq> {CHR ''/''} then p
      else let q = rev (dropWhile (\<lambda>c. c \<noteq> CHR ''/'') (rev p));
               r = rev (dropWhile (\<lambda>c. c = CHR ''/'') (rev q))
           in if r = '''' then q else r)"

definition filePathCheck :: "'w fs \<Rightarrow> (string \<Rightarrow> 'w \<Rightarrow> 'w) \<Rightarrow> string \<Rightarrow> string \<Rightarrow> 'w \<Rightarrow> 'w" where
  "filePathCheck fs create_directories current_path filePath w =
     (let parentPath = parent_path (path_append current_path filePath)
      in if \<not> accessible fs parentPath w then create_directories parentPath w else w)"

section \<open>Time and call stacks\<close>

definition getCurrentMS :: "u64 \<Rightarrow> u64 \<Rightarrow> u64" where
  "getCurrentMS tv_sec tv_usec = tv_sec * 1000 + tv_usec div 1000"

text \<open>The frames from \<^verbatim>\<open>skip\<close> on, which is converted to an unsigned number in the comparison.\<close>

definition Backtrace :: "string list \<Rightarrow> int \<Rightarrow> string list" where
  "Backtrace frames skip = (if skip < 0 then [] else drop (nat skip) frames)"

definition BacktraceToString :: "string list \<Rightarrow> int \<Rightarrow> string \<Rightarrow> string" where
  "BacktraceToString frames skip prefix = concat (map (\<lambda>f. prefix @ f @ [CHR 0x0A]) (Backtrace frames skip))"

end
