(* ===== verification/Env.thy ===== *)
theory Env
  imports Config FSUtil
begin

text \<open>
  \<^verbatim>\<open>src/src/util/env.{h,cc}\<close>: the program's arguments, help texts and paths; and
  \<^verbatim>\<open>Config::LoadFromConfDir\<close>, which loads the configuration files below a directory. The process
  environment is a map, the target of \<^verbatim>\<open>/proc/<pid>/exe\<close> an argument.
\<close>

section \<open>State\<close>

record environment =
  m_args :: "string \<rightharpoonup> string"
  m_helps :: "(string \<times> string) list"
  m_program :: string
  m_exe :: string
  m_cwd :: string

section \<open>Arguments\<close>

definition env_add :: "string \<Rightarrow> string \<Rightarrow> environment \<Rightarrow> environment" where
  "env_add key val e = e\<lparr>m_args := (m_args e)(key \<mapsto> val)\<rparr>"

definition env_has :: "string \<Rightarrow> environment \<Rightarrow> bool" where
  "env_has key e \<longleftrightarrow> m_args e key \<noteq> None"

definition env_del :: "string \<Rightarrow> environment \<Rightarrow> environment" where
  "env_del key e = e\<lparr>m_args := (m_args e)(key := None)\<rparr>"

definition env_get :: "string \<Rightarrow> string \<Rightarrow> environment \<Rightarrow> string" where
  "env_get key default_value e = (case m_args e key of Some v \<Rightarrow> v | None \<Rightarrow> default_value)"

text \<open>The loop of \<^verbatim>\<open>init\<close> over \<^verbatim>\<open>argv[1]\<close>, ..., with \<^verbatim>\<open>now_key\<close>; false for an invalid argument.\<close>

primrec init_args :: "string list \<Rightarrow> string option \<Rightarrow> environment \<Rightarrow> bool \<times> environment" where
  "init_args [] now_key e = (True, case now_key of None \<Rightarrow> e | Some k \<Rightarrow> env_add k '''' e)"
| "init_args (a # as) now_key e =
     (if a \<noteq> '''' \<and> hd a = CHR ''-'' then
        (if length a > 1
         then init_args as (Some (tl a)) (case now_key of None \<Rightarrow> e | Some k \<Rightarrow> env_add k '''' e)
         else (False, e))
      else case now_key of
             Some k \<Rightarrow> init_args as None (env_add k a e)
           | None \<Rightarrow> (False, e))"

text \<open>
  \<^verbatim>\<open>exe\<close> is what \<^verbatim>\<open>readlink\<close> gives, empty when it fails. It fills at most 1024 bytes and adds no zero:
  with a longer path, and with an empty \<^verbatim>\<open>argv\<close>, the behaviour is undefined (\<open>None\<close>).
\<close>

definition env_init :: "string \<Rightarrow> string list \<Rightarrow> environment \<Rightarrow> (bool \<times> environment) option" where
  "env_init exe argv e =
     (if 1024 \<le> length exe then None
      else let e1 = e\<lparr>m_exe := exe,
                 m_cwd := (case rfind CHR ''/'' exe of None \<Rightarrow> exe | Some pos \<Rightarrow> take pos exe) @ ''/''\<rparr>
           in case argv of
                [] \<Rightarrow> None
              | p # as \<Rightarrow> Some (init_args as None (e1\<lparr>m_program := p\<rparr>)))"

section \<open>Help\<close>

definition removeHelp :: "string \<Rightarrow> environment \<Rightarrow> environment" where
  "removeHelp key e = e\<lparr>m_helps := filter (\<lambda>h. fst h \<noteq> key) (m_helps e)\<rparr>"

definition addHelp :: "string \<Rightarrow> string \<Rightarrow> environment \<Rightarrow> environment" where
  "addHelp key desc e = (let e1 = removeHelp key e in e1\<lparr>m_helps := m_helps e1 @ [(key, desc)]\<rparr>)"

definition printHelp :: "environment \<Rightarrow> string" where
  "printHelp e = ''Usage: '' @ m_program e @ '' [options]'' @ [CHR 0x0A] @
     concat (map (\<lambda>h. ''    -'' @ fst h @ '' : '' @ snd h @ [CHR 0x0A]) (m_helps e))"

section \<open>The process environment\<close>

text \<open>\<^verbatim>\<open>setenv\<close> refuses an empty name and one with an equals sign.\<close>

definition setEnv :: "string \<Rightarrow> string \<Rightarrow> (string \<rightharpoonup> string) \<Rightarrow> bool \<times> (string \<rightharpoonup> string)" where
  "setEnv key val vs =
     (if cstr key = '''' \<or> CHR ''='' \<in> set (cstr key) then (False, vs) else (True, vs(cstr key \<mapsto> cstr val)))"

definition getEnv :: "string \<Rightarrow> string \<Rightarrow> (string \<rightharpoonup> string) \<Rightarrow> string" where
  "getEnv key default_value vs = (case vs (cstr key) of None \<Rightarrow> default_value | Some v \<Rightarrow> v)"

section \<open>Paths\<close>

definition getAbsolutePath :: "string \<Rightarrow> environment \<Rightarrow> string" where
  "getAbsolutePath path e =
     (if path = '''' then ''/'' else if hd path = CHR ''/'' then path else m_cwd e @ path)"

text \<open>
  The static variable is looked up at the first relative path and then kept; the outer option says
  whether it has been. Getting the value of a null pointer is undefined (\<open>Inl\<close>). \<open>str\<close> is the tag of
  \<^verbatim>\<open>std::string\<close>, \<open>txt_of\<close> reads such a value.
\<close>

definition getAbsoluteWorkPath ::
  "'t \<Rightarrow> ('v \<Rightarrow> string) \<Rightarrow> string \<Rightarrow> ('t, 'v, 'w) config \<Rightarrow> nat option option \<Rightarrow> unit + string \<times> nat option option" where
  "getAbsoluteWorkPath str txt_of path c g =
     (if path = '''' then Inr (''/'', g)
      else if hd path = CHR ''/'' then Inr (path, g)
      else let p = (case g of None \<Rightarrow> Config_find str ''server.work_path'' c | Some p \<Rightarrow> p)
           in case p of None \<Rightarrow> Inl ()
              | Some i \<Rightarrow> Inr (txt_of (cv_val (vars c i)) @ ''/'' @ path, Some p))"

definition getConfigPath :: "environment \<Rightarrow> string" where
  "getConfigPath e = getAbsolutePath (env_get ''c'' ''conf'' e) e"

section \<open>Loading the configuration files\<close>

text \<open>
  One file: skipped when its modification time is the one remembered, otherwise remembered and
  loaded; a file that does not parse is logged. \<open>load_file\<close> is \<^verbatim>\<open>YAML::LoadFile\<close>; a file not seen
  before has the time 0 in the map. The depth bound of the loader is \<open>n\<close>.
\<close>

type_synonym ('t, 'v, 'w) load_state = "(string \<Rightarrow> u64) \<times> ('t, 'v, 'w) config \<times> 'w"

definition load_one ::
  "nat \<Rightarrow> ('t, 'v) conversions \<Rightarrow> 'n yaml_lib \<Rightarrow> (string \<Rightarrow> 'w \<Rightarrow> cast_error + 'n) \<Rightarrow> 'w fs \<Rightarrow> bool \<Rightarrow> string \<Rightarrow>
    ('t, 'v, 'w) load_state \<Rightarrow> ('t, 'v, 'w) load_state option" where
  "load_one n conv y load_file fs force i st =
     (let (s_file2modifytime, c, w) = st; t = lstat_mtime fs (cstr i) w
      in if \<not> force \<and> s_file2modifytime i = t then Some st
         else let m1 = s_file2modifytime(i := t)
              in case load_file i w of
                   Inl e \<Rightarrow> Some (m1, c, w)
                 | Inr root \<Rightarrow> map_option (\<lambda>(c1, w1). (m1, c1, w1)) (LoadFromYaml n conv y root (c, w)))"

primrec load_files ::
  "nat \<Rightarrow> ('t, 'v) conversions \<Rightarrow> 'n yaml_lib \<Rightarrow> (string \<Rightarrow> 'w \<Rightarrow> cast_error + 'n) \<Rightarrow> 'w fs \<Rightarrow> bool \<Rightarrow> string list \<Rightarrow>
    ('t, 'v, 'w) load_state \<Rightarrow> ('t, 'v, 'w) load_state option" where
  "load_files n conv y load_file fs force [] st = Some st"
| "load_files n conv y load_file fs force (i # is) st =
     Option.bind (load_one n conv y load_file fs force i st) (load_files n conv y load_file fs force is)"

definition LoadFromConfDir ::
  "nat \<Rightarrow> ('t, 'v) conversions \<Rightarrow> 'n yaml_lib \<Rightarrow> (string \<Rightarrow> 'w \<Rightarrow> cast_error + 'n) \<Rightarrow> 'w fs \<Rightarrow> environment \<Rightarrow> string \<Rightarrow> bool \<Rightarrow>
    ('t, 'v, 'w) load_state \<Rightarrow> ('t, 'v, 'w) load_state option" where
  "LoadFromConfDir n conv y load_file fs e path force st =
     Option.bind (ListAllFile fs (snd (snd st)) ''.yml'' n [] (getAbsolutePath path e)) (\<lambda>files.
       load_files n conv y load_file fs force files st)"

end
