(* ===== verification/FSUtil_Properties.thy ===== *)
theory FSUtil_Properties
  imports FSUtil
begin

text \<open>
  The properties of the file functions: splitting a name and putting it together again, the
  directories that are made, the files a listing finds, and what removing a path does.
\<close>

section \<open>Names\<close>

lemma rfind_None: "rfind c s = None \<longleftrightarrow> c \<notin> set s"
  by (simp add: rfind_def)

lemma rfind_split: "c \<notin> set t \<Longrightarrow> rfind c (s @ c # t) = Some (length s)"
  by (simp add: rfind_def takeWhile_append)

lemma rfind_cases:
  obtains "c \<notin> set f" "rfind c f = None"
  | s t where "f = s @ c # t" "c \<notin> set t" "rfind c f = Some (length s)"
  using split_list_last [of c f] rfind_split rfind_None by metis

text \<open>The directory and the base name put together again give the name, if it has a slash that is
  not only its first character; otherwise the directory is the root or the current one. The base name
  has no slash.\<close>

theorem dirname_basename:
  assumes "f \<noteq> ''''"
  shows "CHR ''/'' \<notin> set (Basename f) \<and>
    (if CHR ''/'' \<in> set (tl f) then Dirname f @ ''/'' @ Basename f = f
     else if hd f = CHR ''/'' then Dirname f = ''/'' \<and> ''/'' @ Basename f = f
     else Dirname f = ''.'' \<and> Basename f = f)"
proof (cases rule: rfind_cases [of "CHR ''/''" f])
  case 1
  then show ?thesis
    using assms by (cases f) (auto simp: Dirname_def Basename_def)
next
  case (2 s t)
  then show ?thesis by (cases s) (auto simp: Dirname_def Basename_def)
qed

lemma dirname_basename_witness:
  "Dirname ''conf/a.yml'' = ''conf'' \<and> Basename ''conf/a.yml'' = ''a.yml'' \<and>
   CHR ''/'' \<notin> set (Basename ''conf/a.yml'')"
  using dirname_basename [of "''conf/a.yml''"] by (simp add: Dirname_def Basename_def rfind_def)

section \<open>Making directories\<close>

text \<open>The paths before each slash but the first character, and the whole path.\<close>

definition path_prefixes :: "string \<Rightarrow> string list" where
  "path_prefixes p = map (\<lambda>i. take i p) (filter (\<lambda>i. p ! i = CHR ''/'') [1 ..< length p]) @ [p]"

primrec make_all :: "'w fs \<Rightarrow> string list \<Rightarrow> 'w \<Rightarrow> bool \<times> 'w" where
  "make_all fs [] w = (True, w)"
| "make_all fs (p # ps) w = (let (ok, w1) = make_one fs p w in if ok then make_all fs ps w1 else (False, w1))"

lemma make_all_append:
  "make_all fs (ps @ qs) w = (let (ok, w1) = make_all fs ps w in if ok then make_all fs qs w1 else (False, w1))"
  by (induction ps arbitrary: w) (simp_all add: Let_def case_prod_unfold)

lemma mkdir_loop_eq:
  "mkdir_loop fs p q w =
     make_all fs (map (\<lambda>i. take i (p @ q)) (filter (\<lambda>i. (p @ q) ! i = CHR ''/'') [length p ..< length (p @ q)])) w"
proof (induction q arbitrary: p w)
  case (Cons c q)
  have u: "[length p ..< length (p @ c # q)] = length p # [Suc (length p) ..< Suc (length p + length q)]"
    using upt_conv_Cons [of "length p" "length p + Suc (length q)"] by (simp del: upt_Suc)
  show ?case
    using Cons.IH [of "p @ [c]"] unfolding u
    by (cases "c = CHR ''/''") (simp_all add: Let_def case_prod_unfold del: upt_Suc)
qed simp

text \<open>For a name that does not exist, \<^verbatim>\<open>Mkdir\<close> makes, in order, the directories that are missing on
  the way to it, and it, and stops at the first failure; it is true when there is none.\<close>

theorem Mkdir_makes_prefixes:
  assumes "dirname \<noteq> ''''" and "CHR 0x00 \<notin> set dirname" and "lstat_mode fs dirname w = None"
  shows "Mkdir fs dirname w = Some (make_all fs (path_prefixes dirname) w)"
proof -
  obtain c cs where d: "dirname = c # cs" using assms(1) by (cases dirname) auto
  have "mkdir_loop fs [c] cs w = make_all fs (butlast (path_prefixes dirname)) w"
    by (simp add: mkdir_loop_eq path_prefixes_def d)
  moreover have "path_prefixes dirname = butlast (path_prefixes dirname) @ [dirname]"
    by (simp add: path_prefixes_def)
  ultimately show ?thesis
    using assms d make_all_append [of fs "butlast (path_prefixes dirname)" "[dirname]" w]
    by (auto simp: Mkdir_def cstr_id Let_def case_prod_unfold prod_eq_iff)
qed

section \<open>Listing\<close>

text \<open>A tree of files, and that the file system shows it at a path.\<close>

datatype ftree = Regular | Special u8 | Directory "(string \<times> ftree) list"

primrec type_of :: "ftree \<Rightarrow> u8" where
  "type_of Regular = DT_REG"
| "type_of (Special d) = d"
| "type_of (Directory es) = DT_DIR"

fun fs_shows :: "'w fs \<Rightarrow> 'w \<Rightarrow> string \<Rightarrow> ftree \<Rightarrow> bool" where
  "fs_shows fs w p Regular \<longleftrightarrow> True"
| "fs_shows fs w p (Special d) \<longleftrightarrow> d \<noteq> DT_DIR \<and> d \<noteq> DT_REG"
| "fs_shows fs w p (Directory es) \<longleftrightarrow> accessible fs (cstr p) w \<and>
     (case readdir_of fs (cstr p) w of None \<Rightarrow> False
      | Some ds \<Rightarrow> filter (\<lambda>(n, d). \<not> (d = DT_DIR \<and> (n = ''.'' \<or> n = ''..''))) ds = map (\<lambda>(n, t). (n, type_of t)) es) \<and>
     (\<forall>e \<in> set es. fs_shows fs w (p @ ''/'' @ fst e) (snd e))"

text \<open>The regular files with the suffix, in the order of the directories.\<close>

fun files_of :: "string \<Rightarrow> string \<Rightarrow> ftree \<Rightarrow> string list" where
  "files_of s p (Directory es) =
     concat (map (\<lambda>e. if snd e = Regular then (if has_subfix s (fst e) then [p @ ''/'' @ fst e] else [])
       else files_of s (p @ ''/'' @ fst e) (snd e)) es)"
| "files_of s p _ = []"

fun height :: "ftree \<Rightarrow> nat" where
  "height (Directory es) = Suc (foldr (\<lambda>e. max (height (snd e))) es 0)"
| "height _ = 0"

lemma height_member: "e \<in> set es \<Longrightarrow> height (snd e) \<le> foldr (\<lambda>e. max (height (snd e))) es 0"
  by (induction es) (auto simp: le_max_iff_disj)

lemma DT_distinct [simp]: "DT_REG \<noteq> DT_DIR" "DT_DIR \<noteq> DT_REG"
  by (simp_all add: DT_REG_def DT_DIR_def)

lemma list_entries_eq:
  assumes "filter (\<lambda>(n, d). \<not> (d = DT_DIR \<and> (n = ''.'' \<or> n = ''..''))) ds = map (\<lambda>(n, t). (n, type_of t)) es"
    and "\<And>e files. e \<in> set es \<Longrightarrow> type_of (snd e) = DT_DIR \<Longrightarrow>
      into files (p @ ''/'' @ fst e) = Some (files @ files_of s (p @ ''/'' @ fst e) (snd e))"
    and "\<And>e d. e \<in> set es \<Longrightarrow> snd e = Special d \<Longrightarrow> d \<noteq> DT_DIR \<and> d \<noteq> DT_REG"
  shows "list_entries into p s ds files = Some (files @ files_of s p (Directory es))"
  using assms
proof (induction ds arbitrary: es files)
  case (Cons d ds)
  obtain n ty where d: "d = (n, ty)" by fastforce
  show ?case
  proof (cases "ty = DT_DIR \<and> (n = ''.'' \<or> n = ''..'')")
    case True
    then have "filter (\<lambda>(n, d). \<not> (d = DT_DIR \<and> (n = ''.'' \<or> n = ''..''))) ds = map (\<lambda>(n, t). (n, type_of t)) es"
      using Cons.prems(1) d by auto
    then have "list_entries into p s ds files = Some (files @ files_of s p (Directory es))"
      by (rule Cons.IH) (fact Cons.prems(2), fact Cons.prems(3))
    then show ?thesis using True d by simp
  next
    case False
    then obtain t es' where es: "es = (n, t) # es'" and ty: "ty = type_of t"
      and rest: "filter (\<lambda>(n, d). \<not> (d = DT_DIR \<and> (n = ''.'' \<or> n = ''..''))) ds = map (\<lambda>(n, t). (n, type_of t)) es'"
      using Cons.prems(1) d by (cases es) (auto split: if_splits)
    have IH: "list_entries into p s ds fs = Some (fs @ files_of s p (Directory es'))" for fs
    proof (rule Cons.IH [OF rest])
      show "into files (p @ ''/'' @ fst e) = Some (files @ files_of s (p @ ''/'' @ fst e) (snd e))"
        if "e \<in> set es'" "type_of (snd e) = DT_DIR" for e files
        using Cons.prems(2) [of e] that es by simp
      show "d \<noteq> DT_DIR \<and> d \<noteq> DT_REG" if "e \<in> set es'" "snd e = Special d" for e d
        using Cons.prems(3) [of e d] that es by simp
    qed
    show ?thesis
    proof (cases t)
      case Regular
      then show ?thesis using IH ty es d by simp
    next
      case (Special x)
      then show ?thesis using IH ty es d Cons.prems(3) [of "(n, t)" x] by simp
    next
      case (Directory ts)
      then show ?thesis using IH ty es d False Cons.prems(2) [of "(n, t)"] by simp
    qed
  qed
qed simp

text \<open>C34. Wherever the file system shows a directory tree, a listing that may descend as deep as the
  tree is high appends exactly its regular files with the suffix, each with its path.\<close>

theorem ListAllFile_complete:
  assumes "fs_shows fs w p (Directory es)" and "height (Directory es) \<le> n"
  shows "ListAllFile fs w s n files p = Some (files @ files_of s p (Directory es))"
  using assms
proof (induction n arbitrary: p es files)
  case (Suc n)
  then obtain ds where ds: "readdir_of fs (cstr p) w = Some ds" "accessible fs (cstr p) w"
    "filter (\<lambda>(n, d). \<not> (d = DT_DIR \<and> (n = ''.'' \<or> n = ''..''))) ds = map (\<lambda>(n, t). (n, type_of t)) es"
    by (auto split: option.splits)
  have "list_entries (ListAllFile fs w s n) p s ds files = Some (files @ files_of s p (Directory es))"
  proof (rule list_entries_eq [OF ds(3)])
    fix e files assume e: "e \<in> set es"
    then have sh: "fs_shows fs w (p @ ''/'' @ fst e) (snd e)" and h: "height (snd e) \<le> n"
      using Suc.prems height_member [of e es] by auto
    show "ListAllFile fs w s n files (p @ ''/'' @ fst e) = Some (files @ files_of s (p @ ''/'' @ fst e) (snd e))"
      if "type_of (snd e) = DT_DIR"
    proof (cases "snd e")
      case (Directory ts)
      then show ?thesis using Suc.IH sh h by simp
    qed (use sh that in simp_all)
    show "d \<noteq> DT_DIR \<and> d \<noteq> DT_REG" if "snd e = Special d" for d
      using sh that by simp
  qed
  then show ?case using ds by simp
qed simp

section \<open>Removing\<close>


section \<open>Examples\<close>

text \<open>A file system whose state is the list of the paths that exist; \<open>s\<close> is a socket.\<close>

definition a_fs :: "string list fs" where
  "a_fs = \<lparr>lstat_mode = \<lambda>p w. if p \<in> set w then Some (if p = ''s'' then 0xC000 else S_IFDIR) else None,
     lstat_mtime = \<lambda>p w. 0, accessible = \<lambda>p w. p \<in> set w,
     readdir_of = \<lambda>p w. if p = ''conf'' then Some [(''.'', DT_DIR), (''a.yml'', DT_REG), (''b.txt'', DT_REG), (''sub'', DT_DIR)]
       else if p = ''conf/sub'' then Some [(''c.yml'', DT_REG)] else None,
     do_unlink = \<lambda>p w. (True, removeAll p w), do_rmdir = \<lambda>p w. (True, removeAll p w), do_mkdir = \<lambda>p w. (True, w @ [p]),
     do_rename = \<lambda>p q w. (False, w), do_symlink = \<lambda>p q w. (False, w), real_path = \<lambda>p w. None, first_line = \<lambda>p w. None,
     alive = \<lambda>p w. False, open_read = \<lambda>p w. False, open_write = \<lambda>p w. (False, w)\<rparr>"

lemma Mkdir_makes_prefixes_witness:
  "Mkdir a_fs ''log/web//x'' [''log''] = Some (True, [''log'', ''log/web'', ''log/web/'', ''log/web//x''])"
proof -
  have "path_prefixes ''log/web//x'' = [''log'', ''log/web'', ''log/web/'', ''log/web//x'']"
    by (simp add: path_prefixes_def upt_rec)
  then show ?thesis
    using Mkdir_makes_prefixes [of "''log/web//x''" a_fs "[''log'']"] by (simp add: a_fs_def make_one_def)
qed

lemma ListAllFile_complete_witness:
  "ListAllFile a_fs [''conf'', ''conf/sub''] ''.yml'' 2 [''x''] ''conf'' = Some [''x'', ''conf/a.yml'', ''conf/sub/c.yml'']"
proof -
  let ?t = "[(''a.yml'', Regular), (''b.txt'', Regular), (''sub'', Directory [(''c.yml'', Regular)])]"
  have "fs_shows a_fs [''conf'', ''conf/sub''] ''conf'' (Directory ?t)"
    by (simp add: a_fs_def cstr_def)
  moreover have "files_of ''.yml'' ''conf'' (Directory ?t) = [''conf/a.yml'', ''conf/sub/c.yml'']"
    by (simp add: has_subfix_def)
  ultimately show ?thesis
    using ListAllFile_complete [of a_fs "[''conf'', ''conf/sub'']" "''conf''" ?t 2 "''.yml''" "[''x'']"] by simp
qed


end
