(* ===== verification/Config_Properties.thy ===== *)
theory Config_Properties
  imports Env FSUtil_Properties
begin

text \<open>
  The properties of the configuration: what assigning a value does with its listeners, what stays
  true of the registry, which nodes of a YAML tree are looked up, which files are loaded, and what
  the argument parser makes of a command line.
\<close>

section \<open>Assigning\<close>





section \<open>Listeners\<close>

lemma put_cb_last: "\<forall>e \<in> set cbs. fst e < k \<Longrightarrow> put_cb k f cbs = cbs @ [(k, f)]"
  by (induction k f cbs rule: put_cb.induct) auto

text \<open>The numbers of the listeners of a variable are increasing and below the counter of its type.\<close>

definition cbs_inv :: "u64 \<Rightarrow> ('t, 'v, 'w) config_var \<Rightarrow> bool" where
  "cbs_inv n x \<longleftrightarrow> sorted_wrt (<) (map fst (cv_cbs x)) \<and> (\<forall>e \<in> set (cv_cbs x). fst e \<le> n)"

lemma addListener_last:
  assumes "cbs_inv n x" and "n \<noteq> -1" and "addListener cb n x = (key, n', x')"
  shows "cbs_inv n' x' \<and> cv_cbs x' = cv_cbs x @ [(key, cb)] \<and> getListener key x' = Some cb \<and> cv_val x' = cv_val x"
proof -
  have lt: "n < n + 1" using assms(2) inc_less_eq_self_iff_eq [of n] by (simp add: not_le [symmetric])
  have "\<forall>e \<in> set (cv_cbs x). fst e < n + 1"
    using assms(1) lt by (auto simp: cbs_inv_def intro: order_le_less_trans)
  moreover from this have "map_of (cv_cbs x) (n + 1) = None"
    by (auto simp: map_of_eq_None_iff)
  ultimately show ?thesis
    using assms lt put_cb_last [of "cv_cbs x" "n + 1" cb]
    by (auto simp: addListener_def Let_def cbs_inv_def getListener_def sorted_wrt_append map_add_def
        intro: order_le_less_trans order.strict_implies_order)
qed

section \<open>The registry\<close>

lemma setValue_frame:
  "setValue v x w = (ok, x', w') \<Longrightarrow> cv_name x' = cv_name x \<and> cv_type x' = cv_type x \<and> cv_cbs x' = cv_cbs x"
  by (auto simp: setValue_def split: if_splits prod.splits)

lemma fromString_frame:
  "fromString conv s x w = (ok, x', w') \<Longrightarrow> cv_name x' = cv_name x \<and> cv_type x' = cv_type x \<and> cv_cbs x' = cv_cbs x"
  by (auto simp: fromString_def dest: setValue_frame split: sum.splits prod.splits)

text \<open>A later state of the registry: variables may change their values and listeners, no more.\<close>

definition config_inv :: "('t, 'v, 'w) config \<Rightarrow> bool" where
  "config_inv c \<longleftrightarrow> (\<forall>name p. datas c name = Some p \<longrightarrow>
     p < next_var c \<and> valid_name name \<and> cv_name (vars c p) = name)"

definition later :: "('t, 'v, 'w) config \<Rightarrow> ('t, 'v, 'w) config \<Rightarrow> bool" where
  "later c c' \<longleftrightarrow> next_var c \<le> next_var c' \<and> (\<forall>name p. datas c name = Some p \<longrightarrow> datas c' name = Some p) \<and>
     (\<forall>p < next_var c. cv_name (vars c' p) = cv_name (vars c p) \<and> cv_type (vars c' p) = cv_type (vars c p))"

lemma later_refl [simp]: "later c c"
  by (simp add: later_def)

lemma later_trans: "later c c' \<Longrightarrow> later c' c'' \<Longrightarrow> later c c''"
  by (auto simp: later_def)

text \<open>The name is already in lower case.\<close>

lemma valid_char_lower: "c \<in> set name_chars \<Longrightarrow> tolower c = c \<and> c \<noteq> CHR ''9''"
  by (auto simp: name_chars_def tolower_def)

lemma valid_name_lower: "valid_name s \<Longrightarrow> map tolower s = s \<and> CHR ''9'' \<notin> set s"
  by (induction s) (auto simp: valid_name_def dest: valid_char_lower)

lemma Config_Lookup_inv:
  assumes "Config_Lookup t name v d c = Inr (r, c')" and "config_inv c"
  shows "config_inv c' \<and> later c c'"
proof (cases "datas c name")
  case None
  let ?p = "next_var c"
  have c': "c' = c\<lparr>datas := (datas c)(name \<mapsto> ?p), vars := (vars c)(?p := ConfigVar t name v d), next_var := Suc ?p\<rparr>"
    and ok: "valid_name name"
    using assms(1) None by (auto simp: Config_Lookup_def Let_def split: if_splits)
  show ?thesis
    using assms(2) None valid_name_lower [OF ok] ok
    by (auto simp: c' config_inv_def later_def ConfigVar_def less_Suc_eq)
qed (use assms in \<open>auto simp: Config_Lookup_def\<close>)

lemma upd_var_inv:
  assumes "config_inv c" and "cv_name x = cv_name (vars c p)" and "cv_type x = cv_type (vars c p)"
  shows "config_inv (c\<lparr>vars := (vars c)(p := x)\<rparr>) \<and> later c (c\<lparr>vars := (vars c)(p := x)\<rparr>)"
  using assms by (auto simp: config_inv_def later_def)

lemma load_member_inv:
  assumes "config_inv (fst s)"
  shows "config_inv (fst (load_member conv y s i)) \<and> later (fst s) (fst (load_member conv y s i))"
proof (cases "fst i = '''' \<or> LookupBase (map tolower (fst i)) (fst s) = None")
  case True
  then have "load_member conv y s i = s"
    by (cases s) (auto simp: load_member_def Let_def)
  then show ?thesis using assms by simp
next
  case False
  then obtain p where p: "LookupBase (map tolower (fst i)) (fst s) = Some p" "fst i \<noteq> ''''" by auto
  let ?v = "if y_is_scalar y (snd i) then y_scalar y (snd i) else y_dump y (snd i)"
  obtain ok x w1 where f: "fromString conv ?v (vars (fst s) p) (snd s) = (ok, x, w1)" by (metis prod_cases3)
  then have "load_member conv y s i = ((fst s)\<lparr>vars := (vars (fst s))(p := x)\<rparr>, w1)"
    using p by (cases s) (simp add: load_member_def)
  then show ?thesis
    using upd_var_inv [OF assms] fromString_frame [OF f] by simp
qed

lemma load_members_inv:
  "config_inv (fst s) \<Longrightarrow> config_inv (fst (foldl (load_member conv y) s is)) \<and> later (fst s) (fst (foldl (load_member conv y) s is))"
proof (induction "is" arbitrary: s)
  case (Cons i "is")
  then show ?case using load_member_inv [of s conv y i] later_trans by fastforce
qed simp

text \<open>Everything that changes variables or the registry; \<open>Elsewhere\<close> is the rest of the program.\<close>

inductive cfg_step ::
  "('t, 'v) conversions \<Rightarrow> 'n yaml_lib \<Rightarrow> ('t, 'v, 'w) config \<times> 'w \<Rightarrow> ('t, 'v, 'w) config \<times> 'w \<Rightarrow> bool" for conv y where
  Creates: "Config_Lookup t name v d c = Inr (r, c') \<Longrightarrow> cfg_step conv y (c, w) (c', w)"
| Assigns: "setValue v (vars c p) w = (ok, x, w') \<Longrightarrow> cfg_step conv y (c, w) (c\<lparr>vars := (vars c)(p := x)\<rparr>, w')"
| Converts: "fromString conv s (vars c p) w = (ok, x, w') \<Longrightarrow> cfg_step conv y (c, w) (c\<lparr>vars := (vars c)(p := x)\<rparr>, w')"
| Listens: "addListener cb n (vars c p) = (key, n', x) \<Longrightarrow> cfg_step conv y (c, w) (c\<lparr>vars := (vars c)(p := x)\<rparr>, w)"
| Unlistens: "x = delListener key (vars c p) \<or> x = clearListener (vars c p) \<Longrightarrow>
    cfg_step conv y (c, w) (c\<lparr>vars := (vars c)(p := x)\<rparr>, w)"
| Loads: "LoadFromYaml n conv y root (c, w) = Some (c', w') \<Longrightarrow> cfg_step conv y (c, w) (c', w')"
| Elsewhere: "cfg_step conv y (c, w) (c, w')"

lemma cfg_step_inv:
  assumes "cfg_step conv y s s'" and "config_inv (fst s)"
  shows "config_inv (fst s') \<and> later (fst s) (fst s')"
  using assms(1)
proof (cases rule: cfg_step.cases)
  case (Creates t name v d c r c' w)
  then show ?thesis using Config_Lookup_inv assms(2) by simp
next
  case (Assigns v c p w ok x w')
  then show ?thesis using upd_var_inv [of c x p] setValue_frame assms(2) by fastforce
next
  case (Converts t c p w ok x w')
  then show ?thesis using upd_var_inv [of c x p] fromString_frame assms(2) by fastforce
next
  case (Listens cb n c p key n' x w)
  then show ?thesis using upd_var_inv [of c x p] assms(2) by (auto simp: addListener_def Let_def)
next
  case (Unlistens x key c p w)
  then show ?thesis using upd_var_inv [of c x p] assms(2) by (auto simp: delListener_def clearListener_def)
next
  case (Loads n root c w c' w')
  then obtain ms where "foldl (load_member conv y) (c, w) ms = (c', w')"
    by (auto simp: LoadFromYaml_def)
  then show ?thesis using load_members_inv [of "(c, w)" conv y ms] Loads(1,2) assms(2) by (metis fst_conv)
next
  case (Elsewhere c w w')
  then show ?thesis using assms(2) by simp
qed

lemma cfg_reach_inv:
  assumes "(cfg_step conv y)\<^sup>*\<^sup>* s s'" and "config_inv (fst s)"
  shows "config_inv (fst s') \<and> later (fst s) (fst s')"
  using assms
proof (induction rule: rtranclp_induct)
  case (step s' s'')
  then show ?case using cfg_step_inv later_trans by blast
qed simp

text \<open>C16. Starting from an empty registry, whatever is created, assigned, listened to and loaded, in any
  order: every registered name consists of the accepted characters, among which are no capitals and,
  against the documentation, no 9; the variable has that name; and different names have different
  variables. Once a name has been given a type, looking it up again with that type gives the same
  variable for ever, and with another type a null pointer, and creates nothing.\<close>

theorem registry_invariant:
  assumes "(cfg_step conv y)\<^sup>*\<^sup>* (c0, w0) (c, w)" and "datas c0 = Map.empty" and "datas c name = Some p"
  shows "valid_name name \<and> CHR ''9'' \<notin> set name \<and> map tolower name = name \<and> cv_name (vars c p) = name \<and>
    (\<forall>name'. datas c name' = Some p \<longrightarrow> name' = name) \<and>
    (\<forall>c' w'. (cfg_step conv y)\<^sup>*\<^sup>* (c, w) (c', w') \<longrightarrow>
       Config_Lookup t name v d c' = Inr (if t = cv_type (vars c p) then Some p else None, c'))"
proof -
  have i: "config_inv c"
    using cfg_reach_inv [OF assms(1)] assms(2) by (simp add: config_inv_def)
  then have n: "valid_name name" "cv_name (vars c p) = name" "p < next_var c"
    using assms(3) by (auto simp: config_inv_def)
  have "Config_Lookup t name v d c' = Inr (if t = cv_type (vars c p) then Some p else None, c')"
    if "(cfg_step conv y)\<^sup>*\<^sup>* (c, w) (c', w')" for c' w'
  proof -
    have l: "later c c'" using cfg_reach_inv [OF that] i by simp
    then show ?thesis
      using assms(3) n(3) by (auto simp: later_def Config_Lookup_def)
  qed
  moreover have "name' = name" if "datas c name' = Some p" for name'
    using i that n(2) by (auto simp: config_inv_def)
  ultimately show ?thesis using n valid_name_lower [OF n(1)] by blast
qed

section \<open>Loading a tree\<close>

text \<open>The nodes below a node, with the keys on the way to them.\<close>

inductive at_path :: "'n yaml_lib \<Rightarrow> 'n \<Rightarrow> string list \<Rightarrow> 'n \<Rightarrow> bool" for y where
  here: "at_path y n [] n"
| below: "y_is_map y n \<Longrightarrow> (k, m) \<in> set (y_entries y n) \<Longrightarrow> at_path y m ks r \<Longrightarrow> at_path y n (k # ks) r"

inductive_simps at_path_Nil [simp]: "at_path y n [] r"
inductive_simps at_path_Cons: "at_path y n (k # ks) r"

text \<open>A name only grows, so a node with an accepted name has accepted names on the way to it.\<close>

lemma valid_member: "valid_name (member_name p k) \<Longrightarrow> valid_name p"
  by (auto simp: member_name_def valid_name_def split: if_splits)

lemma valid_path: "valid_name (foldl member_name p ks) \<Longrightarrow> valid_name p"
  by (induction ks arbitrary: p) (auto dest: valid_member)

definition members :: "'n yaml_lib \<Rightarrow> string \<Rightarrow> 'n \<Rightarrow> (string \<times> 'n) set" where
  "members y prefix node = {(foldl member_name prefix ks, r) |ks r.
     at_path y node ks r \<and> valid_name (foldl member_name prefix ks)}"

lemma members_node:
  "members y prefix node = (if valid_name prefix then
     insert (prefix, node) (if y_is_map y node then
       (\<Union>(k, m) \<in> set (y_entries y node). members y (member_name prefix k) m) else {}) else {})"
proof -
  have "(k, r) \<in> members y prefix node \<longleftrightarrow> (valid_name prefix \<and> k = prefix \<and> r = node) \<or>
      (y_is_map y node \<and> (\<exists>j m. (j, m) \<in> set (y_entries y node) \<and> (k, r) \<in> members y (member_name prefix j) m))" for k r
  proof
    assume "(k, r) \<in> members y prefix node"
    then obtain ks where ks: "at_path y node ks r" "valid_name (foldl member_name prefix ks)" "k = foldl member_name prefix ks"
      by (auto simp: members_def)
    then show "(valid_name prefix \<and> k = prefix \<and> r = node) \<or>
      (y_is_map y node \<and> (\<exists>j m. (j, m) \<in> set (y_entries y node) \<and> (k, r) \<in> members y (member_name prefix j) m))"
      by (cases ks) (auto simp: members_def at_path_Cons)
  next
    assume "(valid_name prefix \<and> k = prefix \<and> r = node) \<or>
      (y_is_map y node \<and> (\<exists>j m. (j, m) \<in> set (y_entries y node) \<and> (k, r) \<in> members y (member_name prefix j) m))"
    then show "(k, r) \<in> members y prefix node"
    proof
      assume "valid_name prefix \<and> k = prefix \<and> r = node"
      then show ?thesis by (auto simp: members_def intro!: exI [of _ "[]"])
    next
      assume "y_is_map y node \<and> (\<exists>j m. (j, m) \<in> set (y_entries y node) \<and> (k, r) \<in> members y (member_name prefix j) m)"
      then obtain j m ks where "y_is_map y node" "(j, m) \<in> set (y_entries y node)" "at_path y m ks r"
        "k = foldl member_name prefix (j # ks)" "valid_name k"
        by (auto simp: members_def)
      then show ?thesis unfolding members_def using at_path.below by fastforce
    qed
  qed
  moreover have "(k, r) \<in> members y (member_name prefix j) m \<Longrightarrow> valid_name prefix" for k r j m
    by (auto simp: members_def dest: valid_path valid_member)
  ultimately show ?thesis by auto
qed

lemma list_members_eq:
  assumes "\<And>e out. e \<in> set es \<Longrightarrow> \<exists>out'. into (member_name prefix (fst e)) (snd e) out = Some out' \<and>
      set out' = set out \<union> members y (member_name prefix (fst e)) (snd e)"
  shows "\<exists>out'. list_members into prefix es out = Some out' \<and>
      set out' = set out \<union> (\<Union>(k, m) \<in> set es. members y (member_name prefix k) m)"
  using assms
proof (induction es arbitrary: out)
  case (Cons e es)
  obtain o1 where o1: "into (member_name prefix (fst e)) (snd e) out = Some o1"
      "set o1 = set out \<union> members y (member_name prefix (fst e)) (snd e)"
    using Cons.prems [of e out] by auto
  obtain o2 where o2: "list_members into prefix es o1 = Some o2"
      "set o2 = set o1 \<union> (\<Union>(k, m) \<in> set es. members y (member_name prefix k) m)"
    using Cons.IH [of o1] Cons.prems by auto
  then show ?case using o1 by (cases e) auto
qed simp

lemma ListAllMember_members:
  assumes "\<And>ks r. at_path y node ks r \<Longrightarrow> length ks < n"
  shows "\<exists>out'. ListAllMember n y prefix node out = Some out' \<and> set out' = set out \<union> members y prefix node"
  using assms
proof (induction n arbitrary: prefix node out)
  case 0
  then show ?case using at_path.here by fastforce
next
  case (Suc n)
  show ?case
  proof (cases "valid_name prefix \<and> y_is_map y node")
    case True
    have "\<exists>out'. list_members (ListAllMember n y) prefix (y_entries y node) (out @ [(prefix, node)]) = Some out' \<and>
        set out' = set (out @ [(prefix, node)]) \<union> (\<Union>(k, m) \<in> set (y_entries y node). members y (member_name prefix k) m)"
    proof (rule list_members_eq)
      fix e o1 assume e: "e \<in> set (y_entries y node)"
      have "length ks < n" if "at_path y (snd e) ks r" for ks r
        using Suc.prems [OF at_path.below [of y node "fst e" "snd e"]] True e that by simp
      then show "\<exists>o2. ListAllMember n y (member_name prefix (fst e)) (snd e) o1 = Some o2 \<and>
          set o2 = set o1 \<union> members y (member_name prefix (fst e)) (snd e)"
        by (rule Suc.IH)
    qed
    then show ?thesis using True members_node [of y prefix node] by auto
  next
    case False
    then show ?thesis using members_node [of y prefix node] by auto
  qed
qed

text \<open>C17. In a tree that is not deeper than the bound, the nodes that are looked up are exactly those
  whose dotted name has only accepted characters. So a key with a capital, which \<^verbatim>\<open>LoadFromYaml\<close> means
  to convert to lower case, hides its whole subtree.\<close>

theorem members_exact:
  assumes "\<forall>ks r. at_path y root ks r \<longrightarrow> length ks < n"
  shows "\<exists>ms. ListAllMember n y '''' root [] = Some ms \<and>
    LoadFromYaml n conv y root s = Some (foldl (load_member conv y) s ms) \<and>
    (\<forall>k r. (k, r) \<in> set ms \<longleftrightarrow> (\<exists>ks. at_path y root ks r \<and> k = foldl member_name '''' ks \<and> valid_name k)) \<and>
    (\<forall>(k, r) \<in> set ms. map tolower k = k)"
proof -
  have "\<exists>out'. ListAllMember n y '''' root [] = Some out' \<and> set out' = set [] \<union> members y '''' root"
    by (rule ListAllMember_members) (use assms in blast)
  then obtain ms where ms: "ListAllMember n y '''' root [] = Some ms" "set ms = members y '''' root"
    by auto
  then show ?thesis
    by (auto simp: LoadFromYaml_def members_def dest: valid_name_lower)
qed

section \<open>The values that are loaded\<close>

text \<open>Only names that are valid are listed.\<close>

lemma ListAllMember_valid:
  "ListAllMember n y p node out = Some out' \<Longrightarrow> \<forall>i \<in> set out. valid_name (fst i) \<Longrightarrow> \<forall>i \<in> set out'. valid_name (fst i)"
proof (induction n arbitrary: p node out out')
  case (Suc n)
  have many: "list_members (ListAllMember n y) p es o1 = Some o2 \<Longrightarrow> \<forall>i \<in> set o1. valid_name (fst i) \<Longrightarrow>
      \<forall>i \<in> set o2. valid_name (fst i)" for es o1 o2
  proof (induction es arbitrary: o1)
    case (Cons e es)
    from Cons.prems(1) obtain o3 where "ListAllMember n y (member_name p (fst e)) (snd e) o1 = Some o3"
        "list_members (ListAllMember n y) p es o3 = Some o2"
      by (auto simp: bind_eq_Some_conv)
    then show ?case using Suc.IH Cons.IH Cons.prems(2) by blast
  qed simp
  show ?case
    using Suc.prems many [of "y_entries y node" "out @ [(p, node)]" out'] by (auto simp: Let_def split: if_splits)
qed simp

definition node_text :: "'n yaml_lib \<Rightarrow> 'n \<Rightarrow> string" where
  "node_text y r = (if y_is_scalar y r then y_scalar y r else y_dump y r)"

text \<open>The value after the conversions of some nodes, one after the other: those that fail change nothing.\<close>

definition last_value :: "('t, 'v) conversions \<Rightarrow> 'n yaml_lib \<Rightarrow> 't \<Rightarrow> 'v \<Rightarrow> 'n list \<Rightarrow> 'v" where
  "last_value conv y t v rs =
     foldl (\<lambda>v r. case from_str conv t (node_text y r) of Inl e \<Rightarrow> v | Inr v' \<Rightarrow> v') v rs"

definition quiet :: "('t, 'v, 'w) config_var \<Rightarrow> bool" where
  "quiet x \<longleftrightarrow> (\<forall>e \<in> set (cv_cbs x). \<forall>old new w. fst (snd e old new w))"

lemma notify_quiet:
  "\<forall>f \<in> set fs. \<forall>old new w. fst (f old new w) \<Longrightarrow> fst (notify fs old new w)"
proof (induction fs arbitrary: w)
  case (Cons f fs)
  obtain ok w1 where f: "f old new w = (ok, w1)" by fastforce
  have "fst (f old new w)" using Cons.prems by simp
  then show ?case using Cons f by simp
qed simp

lemma fromString_quiet:
  assumes "fromString conv s x w = (ok, x', w')" and "quiet x"
  shows "cv_val x' = (case from_str conv (cv_type x) s of Inl e \<Rightarrow> cv_val x | Inr v \<Rightarrow> v)"
proof (cases "from_str conv (cv_type x) s")
  case (Inl e)
  then show ?thesis using assms(1) by (simp add: fromString_def)
next
  case (Inr v)
  obtain o1 u where n: "notify (map snd (cv_cbs x)) (cv_val x) v w = (o1, u)" by fastforce
  have "fst (notify (map snd (cv_cbs x)) (cv_val x) v w)"
    using assms(2) by (intro notify_quiet) (simp add: quiet_def)
  then show ?thesis
    using assms(1) n Inr by (auto simp: fromString_def setValue_def split: if_splits)
qed

lemma load_member_value:
  assumes inv: "config_inv c" and p: "datas c name = Some p" "name \<noteq> ''''" "quiet (vars c p)"
    and i: "map tolower (fst i) = fst i" and m: "load_member conv y (c, w) i = (c', w')"
  shows "cv_val (vars c' p) = last_value conv y (cv_type (vars c p)) (cv_val (vars c p)) (if fst i = name then [snd i] else []) \<and>
    datas c' = datas c \<and> cv_type (vars c' p) = cv_type (vars c p) \<and> quiet (vars c' p)"
proof (cases "fst i = '''' \<or> datas c (fst i) = None")
  case True
  have no: "LookupBase (map tolower (fst i)) c = None" if "fst i \<noteq> ''''"
    using True that i by (simp add: LookupBase_def)
  have "c' = c"
  proof (cases "fst i = ''''")
    case False
    then show ?thesis using m no by (simp add: load_member_def)
  qed (use m in \<open>simp add: load_member_def\<close>)
  then show ?thesis using True p by (auto simp: last_value_def)
next
  case False
  then obtain q where q: "datas c (fst i) = Some q" "fst i \<noteq> ''''" by auto
  obtain ok x w1 where f: "fromString conv (node_text y (snd i)) (vars c q) w = (ok, x, w1)" by (metis prod_cases3)
  have c': "c' = c\<lparr>vars := (vars c)(q := x)\<rparr>"
    using m q i f by (simp add: load_member_def LookupBase_def node_text_def)
  have "fst i = name" if "q = p"
    using inv p(1) q(1) that unfolding config_inv_def by metis
  then have "q = p \<longleftrightarrow> fst i = name" using p(1) q(1) by auto
  then show ?thesis
    using fromString_frame [OF f] fromString_quiet [OF f] p(3)
    by (auto simp: c' last_value_def quiet_def)
qed

lemma load_members_value:
  assumes "config_inv c" and "datas c name = Some p" "name \<noteq> ''''" "quiet (vars c p)"
    and "\<forall>i \<in> set ms. map tolower (fst i) = fst i" and "foldl (load_member conv y) (c, w) ms = (c', w')"
  shows "cv_val (vars c' p) =
      last_value conv y (cv_type (vars c p)) (cv_val (vars c p)) (map snd (filter (\<lambda>i. fst i = name) ms)) \<and>
    datas c' = datas c \<and> cv_type (vars c' p) = cv_type (vars c p) \<and> quiet (vars c' p)"
  using assms
proof (induction ms arbitrary: c w)
  case (Cons i ms)
  obtain c1 w1 where m: "load_member conv y (c, w) i = (c1, w1)" by fastforce
  have i: "map tolower (fst i) = fst i" using Cons.prems(5) by simp
  note one = load_member_value [OF Cons.prems(1-4) i m]
  have inv1: "config_inv c1" using load_member_inv [of "(c, w)" conv y i] Cons.prems(1) m by simp
  have "cv_val (vars c' p) =
      last_value conv y (cv_type (vars c1 p)) (cv_val (vars c1 p)) (map snd (filter (\<lambda>i. fst i = name) ms)) \<and>
    datas c' = datas c1 \<and> cv_type (vars c' p) = cv_type (vars c1 p) \<and> quiet (vars c' p)"
    using Cons.prems(5,6) m one Cons.prems(2)
    by (intro Cons.IH [OF inv1 _ Cons.prems(3)]) simp_all
  then show ?case using one by (simp add: last_value_def)
qed (simp add: last_value_def)

lemma load_yaml_value:
  assumes inv: "config_inv c" and p: "datas c name = Some p" "name \<noteq> ''''" "quiet (vars c p)"
    and depth: "\<forall>ks r. at_path y root ks r \<longrightarrow> length ks < n"
  shows "\<exists>ms c' w'. ListAllMember n y '''' root [] = Some ms \<and> LoadFromYaml n conv y root (c, w) = Some (c', w') \<and>
    cv_val (vars c' p) =
      last_value conv y (cv_type (vars c p)) (cv_val (vars c p)) (map snd (filter (\<lambda>i. fst i = name) ms)) \<and>
    datas c' = datas c \<and> cv_type (vars c' p) = cv_type (vars c p) \<and> set ms = members y '''' root"
proof -
  have "\<exists>out'. ListAllMember n y '''' root [] = Some out' \<and> set out' = set [] \<union> members y '''' root"
    by (rule ListAllMember_members) (use depth in blast)
  then obtain ms where ms: "ListAllMember n y '''' root [] = Some ms" "set ms = members y '''' root" by auto
  have "\<forall>i \<in> set ms. map tolower (fst i) = fst i"
    using ListAllMember_valid [OF ms(1)] valid_name_lower by auto
  moreover obtain c' w' where f: "foldl (load_member conv y) (c, w) ms = (c', w')" by fastforce
  ultimately show ?thesis
    using load_members_value [OF inv p, of ms conv y w c' w'] ms by (simp add: LoadFromYaml_def)
qed

lemma last_value_all:
  assumes "\<forall>r \<in> set rs. from_str conv t (node_text y r) = Inr v" and "rs \<noteq> []"
  shows "last_value conv y t v0 rs = v"
proof -
  have "foldl (\<lambda>v r. case from_str conv t (node_text y r) of Inl e \<Rightarrow> v | Inr v' \<Rightarrow> v') v rs = v"
    if "\<forall>r \<in> set rs. from_str conv t (node_text y r) = Inr v" for rs
    using that by (induction rs) auto
  then show ?thesis using assms by (cases rs) (auto simp: last_value_def)
qed

text \<open>C18. Loading a tree gives a registered variable the value of the last node with its dotted name
  that its type can convert, in the order of the tree, and leaves it as it was when there is none; a
  node that fails to convert is passed over. The registry stays the same. (The listeners of the
  variable do not throw; a tree may have several nodes of one name, as keys may contain dots.)\<close>

theorem loaded_value:
  assumes "(cfg_step conv y)\<^sup>*\<^sup>* (c0, w0) (c, w)" and "datas c0 = Map.empty" and "datas c name = Some p" "name \<noteq> ''''"
    and "quiet (vars c p)" and "\<forall>ks r. at_path y root ks r \<longrightarrow> length ks < n"
  shows "\<exists>ms c' w'. ListAllMember n y '''' root [] = Some ms \<and> LoadFromYaml n conv y root (c, w) = Some (c', w') \<and>
    cv_val (vars c' p) =
      last_value conv y (cv_type (vars c p)) (cv_val (vars c p)) (map snd (filter (\<lambda>i. fst i = name) ms)) \<and>
    datas c' = datas c"
proof -
  have "config_inv c" using cfg_reach_inv [OF assms(1)] assms(2) by (simp add: config_inv_def)
  from load_yaml_value [OF this assms(3-6)] show ?thesis by blast
qed

section \<open>Loading a directory\<close>

lemma load_one_memo:
  assumes "load_one n conv y lf fs force i (m, c, w) = Some (m', c', w')"
  shows "m' i = lstat_mtime fs (cstr i) w \<and> (\<forall>j. j \<noteq> i \<longrightarrow> m' j = m j)"
  using assms by (auto simp: load_one_def Let_def split: if_splits sum.splits)

lemma load_files_memo:
  assumes "load_files n conv y lf fs force is (m, c, w) = Some (m', c', w')"
    and "\<And>i v. lstat_mtime fs i v = t i"
  shows "\<forall>j. m' j = (if j \<in> set is then t (cstr j) else m j)"
  using assms(1)
proof (induction "is" arbitrary: m c w)
  case (Cons i "is")
  obtain m1 c1 w1 where l: "load_one n conv y lf fs force i (m, c, w) = Some (m1, c1, w1)"
    using Cons.prems by (auto simp: bind_eq_Some_conv)
  then have "load_files n conv y lf fs force is (m1, c1, w1) = Some (m', c', w')"
    using Cons.prems by simp
  from Cons.IH [OF this] load_one_memo [OF l] show ?case by (auto simp: assms(2))
qed simp

lemma load_files_skip:
  assumes "\<forall>j \<in> set is. m j = lstat_mtime fs (cstr j) w"
  shows "load_files n conv y lf fs False is (m, c, w) = Some (m, c, w)"
  using assms by (induction "is") (auto simp: load_one_def)

text \<open>When loading a directory neither changes the files nor their times, loading it again without
  \<open>force\<close> changes nothing at all: no file is read, in particular none that did not parse the first
  time.\<close>

theorem reload_nothing:
  assumes "LoadFromConfDir n conv y lf fs e path force (m, c, w) = Some (m', c', w')"
    and "\<And>i v. lstat_mtime fs i v = t i"
    and "ListAllFile fs w' ''.yml'' n [] (getAbsolutePath path e) = ListAllFile fs w ''.yml'' n [] (getAbsolutePath path e)"
  shows "LoadFromConfDir n conv y lf fs e path False (m', c', w') = Some (m', c', w')"
proof -
  obtain files where f: "ListAllFile fs w ''.yml'' n [] (getAbsolutePath path e) = Some files"
    and l: "load_files n conv y lf fs force files (m, c, w) = Some (m', c', w')"
    using assms(1) by (auto simp: LoadFromConfDir_def bind_eq_Some_conv)
  have "\<forall>j \<in> set files. m' j = lstat_mtime fs (cstr j) w'"
    using load_files_memo [OF l assms(2)] by (simp add: assms(2))
  from load_files_skip [OF this] show ?thesis
    using f assms(3) by (simp add: LoadFromConfDir_def)
qed

section \<open>The command line\<close>

text \<open>An option with its value, if it has one, as it is written.\<close>

fun write_option :: "string \<times> string option \<Rightarrow> string list" where
  "write_option (k, None) = [CHR ''-'' # k]"
| "write_option (k, Some v) = [CHR ''-'' # k, v]"

definition writable :: "string \<times> string option \<Rightarrow> bool" where
  "writable p \<longleftrightarrow> fst p \<noteq> '''' \<and> (\<forall>v. snd p = Some v \<longrightarrow> v = '''' \<or> hd v \<noteq> CHR ''-'')"

definition value_of :: "string \<times> string option \<Rightarrow> string" where
  "value_of p = (case snd p of None \<Rightarrow> '''' | Some v \<Rightarrow> v)"

definition add_all :: "(string \<times> string option) list \<Rightarrow> environment \<Rightarrow> environment" where
  "add_all ps e = foldl (\<lambda>e p. env_add (fst p) (value_of p) e) e ps"

lemma init_args_written:
  assumes "\<forall>p \<in> set ps. writable p"
  shows "init_args (concat (map write_option ps)) None e = (True, add_all ps e) \<and>
    (k \<noteq> '''' \<longrightarrow> init_args (concat (map write_option ps)) (Some k) e = (True, add_all ((k, None) # ps) e))"
  using assms
proof (induction ps arbitrary: e k)
  case Nil
  then show ?case by (simp add: add_all_def value_of_def)
next
  case (Cons p ps)
  obtain j v where p: "p = (j, v)" by fastforce
  have j: "j \<noteq> ''''" using Cons.prems p by (simp add: writable_def)
  have w: "\<forall>p \<in> set ps. writable p" using Cons.prems by simp
  show ?case
  proof (cases v)
    case None
    have "init_args (concat (map write_option ps)) (Some j) e' = (True, add_all ((j, None) # ps) e')" for e'
      using Cons.IH [OF w] j by blast
    then show ?thesis using p None j by (simp add: add_all_def value_of_def)
  next
    case (Some x)
    have "init_args (concat (map write_option ps)) None e' = (True, add_all ps e')" for e'
      using Cons.IH [OF w] by blast
    moreover have "x = '''' \<or> hd x \<noteq> CHR ''-''" using Cons.prems p Some by (simp add: writable_def)
    ultimately show ?thesis using p Some j by (auto simp: add_all_def value_of_def)
  qed
qed

lemma add_all_args: "m_args (add_all ps e) = m_args e ++ map_of (rev (map (\<lambda>p. (fst p, value_of p)) ps))"
  by (induction ps arbitrary: e) (auto simp: add_all_def env_add_def)

lemma add_all_rest: "m_helps (add_all ps e) = m_helps e" "m_program (add_all ps e) = m_program e"
  "m_exe (add_all ps e) = m_exe e" "m_cwd (add_all ps e) = m_cwd e"
  by (induction ps arbitrary: e) (auto simp: add_all_def env_add_def)

text \<open>C36. A command line written from options with names, each with a value that does not begin with a
  dash or without one, is read back: every name has the last value written for it, the empty one when
  it was written without, and the other names have none; the program and its directory are kept.\<close>

theorem command_line_roundtrip:
  assumes "\<forall>p \<in> set ps. writable p" and "length exe < 1024" and "m_args e = Map.empty"
  shows "\<exists>e'. env_init exe (prog # concat (map write_option ps)) e = Some (True, e') \<and>
    m_args e' = map_of (rev (map (\<lambda>p. (fst p, value_of p)) ps)) \<and> m_program e' = prog \<and> m_exe e' = exe \<and>
    (CHR ''/'' \<in> set exe \<longrightarrow> exe = m_cwd e' @ Basename exe) \<and>
    (\<forall>path. path \<noteq> '''' \<and> hd path \<noteq> CHR ''/'' \<longrightarrow> getAbsolutePath path e' = m_cwd e' @ path)"
proof -
  let ?e = "e\<lparr>m_exe := exe, m_cwd := (case rfind CHR ''/'' exe of None \<Rightarrow> exe | Some pos \<Rightarrow> take pos exe) @ ''/'',
      m_program := prog\<rparr>"
  have "exe = m_cwd ?e @ Basename exe" if "CHR ''/'' \<in> set exe"
  proof (cases rule: rfind_cases [of "CHR ''/''" exe])
    case (2 s t)
    then show ?thesis by (auto simp: Basename_def)
  qed (use that in simp)
  moreover have "env_init exe (prog # concat (map write_option ps)) e = Some (True, add_all ps ?e)"
    using init_args_written [OF assms(1), of ?e] assms(2) by (simp add: env_init_def)
  ultimately show ?thesis
    using assms(3) add_all_args [of ps ?e] add_all_rest [of ps ?e] by (auto simp: getAbsolutePath_def)
qed

section \<open>Examples\<close>

definition no_config :: "(unit, string, 'w) config" where
  "no_config = \<lparr>datas = Map.empty, vars = (\<lambda>_. ConfigVar () '''' '''' ''''), next_var = 0\<rparr>"

definition texts :: "(unit, string) conversions" where
  "texts = \<lparr>from_str = \<lambda>_. Inr, to_str = \<lambda>_. Inr\<rparr>"


lemma registry_invariant_witness:
  "\<exists>c. Config_Lookup () ''server.port'' ''80'' '''' (no_config :: (unit, string, unit) config) = Inr (Some 0, c) \<and>
     Config_Lookup () ''server.port'' ''443'' '''' c = Inr (Some 0, c) \<and> map tolower ''server.port'' = ''server.port''"
proof -
  let ?c0 = "no_config :: (unit, string, unit) config"
  obtain c where l: "Config_Lookup () ''server.port'' ''80'' '''' ?c0 = Inr (Some 0, c)" "datas c ''server.port'' = Some 0"
    by (simp add: Config_Lookup_def no_config_def valid_name_def name_chars_def)
  have reach: "(cfg_step texts a_yaml)\<^sup>*\<^sup>* (?c0, ()) (c, ())"
    by (rule r_into_rtranclp, rule cfg_step.Creates, rule l)
  have "datas ?c0 = Map.empty" by (simp add: no_config_def)
  note r = registry_invariant [OF reach this l(2), of "()" "''443''" "''''"]
  have "Config_Lookup () ''server.port'' ''443'' '''' c = Inr (if () = cv_type (vars c 0) then Some 0 else None, c)"
    by (rule r [THEN conjunct2, THEN conjunct2, THEN conjunct2, THEN conjunct2, THEN conjunct2, rule_format])
      (rule rtranclp.rtrancl_refl)
  then have look: "Config_Lookup () ''server.port'' ''443'' '''' c = Inr (Some 0, c)" by simp
  show ?thesis
    by (intro exI [of _ c] conjI) (rule l(1), rule look, rule r [THEN conjunct2, THEN conjunct2, THEN conjunct1])
qed

lemma a_yaml_facts [simp]: "y_is_map a_yaml ns = (ns = [''{k: v}''])" "y_entries a_yaml ns = [(''k'', [''v''])]"
  by (simp_all add: a_yaml_def)

lemma a_yaml_depth: "\<forall>ks r. at_path a_yaml [''{k: v}''] ks r \<longrightarrow> length ks < 2"
proof -
  have leaf: "at_path a_yaml [''v''] ks r \<Longrightarrow> ks = [] \<and> r = [''v'']" for ks r
    by (cases ks) (auto simp: at_path_Cons)
  have "length ks < 2" if "at_path a_yaml [''{k: v}''] ks r" for ks r
    using that by (cases ks) (auto simp: at_path_Cons dest: leaf)
  then show ?thesis by blast
qed

lemma members_exact_witness:
  "\<exists>ms. ListAllMember 2 a_yaml '''' [''{k: v}''] [] = Some ms \<and> (''k'', [''v'']) \<in> set ms"
proof -
  from members_exact [OF a_yaml_depth] obtain ms where ms: "ListAllMember 2 a_yaml '''' [''{k: v}''] [] = Some ms"
    "\<forall>k r. (k, r) \<in> set ms \<longleftrightarrow> (\<exists>ks. at_path a_yaml [''{k: v}''] ks r \<and> k = foldl member_name '''' ks \<and> valid_name k)"
    by blast
  have "at_path a_yaml [''{k: v}''] [''k''] [''v'']"
    by (simp add: at_path_Cons)
  then have "(''k'', [''v'']) \<in> set ms"
    using ms(2) by (auto simp: member_name_def valid_name_def name_chars_def intro!: exI [of _ "[''k'']"])
  then show ?thesis using ms(1) by blast
qed

lemma loaded_value_witness:
  "\<exists>c c' w'. Config_Lookup () ''k'' ''old'' '''' (no_config :: (unit, string, unit) config) = Inr (Some 0, c) \<and>
     LoadFromYaml 2 texts a_yaml [''{k: v}''] (c, ()) = Some (c', w') \<and> cv_val (vars c' 0) = ''v''"
proof -
  let ?c0 = "no_config :: (unit, string, unit) config"
  obtain c where l: "Config_Lookup () ''k'' ''old'' '''' ?c0 = Inr (Some 0, c)" "datas c ''k'' = Some 0" "quiet (vars c 0)"
    by (simp add: Config_Lookup_def no_config_def valid_name_def name_chars_def ConfigVar_def quiet_def)
  have reach: "(cfg_step texts a_yaml)\<^sup>*\<^sup>* (?c0, ()) (c, ())"
    by (rule r_into_rtranclp, rule cfg_step.Creates, rule l)
  have "datas ?c0 = Map.empty" by (simp add: no_config_def)
  from loaded_value [OF reach this l(2) _ l(3) a_yaml_depth]
  obtain ms c' w' where r: "ListAllMember 2 a_yaml '''' [''{k: v}''] [] = Some ms"
    "LoadFromYaml 2 texts a_yaml [''{k: v}''] (c, ()) = Some (c', w')"
    "cv_val (vars c' 0) = last_value texts a_yaml (cv_type (vars c 0)) (cv_val (vars c 0)) (map snd (filter (\<lambda>i. fst i = ''k'') ms))"
    by auto
  have "ListAllMember 2 a_yaml '''' [''{k: v}''] [] = Some [('''', [''{k: v}'']), (''k'', [''v''])]"
    by (simp add: numeral_2_eq_2 member_name_def valid_name_def name_chars_def)
  then have ms: "ms = [('''', [''{k: v}'']), (''k'', [''v''])]" using r(1) by simp
  have "node_text a_yaml [''v''] = ''v''" by (simp add: node_text_def a_yaml_def)
  then have "cv_val (vars c' 0) = ''v''"
    using r(3) unfolding ms by (simp add: last_value_def texts_def)
  then show ?thesis using l(1) r(2) by blast
qed

lemma reload_nothing_witness:
  "\<exists>m' c'. LoadFromConfDir 2 texts a_yaml (\<lambda>i w. Inl Yaml_failed) a_fs
       \<lparr>m_args = Map.empty, m_helps = [], m_program = ''p'', m_exe = ''p'', m_cwd = ''''\<rparr> ''conf'' False
       (\<lambda>_. 1, no_config, [''conf'', ''conf/sub'']) = Some (m', c', [''conf'', ''conf/sub'']) \<and>
     LoadFromConfDir 2 texts a_yaml (\<lambda>i w. Inl Yaml_failed) a_fs
       \<lparr>m_args = Map.empty, m_helps = [], m_program = ''p'', m_exe = ''p'', m_cwd = ''''\<rparr> ''conf'' False
       (m', c', [''conf'', ''conf/sub'']) = Some (m', c', [''conf'', ''conf/sub''])"
proof -
  let ?e = "\<lparr>m_args = Map.empty, m_helps = [], m_program = ''p'', m_exe = ''p'', m_cwd = ''''\<rparr>"
  let ?w = "[''conf'', ''conf/sub'']"
  have abs: "getAbsolutePath ''conf'' ?e = ''conf''" by (simp add: getAbsolutePath_def)
  have files: "ListAllFile a_fs ?w ''.yml'' 2 [] ''conf'' = Some [''conf/a.yml'', ''conf/sub/c.yml'']"
    by (simp add: numeral_2_eq_2 a_fs_def cstr_def has_subfix_def)
  have "lstat_mtime a_fs i v = 0" for i v by (simp add: a_fs_def)
  note t = this
  obtain m' c' where l: "LoadFromConfDir 2 texts a_yaml (\<lambda>i w. Inl Yaml_failed) a_fs ?e ''conf'' False (\<lambda>_. 1, no_config, ?w) =
      Some (m', c', ?w)"
    by (simp add: LoadFromConfDir_def abs files load_one_def t)
  from reload_nothing [OF l t refl] show ?thesis using l by blast
qed

lemma command_line_roundtrip_witness:
  "\<exists>e'. env_init ''/usr/bin/srv'' [''srv'', ''-c'', ''conf'', ''-d''] \<lparr>m_args = Map.empty, m_helps = [], m_program = '''', m_exe = '''', m_cwd = ''''\<rparr> =
     Some (True, e') \<and> m_args e' = [''d'' \<mapsto> '''', ''c'' \<mapsto> ''conf''] \<and> m_cwd e' = ''/usr/bin/''"
proof -
  let ?e = "\<lparr>m_args = Map.empty, m_helps = [], m_program = '''', m_exe = '''', m_cwd = ''''\<rparr>"
  let ?ps = "[(''c'', Some ''conf''), (''d'', None)]"
  have "\<forall>p \<in> set ?ps. writable p" by (simp add: writable_def)
  from command_line_roundtrip [OF this, of "''/usr/bin/srv''" ?e "''srv''"] obtain e'
    where e': "env_init ''/usr/bin/srv'' [''srv'', ''-c'', ''conf'', ''-d''] ?e = Some (True, e')"
      "m_args e' = [''c'' \<mapsto> ''conf'', ''d'' \<mapsto> '''']" "''/usr/bin/srv'' = m_cwd e' @ Basename ''/usr/bin/srv''"
    by (auto simp: value_of_def)
  then have "m_cwd e' = ''/usr/bin/''" by (simp add: Basename_def rfind_def)
  then show ?thesis using e' by (auto simp: fun_upd_twist)
qed

end
