(* ===== verification/Concurrent_Vector.thy ===== *)
theory Concurrent_Vector
  imports Prelude
begin

text \<open>
  \<^verbatim>\<open>src/src/util/ConcurrentVector.h\<close>: a vector whose elements are guarded by a few mutexes. An
  operation is one step, as its mutex makes it; the list \<open>m_mtx\<close> says which of the mutex pointers are
  set. Sizes are \<^verbatim>\<open>size_t\<close>: natural numbers, with the one product that can wrap taken modulo \<open>2 ^ 64\<close>.
\<close>

section \<open>State and operations\<close>

datatype cvec_error = Out_of_range | Null_mutex | Past_the_end | Assertion_failed

record 'a cvec =
  cv_size :: nat
  m_granu :: nat
  m_mtx_size :: nat
  m_vector :: "'a list"
  m_mtx :: "bool list"

text \<open>The constructor reserves memory, but makes no elements.\<close>

definition ConcurrentVector :: "nat \<Rightarrow> nat \<Rightarrow> cvec_error + 'a cvec" where
  "ConcurrentVector sz granu =
     (if granu = 0 then Inl Assertion_failed
      else let n = (if 8 < sz div granu then sz div granu else 8)
           in Inr \<lparr>cv_size = sz, m_granu = granu, m_mtx_size = n, m_vector = [], m_mtx = replicate n True\<rparr>)"

text \<open>\<^verbatim>\<open>std::hash<int>\<close> of a \<^verbatim>\<open>size_t\<close>: cut to 32 bits, and extended with its sign.\<close>

definition hash_int :: "nat \<Rightarrow> nat" where
  "hash_int i = nat (sint (word_of_nat i :: u32) mod 2 ^ 64)"

definition lock_mutex :: "nat \<Rightarrow> 'a cvec \<Rightarrow> cvec_error + unit" where
  "lock_mutex i s =
     (let mtx_idx = hash_int i mod m_mtx_size s
      in if \<not> mtx_idx < length (m_mtx s) then Inl Past_the_end
         else if m_mtx s ! mtx_idx then Inr () else Inl Null_mutex)"

definition cvec_get :: "nat \<Rightarrow> 'a cvec \<Rightarrow> cvec_error + 'a" where
  "cvec_get index s =
     (if cv_size s \<le> index then Inl Out_of_range
      else rbind (lock_mutex index s) (\<lambda>_.
        if index < length (m_vector s) then Inr (m_vector s ! index) else Inl Past_the_end))"

definition cvec_set :: "nat \<Rightarrow> 'a \<Rightarrow> 'a cvec \<Rightarrow> cvec_error + 'a cvec" where
  "cvec_set index val s =
     (if cv_size s \<le> index then Inl Out_of_range
      else rbind (lock_mutex index s) (\<lambda>_.
        if index < length (m_vector s) then Inr (s\<lparr>m_vector := (m_vector s)[index := val]\<rparr>) else Inl Past_the_end))"

text \<open>A mutex pointer is appended, but no mutex.\<close>

definition check_mtx :: "'a cvec \<Rightarrow> 'a cvec" where
  "check_mtx s =
     (let load = (m_mtx_size s * m_granu s) mod 2 ^ 64
      in if load < cv_size s then s\<lparr>m_mtx := m_mtx s @ [False], m_mtx_size := Suc (m_mtx_size s)\<rparr> else s)"

definition cvec_push_back :: "'a \<Rightarrow> 'a cvec \<Rightarrow> cvec_error + 'a cvec" where
  "cvec_push_back val s =
     (let s1 = check_mtx (s\<lparr>cv_size := Suc (cv_size s)\<rparr>)
      in rbind (lock_mutex (cv_size s1) s1) (\<lambda>_. Inr (s1\<lparr>m_vector := m_vector s1 @ [val]\<rparr>)))"

text \<open>Many of them, one after the other.\<close>

primrec push_all :: "'a list \<Rightarrow> 'a cvec \<Rightarrow> cvec_error + 'a cvec" where
  "push_all [] s = Inr s"
| "push_all (x # xs) s = rbind (cvec_push_back x s) (push_all xs)"

section \<open>Properties\<close>

lemma hash_int_small: "i < 2 ^ 31 \<Longrightarrow> hash_int i = i"
proof -
  assume i: "i < 2 ^ 31"
  then have "sint (word_of_nat i :: u32) = int i"
    by (simp add: sint_uint unsigned_of_nat take_bit_nat_eq_self signed_take_bit_int_eq_self)
  then show ?thesis using i by (simp add: hash_int_def)
qed

lemma push_all_append: "push_all (xs @ ys) s = rbind (push_all xs s) (push_all ys)"
proof (induction xs arbitrary: s)
  case (Cons x xs)
  then have "push_all (xs @ ys) = (\<lambda>s. rbind (push_all xs s) (push_all ys))" by (intro ext)
  then show ?case by (simp add: rbind_assoc)
qed simp

text \<open>While the eight mutexes of the beginning are enough, pushing and reading work as in a vector.\<close>

definition grown :: "nat \<Rightarrow> 'a list \<Rightarrow> 'a cvec" where
  "grown g xs = \<lparr>cv_size = length xs, m_granu = g, m_mtx_size = 8, m_vector = xs, m_mtx = replicate 8 True\<rparr>"

lemma grown_new: "0 < g \<Longrightarrow> ConcurrentVector 0 g = Inr (grown g [])"
  by (simp add: ConcurrentVector_def grown_def)

lemma lock_grown: "lock_mutex i (grown g xs) = Inr ()"
  by (simp add: lock_mutex_def grown_def)

lemma push_grown:
  assumes "Suc (length xs) \<le> 8 * g" and "8 * g < 2 ^ 64"
  shows "cvec_push_back x (grown g xs) = Inr (grown g (xs @ [x]))"
proof -
  have s1: "check_mtx ((grown g xs)\<lparr>cv_size := Suc (length xs)\<rparr>) = (grown g xs)\<lparr>cv_size := Suc (length xs)\<rparr>"
    using assms by (simp add: check_mtx_def grown_def)
  have "lock_mutex i ((grown g xs)\<lparr>cv_size := k\<rparr>) = Inr ()" for i k
    by (simp add: lock_mutex_def grown_def)
  then show ?thesis
    using s1 by (simp add: cvec_push_back_def grown_def)
qed

lemma push_all_grown:
  assumes "length xs + length ys \<le> 8 * g" and "8 * g < 2 ^ 64"
  shows "push_all ys (grown g xs) = Inr (grown g (xs @ ys))"
  using assms
proof (induction ys arbitrary: xs)
  case (Cons y ys)
  then show ?case using push_grown [of xs g y] by simp
qed simp

text \<open>Beyond that, there is a ninth pointer without a mutex.\<close>

definition overgrown :: "nat \<Rightarrow> 'a list \<Rightarrow> 'a cvec" where
  "overgrown g xs = \<lparr>cv_size = length xs, m_granu = g, m_mtx_size = 9, m_vector = xs, m_mtx = replicate 8 True @ [False]\<rparr>"

lemma lock_nine:
  assumes "m_mtx s = replicate 8 True @ [False]" and "m_mtx_size s = 9"
  shows "lock_mutex i s = (if hash_int i mod 9 = 8 then Inl Null_mutex else Inr ())"
proof -
  have "hash_int i mod 9 < 8 \<or> hash_int i mod 9 = 8" by linarith
  then show ?thesis
    using assms by (auto simp: lock_mutex_def nth_append simp del: replicate.simps)
qed

lemma push_first_overgrown:
  assumes "length xs = 8 * g" and "8 * g < 2 ^ 31 - 1"
  shows "cvec_push_back x (grown g xs) =
    (if Suc (8 * g) mod 9 = 8 then Inl Null_mutex else Inr (overgrown g (xs @ [x])))"
proof -
  have "hash_int (Suc (8 * g)) = Suc (8 * g)" using assms(2) by (intro hash_int_small) simp
  moreover have "check_mtx ((grown g xs)\<lparr>cv_size := Suc (8 * g)\<rparr>) = (overgrown g xs)\<lparr>cv_size := Suc (8 * g)\<rparr>"
    using assms by (simp add: check_mtx_def grown_def overgrown_def)
  ultimately show ?thesis
    using assms by (simp add: cvec_push_back_def grown_def [of g xs] lock_nine overgrown_def)
qed

lemma push_overgrown:
  assumes "Suc (length xs) \<le> 9 * g" and "9 * g < 2 ^ 31"
  shows "cvec_push_back x (overgrown g xs) =
    (if Suc (length xs) mod 9 = 8 then Inl Null_mutex else Inr (overgrown g (xs @ [x])))"
proof -
  have "hash_int (Suc (length xs)) = Suc (length xs)" using assms by (intro hash_int_small) simp
  moreover have "check_mtx ((overgrown g xs)\<lparr>cv_size := Suc (length xs)\<rparr>) = (overgrown g xs)\<lparr>cv_size := Suc (length xs)\<rparr>"
    using assms by (simp add: check_mtx_def overgrown_def)
  ultimately show ?thesis
    using assms by (simp add: cvec_push_back_def lock_nine overgrown_def)
qed

lemma push_all_overgrown:
  assumes "length xs + length ys \<le> 9 * g" and "9 * g < 2 ^ 31" and "\<forall>k < length ys. (Suc (length xs) + k) mod 9 \<noteq> 8"
  shows "push_all ys (overgrown g xs) = Inr (overgrown g (xs @ ys))"
  using assms
proof (induction ys arbitrary: xs)
  case (Cons y ys)
  have "\<forall>k < length ys. (Suc (length (xs @ [y])) + k) mod 9 \<noteq> 8"
  proof safe
    fix k assume "k < length ys" "(Suc (length (xs @ [y])) + k) mod 9 = 8"
    then show False using Cons.prems(3) by (auto dest!: spec [of _ "Suc k"])
  qed
  then have "push_all ys (overgrown g (xs @ [y])) = Inr (overgrown g ((xs @ [y]) @ ys))"
    using Cons.IH [of "xs @ [y]"] Cons.prems(1,2) by simp
  moreover have "Suc (length xs) mod 9 \<noteq> 8" using Cons.prems(3) by (auto dest!: spec [of _ 0])
  ultimately show ?case using push_overgrown [of xs g y] Cons.prems(1,2) by simp
qed simp

text \<open>C33. An empty vector with granularity \<open>g\<close> takes 8 times \<open>g\<close> elements and gives each of them back at its
  index. The next mutex is a null pointer, so with the default granularity of 16 the element number
  134 dereferences it. A vector made with a size has no elements: every index below the size is
  accepted and reads past the end.\<close>

theorem vector_growth:
  assumes "0 < g" and "8 * g < 2 ^ 31" and "length xs \<le> 8 * g" and "length ys = 133" and "0 < n" and "i < n" and "i < 2 ^ 31"
  shows "(\<exists>s. rbind (ConcurrentVector 0 g) (push_all xs) = Inr s \<and> cv_size s = length xs \<and>
      (\<forall>j < length xs. cvec_get j s = Inr (xs ! j)) \<and> (\<forall>j \<ge> length xs. cvec_get j s = Inl Out_of_range)) \<and>
    (\<exists>s. rbind (ConcurrentVector 0 16) (push_all ys) = Inr s \<and> cvec_push_back y s = Inl Null_mutex) \<and>
    rbind (ConcurrentVector n g) (cvec_get i) = (Inl Past_the_end :: cvec_error + 'a)"
proof -
  have "rbind (ConcurrentVector 0 g) (push_all xs) = Inr (grown g xs)"
    using assms push_all_grown [of "[]" xs g] by (simp add: grown_new)
  moreover have "cvec_get j (grown g xs) = (if j < length xs then Inr (xs ! j) else Inl Out_of_range)" for j
    by (simp add: cvec_get_def lock_grown) (simp add: grown_def)
  ultimately have one: "\<exists>s. rbind (ConcurrentVector 0 g) (push_all xs) = Inr s \<and> cv_size s = length xs \<and>
      (\<forall>j < length xs. cvec_get j s = Inr (xs ! j)) \<and> (\<forall>j \<ge> length xs. cvec_get j s = Inl Out_of_range)"
    by (auto simp: grown_def)
  define as b bs where "as = take 128 ys" and "b = ys ! 128" and "bs = drop 129 ys"
  have ys: "ys = as @ b # bs" "length as = 128" "length bs = 4"
    using assms(4) id_take_nth_drop [of 128 ys] by (simp_all add: as_def b_def bs_def)
  have "push_all as (grown 16 []) = Inr (grown 16 as)"
    using push_all_grown [of "[]" as 16] ys by simp
  moreover have "cvec_push_back b (grown 16 as) = Inr (overgrown 16 (as @ [b]))"
    using push_first_overgrown [of as 16 b] ys by simp
  moreover have "push_all bs (overgrown 16 (as @ [b])) = Inr (overgrown 16 ((as @ [b]) @ bs))"
  proof (rule push_all_overgrown)
    have "(130 + k) mod 9 \<noteq> 8" if "k < 4" for k :: nat using that by presburger
    then show "\<forall>k < length bs. (Suc (length (as @ [b])) + k) mod 9 \<noteq> 8" using ys by simp
  qed (use ys in simp_all)
  moreover have "cvec_push_back y (overgrown 16 ((as @ [b]) @ bs)) = Inl Null_mutex"
    using push_overgrown [of "(as @ [b]) @ bs" 16 y] ys by simp
  ultimately have two: "\<exists>s. rbind (ConcurrentVector 0 16) (push_all ys) = Inr s \<and> cvec_push_back y s = Inl Null_mutex"
    by (simp add: ys(1) push_all_append grown_new)
  have "rbind (ConcurrentVector n g) (cvec_get i) = (Inl Past_the_end :: cvec_error + 'a)"
    using assms(1,6) by (auto simp: ConcurrentVector_def cvec_get_def lock_mutex_def Let_def)
  then show ?thesis using one two by blast
qed

lemma vector_growth_witness:
  "\<exists>s. rbind (ConcurrentVector 0 16) (push_all (replicate 133 (7 :: int))) = Inr s \<and> cvec_push_back 7 s = Inl Null_mutex"
  by (rule vector_growth [of 16 "[]" "replicate 133 (7 :: int)" 1 0 7, THEN conjunct2, THEN conjunct1]) simp_all

end
