(* ===== verification/Thread.thy ===== *)
theory Thread
  imports Text
begin

text \<open>
  \<^verbatim>\<open>src/src/thread/thread.{h,cpp}\<close>, \<^verbatim>\<open>src/src/thread/Mutex.h\<close> and \<^verbatim>\<open>src/src/util/Singleton.h\<close>: tasks that
  can be dropped, semaphores, and the life of a thread object, as the interleaving of the steps of the
  constructing thread, of the new thread, and of the owner who joins and destroys the object.
\<close>

section \<open>Tasks\<close>

text \<open>\<^verbatim>\<open>TaskBody\<close> holds its function strongly and weakly; the outer option is the strong pointer, the
  inner one the function object, which may be empty. A default constructed one has neither.\<close>

type_synonym 'f task_body = "'f option option"

definition TaskBody :: "'f option \<Rightarrow> 'f task_body" where
  "TaskBody task = Some task"

definition task_drop :: "'f task_body \<Rightarrow> 'f task_body" where
  "task_drop t = None"

definition task_bool :: "'f task_body \<Rightarrow> bool" where
  "task_bool t \<longleftrightarrow> (case t of None \<Rightarrow> False | Some f \<Rightarrow> f \<noteq> None)"

text \<open>The call: the function's result, or the default value of the result type.\<close>

definition task_call :: "'r \<Rightarrow> ('a \<Rightarrow> 'r) task_body \<Rightarrow> 'a \<Rightarrow> 'r" where
  "task_call default_value t args =
     (case t of None \<Rightarrow> default_value | Some None \<Rightarrow> default_value | Some (Some f) \<Rightarrow> f args)"

section \<open>Semaphores\<close>

text \<open>The constructor, which throws when \<^verbatim>\<open>sem_init\<close> fails (\<open>None\<close>).\<close>

definition semaphore :: "bool \<Rightarrow> nat \<Rightarrow> nat option" where
  "semaphore init_ok count = (if \<not> init_ok then None else Some count)"

definition sem_notify :: "nat \<Rightarrow> nat \<Rightarrow> nat" where
  "sem_notify n count = ((\<lambda>c. Suc c) ^^ n) count"

text \<open>\<open>None\<close>: the caller waits.\<close>

definition sem_wait :: "nat \<Rightarrow> nat option" where
  "sem_wait count = (case count of 0 \<Rightarrow> None | Suc c \<Rightarrow> Some c)"

section \<open>Singletons\<close>

definition getInstance :: "'a \<Rightarrow> 'a option \<Rightarrow> 'a \<times> 'a option" where
  "getInstance fresh m_instance = (case m_instance of None \<Rightarrow> (fresh, Some fresh) | Some x \<Rightarrow> (x, m_instance))"

section \<open>Threads\<close>

text \<open>Where the constructing thread is, and where the new one is.\<close>

datatype owner_pc = Before_thread | Before_assign | Before_wait | Constructed | Joined | Destroyed
datatype thread_pc = Not_started | Before_running | Before_getThis | Before_id | Before_notify | Before_task | In_task | Ended

text \<open>\<open>thread_ptr\<close> is whether \<^verbatim>\<open>m_thread\<close> is set, \<open>t_thread\<close> whether the new thread's weak pointer is, and
  \<open>t_name\<close> its name; \<open>bad\<close> records the use of a destroyed object.\<close>

record thread_state =
  opc :: owner_pc
  tpc :: thread_pc
  m_name :: string
  m_id :: int
  m_running :: bool
  m_sem :: nat
  thread_ptr :: bool
  t_thread :: bool
  t_name :: string
  bad :: bool

definition UNKNOWN :: string where "UNKNOWN = ''UNKNOWN''"

definition thread_name :: "string \<Rightarrow> string" where
  "thread_name name = (if name = '''' then UNKNOWN else take 15 name)"

definition t_setName :: "string \<Rightarrow> thread_state \<Rightarrow> thread_state" where
  "t_setName name s = (if name = '''' then s else s\<lparr>t_name := name\<rparr>)"

definition Thread_new :: "string \<Rightarrow> thread_state" where
  "Thread_new name = \<lparr>opc = Before_thread, tpc = Not_started, m_name = thread_name name, m_id = -1, m_running = False,
     m_sem = 0, thread_ptr = False, t_thread = False, t_name = UNKNOWN, bad = False\<rparr>"

text \<open>A step of the new thread reads the object, which may be gone.\<close>

definition touch :: "thread_state \<Rightarrow> thread_state" where
  "touch s = (if opc s = Destroyed then s\<lparr>bad := True\<rparr> else s)"

inductive thread_step :: "int \<Rightarrow> thread_state \<Rightarrow> thread_state \<Rightarrow> bool" for tid where
  \<comment> \<open>the constructor: the thread starts before the pointer to it is assigned\<close>
  spawn: "opc s = Before_thread \<Longrightarrow> thread_step tid s (s\<lparr>opc := Before_assign, tpc := Before_running\<rparr>)"
| assign: "opc s = Before_assign \<Longrightarrow> thread_step tid s (s\<lparr>opc := Before_wait, thread_ptr := True\<rparr>)"
| wait: "opc s = Before_wait \<Longrightarrow> sem_wait (m_sem s) = Some c \<Longrightarrow> thread_step tid s (s\<lparr>opc := Constructed, m_sem := c\<rparr>)"
  \<comment> \<open>the function of the new thread\<close>
| set_running: "tpc s = Before_running \<Longrightarrow> thread_step tid s ((touch s)\<lparr>tpc := Before_getThis, m_running := True\<rparr>)"
| set_this: "tpc s = Before_getThis \<Longrightarrow> thread_step tid s ((touch s)\<lparr>tpc := Before_id, t_thread := thread_ptr s\<rparr>)"
| set_id: "tpc s = Before_id \<Longrightarrow> thread_step tid s ((touch s)\<lparr>tpc := Before_notify, m_id := tid, t_name := m_name s\<rparr>)"
| notify: "tpc s = Before_notify \<Longrightarrow> thread_step tid s ((touch s)\<lparr>tpc := Before_task, m_sem := sem_notify 1 (m_sem s)\<rparr>)"
| fetch: "tpc s = Before_task \<Longrightarrow> thread_step tid s ((touch s)\<lparr>tpc := In_task\<rparr>)"
| finish: "tpc s = In_task \<Longrightarrow> thread_step tid s (s\<lparr>tpc := Ended\<rparr>)"
| rename: "tpc s = In_task \<Longrightarrow> thread_step tid s (t_setName name s)"
  \<comment> \<open>the owner: \<^verbatim>\<open>join\<close> waits for the end, the destructor detaches a running thread\<close>
| join: "opc s = Constructed \<Longrightarrow> tpc s = Ended \<Longrightarrow> thread_step tid s (s\<lparr>opc := Joined, m_running := False\<rparr>)"
| destroy: "opc s \<in> {Constructed, Joined} \<Longrightarrow> thread_step tid s (s\<lparr>opc := Destroyed\<rparr>)"

text \<open>Destroying the \<^verbatim>\<open>std::thread\<close> of a thread that was neither joined nor detached ends the program.\<close>

definition terminates_program :: "thread_state \<Rightarrow> bool" where
  "terminates_program s \<longleftrightarrow> opc s = Constructed \<and> \<not> (thread_ptr s \<and> m_running s)"

section \<open>What is always true\<close>

definition thread_inv :: "int \<Rightarrow> string \<Rightarrow> thread_state \<Rightarrow> bool" where
  "thread_inv tid name s \<longleftrightarrow>
     m_name s = thread_name name \<and>
     (tpc s = Not_started \<longleftrightarrow> opc s = Before_thread) \<and>
     (opc s \<notin> {Before_thread, Before_assign} \<longleftrightarrow> thread_ptr s) \<and>
     (tpc s \<in> {Not_started, Before_running} \<longrightarrow> \<not> m_running s) \<and>
     (tpc s \<notin> {Not_started, Before_running} \<and> opc s \<notin> {Joined, Destroyed} \<longrightarrow> m_running s) \<and>
     (tpc s \<in> {Before_notify, Before_task, In_task, Ended} \<longrightarrow> m_id s = tid) \<and>
     m_sem s = (if tpc s \<in> {Before_task, In_task, Ended} \<and> opc s \<in> {Before_assign, Before_wait} then 1 else 0) \<and>
     (opc s \<in> {Constructed, Joined, Destroyed} \<longrightarrow> tpc s \<in> {Before_task, In_task, Ended}) \<and>
     (opc s = Joined \<longrightarrow> tpc s = Ended \<and> \<not> m_running s)"

lemma touch_simps [simp]:
  "opc (touch s) = opc s" "tpc (touch s) = tpc s" "m_name (touch s) = m_name s" "m_id (touch s) = m_id s"
  "m_running (touch s) = m_running s" "m_sem (touch s) = m_sem s" "thread_ptr (touch s) = thread_ptr s"
  by (simp_all add: touch_def)

lemma thread_inv_new: "thread_inv tid name (Thread_new name)"
  by (simp add: thread_inv_def Thread_new_def)

lemma thread_step_inv:
  assumes "thread_step tid s s'" and "thread_inv tid name s"
  shows "thread_inv tid name s'"
  using assms(1)
proof (cases rule: thread_step.cases)
  case spawn
  then show ?thesis using assms(2) by (auto simp: thread_inv_def)
next
  case assign
  then show ?thesis using assms(2) by (auto simp: thread_inv_def)
next
  case (wait c)
  then show ?thesis using assms(2) by (auto simp: thread_inv_def sem_wait_def split: nat.splits if_splits)
next
  case set_running
  then show ?thesis using assms(2) by (auto simp: thread_inv_def)
next
  case set_this
  then show ?thesis using assms(2) by (auto simp: thread_inv_def)
next
  case set_id
  then show ?thesis using assms(2) by (auto simp: thread_inv_def)
next
  case notify
  then show ?thesis using assms(2) by (cases "opc s") (auto simp: thread_inv_def sem_notify_def)
next
  case fetch
  then show ?thesis using assms(2) by (auto simp: thread_inv_def)
next
  case finish
  then show ?thesis using assms(2) by (auto simp: thread_inv_def)
next
  case (rename n)
  then show ?thesis using assms(2) by (auto simp: thread_inv_def t_setName_def)
next
  case join
  then show ?thesis using assms(2) by (auto simp: thread_inv_def)
next
  case destroy
  then show ?thesis using assms(2) by (cases "opc s"; cases "tpc s"; simp add: thread_inv_def)
qed

lemma thread_reach_inv:
  "(thread_step tid)\<^sup>*\<^sup>* (Thread_new name) s \<Longrightarrow> thread_inv tid name s"
proof (induction rule: rtranclp_induct)
  case base
  show ?case by (rule thread_inv_new)
next
  case (step s s')
  show ?case by (rule thread_step_inv [OF step.hyps(2) step.IH])
qed

text \<open>The new thread gets as far as its task before the pointer is assigned; the constructor returns and
  the object is destroyed before the task is taken from it.\<close>

lemma early_thread:
  "\<exists>s1 s2. (thread_step tid)\<^sup>*\<^sup>* (Thread_new name) s1 \<and> opc s1 = Constructed \<and> \<not> t_thread s1 \<and>
     (thread_step tid)\<^sup>*\<^sup>* (Thread_new name) s2 \<and> bad s2"
proof -
  let ?R = "thread_step tid"
  have "\<exists>s. ?R (Thread_new name) s \<and> opc s = Before_assign \<and> tpc s = Before_running \<and> \<not> thread_ptr s \<and> m_sem s = 0"
    by (rule exI, rule conjI, rule thread_step.spawn) (simp_all add: Thread_new_def)
  then obtain s1 where s1: "?R (Thread_new name) s1" "opc s1 = Before_assign" "tpc s1 = Before_running"
    "\<not> thread_ptr s1" "m_sem s1 = 0" by blast
  have "\<exists>s. ?R s1 s \<and> opc s = Before_assign \<and> tpc s = Before_getThis \<and> \<not> thread_ptr s \<and> m_sem s = 0"
    by (rule exI, rule conjI, rule thread_step.set_running) (use s1 in simp_all)
  then obtain s2 where s2: "?R s1 s2" "opc s2 = Before_assign" "tpc s2 = Before_getThis" "\<not> thread_ptr s2" "m_sem s2 = 0"
    by blast
  have "\<exists>s. ?R s2 s \<and> opc s = Before_assign \<and> tpc s = Before_id \<and> \<not> t_thread s \<and> m_sem s = 0"
    by (rule exI, rule conjI, rule thread_step.set_this) (use s2 in simp_all)
  then obtain s3 where s3: "?R s2 s3" "opc s3 = Before_assign" "tpc s3 = Before_id" "\<not> t_thread s3" "m_sem s3 = 0"
    by blast
  have "\<exists>s. ?R s3 s \<and> opc s = Before_assign \<and> tpc s = Before_notify \<and> \<not> t_thread s \<and> m_sem s = 0"
    by (rule exI, rule conjI, rule thread_step.set_id) (use s3 in \<open>simp_all add: touch_def\<close>)
  then obtain s4 where s4: "?R s3 s4" "opc s4 = Before_assign" "tpc s4 = Before_notify" "\<not> t_thread s4" "m_sem s4 = 0"
    by blast
  have "\<exists>s. ?R s4 s \<and> opc s = Before_assign \<and> tpc s = Before_task \<and> \<not> t_thread s \<and> m_sem s = 1"
    by (rule exI, rule conjI, rule thread_step.notify) (use s4 in \<open>simp_all add: touch_def sem_notify_def\<close>)
  then obtain s5 where s5: "?R s4 s5" "opc s5 = Before_assign" "tpc s5 = Before_task" "\<not> t_thread s5" "m_sem s5 = 1"
    by blast
  have "\<exists>s. ?R s5 s \<and> opc s = Before_wait \<and> tpc s = Before_task \<and> \<not> t_thread s \<and> m_sem s = 1"
    by (rule exI, rule conjI, rule thread_step.assign) (use s5 in simp_all)
  then obtain s6 where s6: "?R s5 s6" "opc s6 = Before_wait" "tpc s6 = Before_task" "\<not> t_thread s6" "m_sem s6 = 1"
    by blast
  have "\<exists>s. ?R s6 s \<and> opc s = Constructed \<and> tpc s = Before_task \<and> \<not> t_thread s"
    by (rule exI, rule conjI, rule thread_step.wait [where c=0]) (use s6 in \<open>simp_all add: sem_wait_def\<close>)
  then obtain s7 where s7: "?R s6 s7" "opc s7 = Constructed" "tpc s7 = Before_task" "\<not> t_thread s7" by blast
  have "\<exists>s. ?R s7 s \<and> opc s = Destroyed \<and> tpc s = Before_task"
    by (rule exI, rule conjI, rule thread_step.destroy) (use s7 in simp_all)
  then obtain s8 where s8: "?R s7 s8" "opc s8 = Destroyed" "tpc s8 = Before_task" by blast
  have "\<exists>s. ?R s8 s \<and> bad s"
    by (rule exI, rule conjI, rule thread_step.fetch) (use s8 in \<open>simp_all add: touch_def\<close>)
  then obtain s9 where s9: "?R s8 s9" "bad s9" by blast
  have "?R\<^sup>*\<^sup>* (Thread_new name) s7"
    using s1(1) s2(1) s3(1) s4(1) s5(1) s6(1) s7(1) by (meson rtranclp.rtrancl_refl rtranclp.rtrancl_into_rtrancl)
  moreover from this have "?R\<^sup>*\<^sup>* (Thread_new name) s9"
    using s8(1) s9(1) by (meson rtranclp.rtrancl_into_rtrancl)
  ultimately show ?thesis using s7 s9 by blast
qed

text \<open>C21. In every interleaving: once the constructor has returned, and for as long as the object lives,
  the thread has its number, it has been told its name of at most 15 characters, and the object says
  that it runs until it is joined, so that destroying it never ends the program; \<^verbatim>\<open>join\<close> returns only
  after the task. But an interleaving leaves the weak pointer of the new thread empty, because it is
  copied before the constructor has set the pointer, and another one destroys the object between the
  return of the constructor and the start of the task, which the new thread then takes from it.\<close>

theorem thread_life:
  assumes "(thread_step tid)\<^sup>*\<^sup>* (Thread_new name) s" and "opc s \<in> {Constructed, Joined}"
  shows "m_id s = tid \<and> m_name s = thread_name name \<and> length (m_name s) \<le> 15 \<and>
    (m_running s \<longleftrightarrow> opc s = Constructed) \<and> (opc s = Joined \<longrightarrow> tpc s = Ended) \<and> \<not> terminates_program s \<and>
    (\<exists>s1. (thread_step tid)\<^sup>*\<^sup>* (Thread_new name) s1 \<and> opc s1 = Constructed \<and> \<not> t_thread s1) \<and>
    (\<exists>s2. (thread_step tid)\<^sup>*\<^sup>* (Thread_new name) s2 \<and> bad s2)"
proof -
  have i: "thread_inv tid name s" by (rule thread_reach_inv [OF assms(1)])
  have "length (thread_name name) \<le> 15" by (simp add: thread_name_def UNKNOWN_def)
  then have "length (m_name s) \<le> 15" using i by (simp add: thread_inv_def)
  moreover have "m_id s = tid \<and> m_name s = thread_name name \<and> (m_running s \<longleftrightarrow> opc s = Constructed) \<and>
      (opc s = Joined \<longrightarrow> tpc s = Ended) \<and> \<not> terminates_program s"
    using i assms(2) by (cases "tpc s"; cases "opc s"; simp add: thread_inv_def terminates_program_def)
  moreover obtain s1 s2 where "(thread_step tid)\<^sup>*\<^sup>* (Thread_new name) s1" "opc s1 = Constructed \<and> \<not> t_thread s1"
    "(thread_step tid)\<^sup>*\<^sup>* (Thread_new name) s2" "bad s2"
    using early_thread [of tid name] by blast
  ultimately show ?thesis by blast
qed

lemma thread_life_witness:
  "\<exists>s. (thread_step 42)\<^sup>*\<^sup>* (Thread_new ''worker'') s \<and> opc s = Constructed \<and> m_id s = 42 \<and> m_running s"
proof -
  obtain s where s: "(thread_step 42)\<^sup>*\<^sup>* (Thread_new ''worker'') s" "opc s = Constructed"
    using early_thread [of 42 "''worker''"] by blast
  have "m_id s = 42 \<and> m_running s" using thread_life [OF s(1)] s(2) by blast
  then show ?thesis using s by blast
qed

end
