(* ===== verification/Daemon.thy ===== *)
theory Daemon
  imports Prelude
begin

text \<open>
  \<^verbatim>\<open>src/src/util/daemon.{h,cpp}\<close>: running the main function, directly or in a child process. Process
  numbers, times and the answers of \<^verbatim>\<open>fork\<close> and \<^verbatim>\<open>waitpid\<close> are arguments; a result \<open>None\<close> is the end of a
  function without the value it should return.
\<close>

record process_info =
  parend_id :: int
  main_id :: int
  restart_cnt :: u64
  parend_start_time :: u64
  main_start_time :: u64

definition ProcessInfo :: process_info where
  "ProcessInfo = \<lparr>parend_id = 0, main_id = 0, restart_cnt = 0, parend_start_time = 0, main_start_time = 0\<rparr>"

text \<open>The value of \<^verbatim>\<open>main_cb\<close> is not returned.\<close>

definition daemon_run ::
  "int \<Rightarrow> u64 \<Rightarrow> ('w \<Rightarrow> int \<times> 'w) \<Rightarrow> process_info \<times> 'w \<Rightarrow> int option \<times> process_info \<times> 'w" where
  "daemon_run pid now main_cb s =
     (let (info, w) = s; (_, w1) = main_cb w in (None, info\<lparr>main_id := pid, main_start_time := now\<rparr>, w1))"

text \<open>
  The loop, with what each \<^verbatim>\<open>fork\<close> returns, its child's number and what \<^verbatim>\<open>waitpid\<close> gives. Both branches
  after \<^verbatim>\<open>waitpid\<close> leave the loop, so nothing ever gets to the restart below them. The outer option is
  \<open>None\<close> when there are no more answers.
\<close>

fun daemon_loop ::
  "(int \<times> int \<times> int) list \<Rightarrow> u64 \<Rightarrow> ('w \<Rightarrow> int \<times> 'w) \<Rightarrow> process_info \<times> 'w \<Rightarrow> (int option \<times> process_info \<times> 'w) option" where
  "daemon_loop [] now main_cb s = None"
| "daemon_loop ((pid, child, status) # forks) now main_cb s =
     (if pid = 0 then Some (daemon_run child now main_cb s)
      else if pid < 0 then Some (Some 0, s)
      else if status = 9 then Some (Some 0, s)
      else Some (Some 0, s))"

definition run_daemon ::
  "int \<Rightarrow> (int \<times> int \<times> int) list \<Rightarrow> u64 \<Rightarrow> ('w \<Rightarrow> int \<times> 'w) \<Rightarrow> process_info \<times> 'w \<Rightarrow> (int option \<times> process_info \<times> 'w) option" where
  "run_daemon pid forks now main_cb s =
     (let (info, w) = s in daemon_loop forks now main_cb (info\<lparr>parend_id := pid, parend_start_time := now\<rparr>, w))"

definition start_daemon ::
  "int \<Rightarrow> (int \<times> int \<times> int) list \<Rightarrow> u64 \<Rightarrow> ('w \<Rightarrow> int \<times> 'w) \<Rightarrow> bool \<Rightarrow> process_info \<times> 'w \<Rightarrow>
    (int option \<times> process_info \<times> 'w) option" where
  "start_daemon pid forks now main_cb is_daemon s =
     (if \<not> is_daemon then
        let (info, w) = s in Some (daemon_run pid now main_cb (info\<lparr>parend_id := pid, parend_start_time := now\<rparr>, w))
      else run_daemon pid forks now main_cb s)"

text \<open>A daemon forks at most once, whatever becomes of the child, and never counts a restart.\<close>

lemma daemon_forks_once:
  assumes "start_daemon pid (f # forks) now main_cb True (info, w) = Some (r, info', w')"
  shows "start_daemon pid [f] now main_cb True (info, w) = Some (r, info', w') \<and> restart_cnt info' = restart_cnt info \<and>
    (fst f \<noteq> 0 \<longrightarrow> r = Some 0 \<and> w' = w)"
  using assms by (cases f) (auto simp: start_daemon_def run_daemon_def daemon_run_def split: if_splits prod.splits)

end
