(* ===== verification/Scheduler_Life.thy ===== *)
theory Scheduler_Life
  imports EventPoller
begin

text \<open>
  The ends of \<^verbatim>\<open>src/src/fiber/scheduler.cpp\<close> and \<^verbatim>\<open>src/src/eventpoller/eventpoller.cpp\<close>: the variables of
  a thread that a scheduler sets, the entry of a worker into the loop, and the destructors. A poller
  is stopped by the \<^verbatim>\<open>stop\<close> of its base class, which calls the poller's own \<^verbatim>\<open>stopping\<close>.
\<close>

section \<open>The variables of a thread\<close>

record thread_locals =
  t_scheduler :: "nat option"
  t_main_fiber :: "fid option"      \<comment> \<open>\<^verbatim>\<open>t_scheduler_fiber\<close>\<close>
  hook_on :: bool

definition no_locals :: thread_locals where
  "no_locals = \<lparr>t_scheduler = None, t_main_fiber = None, hook_on = False\<rparr>"

text \<open>The constructor of scheduler number \<open>this\<close>, whose main fiber is at \<open>a\<close>.\<close>

definition Scheduler_locals :: "bool \<Rightarrow> nat \<Rightarrow> fid \<Rightarrow> thread_locals \<Rightarrow> thread_locals" where
  "Scheduler_locals use_caller this a l =
     (if use_caller then l\<lparr>t_scheduler := Some this, t_main_fiber := Some a\<rparr> else l)"

text \<open>Before the loop of \<^verbatim>\<open>run\<close>, on thread \<open>tid\<close> with the current fiber \<open>cur\<close>.\<close>

definition run_enter :: "nat \<Rightarrow> int \<Rightarrow> fid \<Rightarrow> 'c scheduler \<Rightarrow> thread_locals \<Rightarrow> thread_locals" where
  "run_enter this tid cur s l =
     (let l1 = l\<lparr>t_scheduler := Some this, hook_on := True\<rparr>
      in if tid \<noteq> m_rootThread s then l1\<lparr>t_main_fiber := Some cur\<rparr> else l1)"

section \<open>Destructors\<close>

definition Scheduler_destroy ::
  "nat \<Rightarrow> ('c scheduler \<Rightarrow> 'c scheduler) \<Rightarrow> 'c scheduler \<Rightarrow> thread_locals \<Rightarrow> fiber_error + bool \<times> 'c scheduler \<times> thread_locals" where
  "Scheduler_destroy this joined s l =
     (if m_running s then Inl Assertion
      else rbind (if \<not> m_autoStop s then stop (t_scheduler l = Some this) joined s else Inr (False, s)) (\<lambda>(called, s1).
        Inr (called, s1, if t_scheduler l = Some this then l\<lparr>t_scheduler := None\<rparr> else l)))"

text \<open>
  \<^verbatim>\<open>stop\<close> of a poller. The flag of the result says whether the main fiber is called in the end.
\<close>

definition poller_stop ::
  "u64 \<Rightarrow> bool \<Rightarrow> ('c poller \<Rightarrow> 'c poller) \<Rightarrow> 'c poller \<Rightarrow> poller_error + bool \<times> 'c poller" where
  "poller_stop now own joined s =
     (let s1 = on_sched (self s) (\<lambda>x. x\<lparr>m_autoStop := True\<rparr>) s;
          x = scheds s1 (self s1);
          early = (case m_mainFiber x of None \<Rightarrow> False
                   | Some f \<Rightarrow> (fstate x f = Term \<or> fstate x f = INIT) \<and> m_threadNum x = 0);
          s2 = (if early then on_sched (self s1) (\<lambda>x. x\<lparr>m_running := False\<rparr>) s1 else s1)
      in rbind (if early then poller_stopping now s2 else Inr False) (\<lambda>stopped.
         if stopped then Inr (False, s2)
         else if (m_rootThread x \<noteq> -1) \<noteq> own then Inl Assert_failed
         else let s3 = joined (on_sched (self s2) (\<lambda>x. x\<lparr>m_running := False, m_threads := []\<rparr>) s2);
                  s4 = (if m_mainFiber x \<noteq> None then poller_tickle s3 else s3)
              in rbind (poller_stopping now s4) (\<lambda>b.
                 if \<not> b then (case m_mainFiber x of None \<Rightarrow> Inl Null_scheduler | Some f \<Rightarrow> Inr (True, s4))
                 else Inr (False, s4))))"

text \<open>\<^verbatim>\<open>~EventPoller\<close>; the descriptors to close come after \<^verbatim>\<open>stop\<close>, and the contexts are freed.\<close>

definition EventPoller_destroy ::
  "u64 \<Rightarrow> bool \<Rightarrow> ('c poller \<Rightarrow> 'c poller) \<Rightarrow> int list \<Rightarrow> 'c poller \<Rightarrow> poller_error + int list \<times> 'c poller" where
  "EventPoller_destroy now own joined fds s =
     rbind (poller_stop now own joined s) (\<lambda>(_, s1). Inr (fds, s1\<lparr>m_fdContexts := []\<rparr>))"

text \<open>
  Every way through \<^verbatim>\<open>stop\<close> reaches \<^verbatim>\<open>stopping\<close>, which ends without the value it should return, or
  fails its assertion first. So a poller can never be stopped or destroyed with defined behaviour.
\<close>

lemma poller_stop_undefined:
  "poller_stop now own joined s \<in> {Inl No_return_value, Inl Assert_failed}"
  "\<exists>e. EventPoller_destroy now own joined fds s = Inl e"
proof -
  show p: "poller_stop now own joined s \<in> {Inl No_return_value, Inl Assert_failed}"
    by (auto simp: poller_stop_def poller_stopping_def Let_def)
  then show "\<exists>e. EventPoller_destroy now own joined fds s = Inl e"
    by (auto simp: EventPoller_destroy_def)
qed

end
