(* ===== verification/Wait_Path.thy ===== *)
theory Wait_Path
  imports Hook_Calls
begin

text \<open>
  The way of a waiting fiber through the framework: from the hooked call that would block, over the
  report of its event, to the queue of its scheduler and back into the call. It crosses
  \<^verbatim>\<open>util/hook.cpp\<close>, \<^verbatim>\<open>eventpoller\<close>, \<^verbatim>\<open>fiber/scheduler\<close> and \<^verbatim>\<open>timer\<close>.
\<close>

unbundle bit_operations_syntax

section \<open>A report of one event\<close>

lemma real_events_one: "is_event v j \<Longrightarrow> real_events v reg = v"
  by (auto simp: is_event_def real_events_def READ_def WRITE_def EPOLLIN_def EPOLLOUT_def EPOLLERR_def EPOLLHUP_def)

text \<open>What \<^verbatim>\<open>epoll_ctl\<close> is asked when the event is taken off.\<close>

definition releases :: "epoll_ctl \<Rightarrow> nat \<Rightarrow> u32 \<Rightarrow> u32 \<Rightarrow> bool" where
  "releases ctl i v reg \<longleftrightarrow> (let left_events = reg AND NOT v
     in ctl (if left_events \<noteq> 0 then EPOLL_CTL_MOD else EPOLL_CTL_DEL) (int i) (EPOLLET OR left_events))"

lemma handle_event_one:
  assumes inv: "ep_inv s" and i: "i < length (m_fdContexts s)" and v: "is_event v j"
    and w: "bit (ctx_events (m_fdContexts s ! i)) j" and ctl: "releases ctl i v (ctx_events (m_fdContexts s ! i))"
    and q: "ec_scheduler (ctx_of j (m_fdContexts s ! i)) = Some q"
  shows "handle_event ctl i v s = Inr (pending_dec (put_ctx i (cleared v (m_fdContexts s ! i))
    (on_sched q (schedule (waiting_task (ctx_of j (m_fdContexts s ! i)))) s)))"
proof -
  let ?c = "m_fdContexts s ! i"
  have ok: "ctxs_ok s" using inv by (simp add: ep_inv_def)
  have t: "triggerEvent v i s = Inr (put_ctx i (cleared v ?c) (on_sched q (schedule (waiting_task (ctx_of j ?c))) s))"
    using triggerEvent_ok [OF ok i v w] q by auto
  have real: "real_events v (ctx_events ?c) = v" by (rule real_events_one [OF v])
  have nz: "ctx_events ?c AND v \<noteq> 0" using w is_event_and [OF v] by simp
  have fd: "ctx_fd ?c = i" by (rule ctx_fd_nth [OF ok i])
  have rw: "READ AND READ \<noteq> 0" "WRITE AND WRITE \<noteq> 0" "READ AND WRITE = 0" "WRITE AND READ = 0"
    by (simp_all add: READ_def WRITE_def)
  show ?thesis
    using v t nz ctl rw unfolding handle_event_def Let_def real fd releases_def
    by (auto simp: is_event_def trigger_if_def)
qed

section \<open>What a held call keeps\<close>

lemma addEvent_scheds: "addEvent ctl this cur exec fd e cb p = Inr (r, p') \<Longrightarrow> scheds p' = scheds p"
  by (auto simp: addEvent_def Let_def put_ctx_def rbind_eq_Inr split: if_splits)

lemma timed_queue [simp]:
  "m_fibers (scheds (timed now a fr q) k) = m_fibers (scheds q k)"
  "fstate (scheds (timed now a fr q) k) = fstate (scheds q k)"
  by (simp_all add: timed_def with_tm_def Let_def poller_flushTimer_def poller_tickle_def)

lemma held_keeps:
  assumes fd: "waited_for fd p s" and q: "ep s = Some q"
    and io: "do_io k now a me fd v so rs s = Inr (Held fr, s1)"
  shows "fr_info fr = next_info s" and "fr_event fr = v" and "fr_fd fr = fd"
    and "\<exists>q1. ep s1 = Some q1 \<and> self q1 = self q \<and> length (m_fdContexts q1) = length (m_fdContexts q) \<and>
      (\<forall>i. m_fibers (scheds q1 i) = m_fibers (scheds q i) \<and> fstate (scheds q1 i) = fstate (scheds q i))"
proof -
  let ?fr = "\<lparr>fr_fd = fd, fr_event = v, fr_to = getTimeout so (the_ctx p s), fr_timer = None, fr_info = next_info s\<rparr>"
  let ?s = "s\<lparr>infos := (infos s)(next_info s := Some 0), next_info := Suc (next_info s)\<rparr>"
  have "retry k now a me ?fr rs ?s = Inr (Held fr, s1)" using io by (simp add: do_io_waited [OF fd])
  then obtain n e where "arm k now a me ?fr (?s\<lparr>errno := e\<rparr>) = Inr (0, fr, s1)"
    by (auto simp: retry_def Let_def rbind_eq_Inr split: option.splits if_splits prod.splits)
  then obtain q1 where add: "addEvent (os_ctl k) (Some (self q)) me True fd v None (timed now a ?fr q) = Inr (0, q1)"
      and fr: "fr = ?fr\<lparr>fr_timer := if fr_to ?fr = -1 then None else Some a\<rparr>" and s1: "ep s1 = Some q1"
    using arm_eq [of "?s\<lparr>errno := e\<rparr>" q k now a me ?fr] q
    by (auto simp: rbind_eq_Inr split: prod.splits if_splits)
  show "fr_info fr = next_info s" "fr_event fr = v" "fr_fd fr = fd" by (simp_all add: fr)
  show "\<exists>q1. ep s1 = Some q1 \<and> self q1 = self q \<and> length (m_fdContexts q1) = length (m_fdContexts q) \<and>
      (\<forall>i. m_fibers (scheds q1 i) = m_fibers (scheds q i) \<and> fstate (scheds q1 i) = fstate (scheds q i))"
    using s1 addEvent_tm [OF add] addEvent_length [OF add] addEvent_scheds [OF add] by simp
qed

section \<open>Going on\<close>

text \<open>A call that was not cancelled and now gets an answer other than \<^verbatim>\<open>EAGAIN\<close>.\<close>

lemma resume_answered:
  assumes "infos s (fr_info fr) = Some 0" and "(n, e) \<noteq> (-1, EINTR)" and "n \<noteq> -1 \<or> e \<noteq> EAGAIN"
  shows "do_io_resume k now a me fr (replicate m (-1, EINTR) @ (n, e) # rest) s =
    Inr (Returned n, drop_info (fr_info fr) ((disarm (fr_timer fr) s)
      \<lparr>errno := if n = -1 then e else if m = 0 then errno s else EINTR\<rparr>))"
  using assms(1,3) io_call_eintr [OF assms(2), of m rest]
  by (auto simp: do_io_resume_def cancelled_def retry_def Let_def)

lemma disarm_timers:
  assumes "ep s = Some q" and "tm_inv (tm q)"
  shows "\<exists>q'. ep (disarm t s) = Some q' \<and> set (m_timers (tm q')) = set (m_timers (tm q)) - set_option t \<and>
    scheds q' = scheds q \<and> m_fdContexts q' = m_fdContexts q"
proof (cases t)
  case None
  then show ?thesis using assms(1) by (simp add: disarm_def)
next
  case (Some a)
  have "set (m_timers (snd (cancel a (tm q)))) = set (m_timers (tm q)) - {a}"
  proof (cases "m_cb (heap (tm q) a) = None")
    case True
    then have "a \<notin> set (m_timers (tm q))" using assms(2) by (auto simp: tm_inv_def)
    then show ?thesis using True by (simp add: cancel_def)
  next
    case False
    then show ?thesis by (auto simp: cancel_eq [OF assms(2)])
  qed
  then show ?thesis using Some assms(1) by (simp add: disarm_def)
qed

section \<open>Being taken\<close>

lemma pick_last:
  assumes "queue_inv s" and "m_fibers s = us @ [t]" and "\<forall>u \<in> set us. \<not> eligible tid (fstate s) u"
    and "eligible tid (fstate s) t"
  shows "\<exists>need s'. pick tid s = Inr (need, Some t, s') \<and> m_fibers s' = us"
  by (intro exI, rule conjI, rule pick_some [OF assms(1) _ assms(3,4), of "[]"]) (simp_all add: assms(2))

end
