(* ===== verification/Spec2Isabelle.thy ===== *)
theory Spec2Isabelle
  imports ByteArray_Properties Timer_Properties FdManager Fiber_Properties Scheduler_Properties
    EventPoller_Properties Address_Properties Address_Strings Logger_Properties Hook_Calls TcpServer_Properties
    Config_Properties Concurrent_Vector Thread Daemon Scheduler_Life Wait_Path
begin

text \<open>
  Verification library of the sylar network framework, a C++ library of coroutines, timers, an
  epoll-based I/O scheduler, hooked system calls, sockets and a TCP server, with the logging,
  configuration and utility code they use. The components under \<^verbatim>\<open>src/src\<close> are modelled, from the
  source, as functions and step relations of HOL; what is left out is listed at the end.

  \<^bold>\<open>How the parts interact.\<close> A fiber (\<^verbatim>\<open>fiber/fiber\<close>) is a stack with a saved point of execution. A
  scheduler (\<^verbatim>\<open>fiber/scheduler\<close>) runs fibers and functions from a queue on its worker threads
  (\<^verbatim>\<open>thread\<close>); when it finds nothing to do, it runs its idle fiber. The event poller (\<^verbatim>\<open>eventpoller\<close>) is a
  scheduler and a timer manager (\<^verbatim>\<open>timer\<close>): its idle fiber waits in \<^verbatim>\<open>epoll_wait\<close>, no longer than until
  the next deadline, and schedules the waiters of the events reported and the functions of the timers
  due. The hooks (\<^verbatim>\<open>util/hook\<close>) replace the blocking calls of the C library: on a socket known to the
  descriptor table (\<^verbatim>\<open>socket/fdManager\<close>) a call that would block registers its event and its timeout,
  holds the fiber, and tries again when it is woken. Sockets (\<^verbatim>\<open>socket/socket\<close>) use the hooked calls and
  the addresses (\<^verbatim>\<open>socket/address\<close>); the server (\<^verbatim>\<open>server/TCPserver\<close>) gives the connections it accepts to a
  worker poller. The byte array (\<^verbatim>\<open>socket/bytearray\<close>, \<^verbatim>\<open>socket/endian.h\<close>) serialises data. The
  configuration (\<^verbatim>\<open>config\<close>) is read from the YAML files below a directory, which \<^verbatim>\<open>util/env\<close> and
  \<^verbatim>\<open>util/util\<close> find, and sets, for instance, the size of the stacks.

  \<^bold>\<open>Which theory models which part.\<close> Operations have the names of the source, with the class in front
  where a name occurs twice; a state is a record with the members of the class.

  \<^item> \<open>Prelude\<close>, \<open>Text\<close>: integer widths, results that can fail, lists, digits, C strings.
  \<^item> \<open>Endian\<close>, \<open>ByteArray\<close>, \<open>ByteArray_Codec\<close>, \<open>ByteArray_IO\<close>: \<^verbatim>\<open>socket/endian.h\<close>,
    \<^verbatim>\<open>socket/bytearray\<close>. The node chain is a list with a cursor; \<open>ByteArray_Refine\<close> shows that it
    implements a byte sequence with a position, the interface \<open>byte_stream\<close> of \<open>Byte_Stream\<close>, over which
    \<open>ByteArray_CodecFacts\<close> proves the typed accessors; \<open>ByteArray_Properties\<close> has the properties.
  \<^item> \<open>Ordered_Set\<close>, \<open>Timer_Source\<close>, \<open>Timer\<close>, \<open>Timer_Properties\<close>: \<^verbatim>\<open>timer\<close>. The first is
    \<^verbatim>\<open>std::set\<close> with a comparator, interpreted on the comparator of the code; the second what the event
    loop asks of timers.
  \<^item> \<open>Fd_Table\<close>, \<open>FdManager\<close>: \<^verbatim>\<open>socket/fdManager\<close>, with its interface to the hooks.
  \<^item> \<open>Fiber\<close>, \<open>Scheduler\<close>, \<open>Scheduler_Life\<close> and their properties: \<^verbatim>\<open>fiber\<close>.
  \<^item> \<open>EventPoller\<close>, \<open>EventPoller_Facts\<close>, \<open>EventPoller_Properties\<close>: \<^verbatim>\<open>eventpoller\<close>.
  \<^item> \<open>Hook\<close>, \<open>Hook_Facts\<close>, \<open>Hook_World\<close>, \<open>Hook_Properties\<close>, \<open>Hook_Calls\<close>: \<^verbatim>\<open>util/hook\<close>.
    \<open>Hook_World\<close> is the step relation of all calls in progress.
  \<^item> \<open>Wait_Path\<close>, and this theory: what crosses the components.
  \<^item> \<open>Address\<close>, \<open>Address_Text\<close>, \<open>Address_Properties\<close>, \<open>Address_Strings\<close>: \<^verbatim>\<open>socket/address\<close>.
  \<^item> \<open>Socket\<close>, \<open>Socket_Properties\<close>, \<open>Socket_Calls\<close>; \<open>TcpServer\<close>, \<open>TcpServer_Properties\<close>:
    \<^verbatim>\<open>socket/socket\<close>, \<^verbatim>\<open>server/TCPserver\<close>.
  \<^item> \<open>Log_Format\<close>, \<open>Log_Format_Facts\<close>, \<open>Logger\<close>, \<open>Logger_Properties\<close>: \<^verbatim>\<open>log/logger\<close>.
  \<^item> \<open>Lexical_Cast\<close>, \<open>Config\<close>, \<open>Env\<close>, \<open>Config_Properties\<close>: \<^verbatim>\<open>config\<close>, \<^verbatim>\<open>util/env\<close>.
  \<^item> \<open>FSUtil\<close>, \<open>FSUtil_Properties\<close>: \<^verbatim>\<open>util/util\<close>. \<open>Concurrent_Vector\<close>, \<open>Thread\<close>, \<open>Daemon\<close>:
    \<^verbatim>\<open>util/ConcurrentVector.h\<close>, \<^verbatim>\<open>thread\<close> with \<^verbatim>\<open>util/Singleton.h\<close>, \<^verbatim>\<open>util/daemon\<close>.

  \<^bold>\<open>What the lemmas show.\<close> For each part with a state, an invariant kept by every operation, over a step
  relation (\<open>ep_step\<close>, \<open>tm_step\<close>, \<open>io_step\<close>, \<open>sock_step\<close>, \<open>log_step\<close>, \<open>cfg_step\<close>, \<open>thread_step\<close>); what
  each operation does on its branches, failures included; that encoders and decoders, parsers and
  printers fit together; and that loops end. Undefined behaviour and failed assertions are values of the
  error types, so that the theorems say when they can be reached. Where the code does something else
  than it is meant to, the theorem states what it does.

  \<^bold>\<open>Arguments of the model.\<close> The kernel, the C library and the YAML library are arguments: functions of
  the operations that use them, or the lists of their answers. Clock values and the addresses of new
  objects are arguments as well. A function that gives the processor away is cut in two, and what happens
  in between is any step of the rest.

  \<^bold>\<open>Bounds and fuel.\<close> \<open>logger_log\<close> follows \<^verbatim>\<open>m_root\<close>: two levels are enough in every reachable state of
  the manager (\<open>logger_routing\<close>). \<open>ListAllFile\<close>, \<open>Rm\<close> and \<open>ListAllMember\<close> take the depth to which they
  may descend; the height of the tree is enough (\<open>ListAllFile_complete\<close>, \<open>members_exact\<close>). The lists of
  answers of a hooked call, of \<open>daemon_loop\<close> and of \<open>startListen\<close> say how far the run is followed; the result
  tells when they are used up. \<open>read_file_loop\<close> is partial, as the loop does not end when the base size is
  0. All other recursions are total.

  \<^bold>\<open>Not modelled.\<close> The text of diagnostics that the program logs about itself, since it has no influence
  on the rest; reference counts, where an object is kept alive by a closure; stack memory and the machine
  code of \<^verbatim>\<open>swapcontext\<close>; weak memory, as locks make operations atomic and the steps of threads
  interleave; \<^verbatim>\<open>getTimeUsec\<close>, \<^verbatim>\<open>TypeToName\<close> and the macros of \<^verbatim>\<open>util/macro.h\<close>, which only call the compiler or
  a library; samples, tests and build files.
\<close>

unbundle bit_operations_syntax

section \<open>Through the framework and back\<close>

text \<open>C3. A blocking call goes all the way through the framework. A hooked call on a socket finds
  nothing (after any number of interruptions), and the poller accepts its event: the call is held, and
  the scheduler's queue is as it was. When the poller then reports the event, the calling fiber is the
  last task of that queue, and nobody waits for the event any more; a worker that can run none of the
  earlier tasks takes the fiber, and leaves the queue as it was before the call. When the fiber goes
  on, the call returns what the system call now answers, and no timer and no information object of it
  is left.\<close>

theorem blocking_call_path:
  assumes inv: "io_inv s F" "fresh_in a s F" and fd: "waited_for fd p s" "0 \<le> fd" "is_event v j"
    and q: "ep s = Some q" "ep_inv q" "nat fd < length (m_fdContexts q)" "\<not> awaited fd j q" "accepts k fd v q"
    and empty: "rs = replicate m (-1, EINTR) @ (-1, EAGAIN) # rest"
    and answer: "rs' = replicate m' (-1, EINTR) @ (n, e) # rest'" "(n, e) \<noteq> (-1, EINTR)" "n \<noteq> -1 \<or> e \<noteq> EAGAIN"
  shows "\<exists>fr s1 q1. do_io k now a me fd v so rs s = Inr (Held fr, s1) \<and> ep s1 = Some q1 \<and> self q1 = self q \<and>
     m_fibers (scheds q1 (self q)) = m_fibers (scheds q (self q)) \<and>
     (releases (os_ctl k) (nat fd) v (ctx_events (m_fdContexts q1 ! nat fd)) \<longrightarrow>
      (\<exists>q2. handle_event (os_ctl k) (nat fd) v q1 = Inr q2 \<and> ep_inv q2 \<and> \<not> awaited fd j q2 \<and>
        m_fibers (scheds q2 (self q)) = m_fibers (scheds q (self q)) @ [FiberTask (Some me) None (-1)] \<and>
        (queue_inv (scheds q (self q)) \<and> fstate (scheds q (self q)) me \<noteq> EXEC \<and>
         (\<forall>t \<in> set (m_fibers (scheds q (self q))). \<not> eligible tid (fstate (scheds q (self q))) t) \<longrightarrow>
           (\<exists>need sch. pick tid (scheds q2 (self q)) = Inr (need, Some (FiberTask (Some me) None (-1)), sch) \<and>
              m_fibers sch = m_fibers (scheds q (self q)))) \<and>
        (\<exists>s3 q3. do_io_resume k now' a' me fr rs' (s1\<lparr>ep := Some q2\<rparr>) = Inr (Returned n, s3) \<and>
           infos s3 = infos s \<and> ep s3 = Some q3 \<and> set (m_timers (tm q3)) = set (m_timers (tm q)) \<and>
           \<not> awaited fd j q3)))"
proof -
  have "next_info s \<notin> fr_info ` F" using inv(1) by (auto simp: io_inv_def)
  then have i0: "infos s (next_info s) = None" using inv(1) unfolding io_inv_def by blast
  have tmq: "tm_inv (tm q)" "a \<notin> set (m_timers (tm q))"
    using inv q(1) by (auto simp: io_inv_def tm_ok_def fresh_in_def fresh_timer_def)
  have call: "io_call rs x = Some (-1, EAGAIN)" for x
    unfolding empty using io_call_eintr [of "-1" EAGAIN m rest x] by (simp add: EAGAIN_def EINTR_def)
  obtain fr s1 q1 where io: "do_io k now a me fd v so rs s = Inr (Held fr, s1)" and q1: "ep s1 = Some q1" "ep_inv q1"
    and aw: "awaited fd j q1" and cx: "ctx_of j (m_fdContexts q1 ! nat fd) = \<lparr>ec_scheduler = Some (self q), ec_fiber = Some me, ec_cb = None\<rparr>"
    and i1: "infos s1 = (infos s)(fr_info fr := Some 0)"
    and tmr: "set (m_timers (tm q1)) - set_option (fr_timer fr) = set (m_timers (tm q))"
  proof -
    from do_io_held [where so=so and k=k and now=now and a=a and me=me, OF fd(1) refl call q(1,2) tmq fd(2) q(3) fd(3) q(4,5)]
    obtain fr s1 q1 where *: "do_io k now a me fd v so rs s = Inr (Held fr, s1)" "ep s1 = Some q1" "ep_inv q1" "awaited fd j q1"
      "ctx_of j (m_fdContexts q1 ! nat fd) = \<lparr>ec_scheduler = Some (self q), ec_fiber = Some me, ec_cb = None\<rparr>"
      "infos s1 = (infos s)(fr_info fr := Some 0)"
      "if getTimeout so (the_ctx p s) = -1 then fr_timer fr = None \<and> set (m_timers (tm q1)) = set (m_timers (tm q))
       else fr_timer fr = Some a \<and> set (m_timers (tm q1)) = insert a (set (m_timers (tm q))) \<and>
         heap (tm q1) a = new_timer now (getTimeout so (the_ctx p s)) (Some (closure fr)) False" by auto
    then show thesis using tmq(2) by (intro that [OF *(1-6)]) (auto split: if_splits)
  qed
  note keep = held_keeps [OF fd(1) q(1) io]
  have k1: "self q1 = self q" "nat fd < length (m_fdContexts q1)"
    "m_fibers (scheds q1 i) = m_fibers (scheds q i)" "fstate (scheds q1 i) = fstate (scheds q i)" for i
    using keep(4) q1(1) q(3) by auto
  have bit: "bit (ctx_events (m_fdContexts q1 ! nat fd)) j" using aw by (simp add: awaited_def)
  let ?t = "FiberTask (Some me) None (-1)" and ?c = "m_fdContexts q1 ! nat fd"
  let ?q2 = "pending_dec (put_ctx (nat fd) (cleared v ?c) (on_sched (self q) (schedule ?t) q1))"
  have "\<exists>q2. handle_event (os_ctl k) (nat fd) v q1 = Inr q2 \<and> ep_inv q2 \<and> \<not> awaited fd j q2 \<and>
        m_fibers (scheds q2 (self q)) = m_fibers (scheds q (self q)) @ [?t] \<and>
        (queue_inv (scheds q (self q)) \<and> fstate (scheds q (self q)) me \<noteq> EXEC \<and>
         (\<forall>t \<in> set (m_fibers (scheds q (self q))). \<not> eligible tid (fstate (scheds q (self q))) t) \<longrightarrow>
           (\<exists>need sch. pick tid (scheds q2 (self q)) = Inr (need, Some ?t, sch) \<and>
              m_fibers sch = m_fibers (scheds q (self q)))) \<and>
        (\<exists>s3 q3. do_io_resume k now' a' me fr rs' (s1\<lparr>ep := Some q2\<rparr>) = Inr (Returned n, s3) \<and>
           infos s3 = infos s \<and> ep s3 = Some q3 \<and> set (m_timers (tm q3)) = set (m_timers (tm q)) \<and>
           \<not> awaited fd j q3)"
    if rel: "releases (os_ctl k) (nat fd) v (ctx_events ?c)"
  proof -
    have h: "handle_event (os_ctl k) (nat fd) v q1 = Inr ?q2"
      using handle_event_one [OF q1(2) k1(2) fd(3) bit rel, of "self q"] cx by (simp add: waiting_task_def)
    have "\<not> stale v (ctx_events ?c)"
      using bit fd(3) by (auto simp: stale_def is_event_def bit_READ bit_WRITE)
    then have inv2: "ep_inv ?q2" using handle_event_ok [OF q1(2) k1(2), of v "os_ctl k"] h by auto
    have "fd_ok ?c" using q1(2) k1(2) by (simp add: ep_inv_def fd_ok_nth)
    then have na: "\<not> awaited fd j ?q2" using k1(2) cleared_bits [OF fd(3), of ?c j] by (simp add: awaited_def)
    have qu: "m_fibers (scheds ?q2 (self q)) = m_fibers (scheds q (self q)) @ [?t]"
      "fstate (scheds ?q2 (self q)) = fstate (scheds q (self q))"
      using k1 by (simp_all add: schedule_def scheduleNonLock_def FiberTask_def Let_def)
    have pk: "\<exists>need sch. pick tid (scheds ?q2 (self q)) = Inr (need, Some ?t, sch) \<and> m_fibers sch = m_fibers (scheds q (self q))"
      if qi: "queue_inv (scheds q (self q))" and ex: "fstate (scheds q (self q)) me \<noteq> EXEC"
        and ne: "\<forall>t \<in> set (m_fibers (scheds q (self q))). \<not> eligible tid (fstate (scheds q (self q))) t"
    proof -
      have "queue_inv (scheds ?q2 (self q))"
        using qi unfolding queue_inv_def qu by (auto simp: FiberTask_def)
      moreover have "eligible tid (fstate (scheds ?q2 (self q))) ?t"
        unfolding qu(2) using ex by (simp add: eligible_def FiberTask_def)
      moreover have "\<forall>t \<in> set (m_fibers (scheds q (self q))). \<not> eligible tid (fstate (scheds ?q2 (self q))) t"
        unfolding qu(2) by (rule ne)
      ultimately show ?thesis by (intro pick_last [OF _ qu(1)])
    qed
    let ?s = "s1\<lparr>ep := Some ?q2\<rparr>"
    have inf: "infos ?s (fr_info fr) = Some 0" using i1 by simp
    have "io_inv s1 ({fr} \<union> F)"
      using do_io_io [OF inv io] by (simp add: left_def)
    then have "tm_inv (tm ?q2)" using q1(1) by (simp add: io_inv_def tm_ok_def)
    then obtain q3 where q3: "ep (disarm (fr_timer fr) ?s) = Some q3"
        "set (m_timers (tm q3)) = set (m_timers (tm q1)) - set_option (fr_timer fr)" "m_fdContexts q3 = m_fdContexts ?q2"
      using disarm_timers [of ?s ?q2 "fr_timer fr"] by auto
    have "\<not> awaited fd j q3" using na q3(3) by (simp add: awaited_def)
    moreover have "(infos s1)(fr_info fr := None) = infos s"
      using i1 i0 keep(1) by auto
    ultimately have "\<exists>s3 q3. do_io_resume k now' a' me fr rs' ?s = Inr (Returned n, s3) \<and>
           infos s3 = infos s \<and> ep s3 = Some q3 \<and> set (m_timers (tm q3)) = set (m_timers (tm q)) \<and> \<not> awaited fd j q3"
      using resume_answered [where s="?s", OF inf answer(2,3), of k now' a' me m' rest'] q3(1,2) tmr
      by (simp add: answer(1) drop_info_def)
    then show ?thesis using h inv2 na qu(1) pk by blast
  qed
  then show ?thesis using io q1(1) k1 by blast
qed

theorem blocking_call_path_witness:
  "\<exists>fr s1 q1 q2 s3. do_io an_os 50 9 7 3 READ SO_RCVTIMEO [(-1, EAGAIN)] a_hook = Inr (Held fr, s1) \<and> ep s1 = Some q1 \<and>
     handle_event (os_ctl an_os) 3 READ q1 = Inr q2 \<and> do_io_resume an_os 60 10 7 fr [(5, 0)] (s1\<lparr>ep := Some q2\<rparr>) = Inr (Returned 5, s3)"
proof -
  have n: "io_inv a_hook {}" by (rule no_calls_inv) (simp add: no_calls_def a_hook_facts)
  have fresh: "fresh_in 9 a_hook {}" by (simp add: fresh_in_def fresh_timer_def a_hook_facts)
  have na: "\<not> awaited 3 0 a_hook_poller" by (simp add: awaited_def a_hook_facts)
  have ac: "accepts an_os 3 READ a_hook_poller" by (simp add: accepts_def an_os_def)
  have "releases (os_ctl an_os) i v r" for i v r by (simp add: releases_def an_os_def Let_def)
  then show ?thesis
    using blocking_call_path [where m=0 and m'=0 and n=5 and e=0 and rest="[]" and rest'="[]" and now=50 and me=7
        and now'=60 and a'=10 and so=SO_RCVTIMEO and rs="[(-1, EAGAIN)]" and rs'="[(5, 0)]",
        OF n fresh a_hook_facts(1) _ is_event_READ a_hook_facts(2,3) _ na ac]
    by (fastforce simp: a_hook_facts)
qed

section \<open>From a configuration tree to the stacks of fibers\<close>





end
